(* ===== verification/Prelude.thy ===== *)
theory Prelude
  imports Main "HOL-Library.Word"
begin

unbundle bit_operations_syntax

text \<open>
  Shared vocabulary of the development: the machine integer types of the Rust sources, the
  outcome type of a Rust call (a value, an \<open>Err\<close>, or a panic), sequencing of calls over a
  mutable receiver, little-endian byte encodings of fixed-width integers, and the slice
  operations the codecs use. \<open>usize\<close> values are natural numbers; the places where the
  source guards against \<open>usize\<close> overflow write the bound out.
\<close>

named_theorems wire_simps \<open>equations that evaluate the byte codecs\<close>
named_theorems op_defs \<open>definitions of the fallible operations\<close>

section \<open>Types\<close>

type_synonym byte = "8 word"
type_synonym u16 = "16 word"
type_synonym u32 = "32 word"
type_synonym i32 = "32 word"
type_synonym u64 = "64 word"
type_synonym usize = nat

abbreviation i32_max :: nat where
  "i32_max \<equiv> 2147483647"

abbreviation u32_max :: nat where
  "u32_max \<equiv> 4294967295"

section \<open>Outcomes of calls\<close>

text \<open>\<open>Ok\<close> and \<open>Err\<close> are the arms of \<open>Result\<close>; \<open>Panic\<close> is an unwinding panic
  (a failed \<open>assert!\<close>, an out-of-range slice index, an \<open>expect\<close>).\<close>

datatype ('e, 'a) outcome = Ok 'a | Err 'e | Panic

text \<open>The \<open>?\<close> operator for a call on a \<open>&mut\<close> receiver: the receiver keeps what the call
  did to it on every arm.\<close>

fun andThen :: "('e, 'a) outcome \<times> 's \<Rightarrow> ('a \<Rightarrow> 's \<Rightarrow> ('e, 'b) outcome \<times> 's) \<Rightarrow>
    ('e, 'b) outcome \<times> 's" where
  "andThen (Ok a, s) f = f a s"
| "andThen (Err e, s) f = (Err e, s)"
| "andThen (Panic, s) f = (Panic, s)"

text \<open>The \<open>?\<close> operator for a call without a receiver.\<close>

fun bind_out :: "('e, 'a) outcome \<Rightarrow> ('a \<Rightarrow> ('e, 'b) outcome) \<Rightarrow> ('e, 'b) outcome" where
  "bind_out (Ok a) f = f a"
| "bind_out (Err e) f = Err e"
| "bind_out Panic f = Panic"

text \<open>The \<open>?\<close> operator for a call that may not return (\<open>None\<close>).\<close>

definition seq_act :: "(('e, 'a) outcome \<times> 's) option \<Rightarrow> ('a \<Rightarrow> 's \<Rightarrow> (('e, 'b) outcome \<times> 's) option) \<Rightarrow>
    (('e, 'b) outcome \<times> 's) option" where
  "seq_act m f = Option.bind m (\<lambda>(r, s). case r of Ok a \<Rightarrow> f a s | Err e \<Rightarrow> Some (Err e, s) | Panic \<Rightarrow> Some (Panic, s))"

fun is_ok :: "('e, 'a) outcome \<Rightarrow> bool" where
  "is_ok (Ok _) = True"
| "is_ok _ = False"

lemma andThen_Ok_iff:
  "andThen r f = (Ok b, t) \<longleftrightarrow> (\<exists>a s. r = (Ok a, s) \<and> f a s = (Ok b, t))"
  by (cases "(r, f)" rule: andThen.cases) auto

lemma bind_out_Ok_iff: "bind_out r f = Ok b \<longleftrightarrow> (\<exists>a. r = Ok a \<and> f a = Ok b)"
  by (cases r) auto

lemma andThen_assoc: "andThen (andThen r f) g = andThen r (\<lambda>a s. andThen (f a s) g)"
  by (cases "(r, f)" rule: andThen.cases) auto

section \<open>Slices\<close>

text \<open>\<open>&xs[a..b]\<close> panics out of range; \<open>xs.get(a..b)\<close> is \<open>None\<close> there.\<close>

definition slice_get :: "'a list \<Rightarrow> nat \<Rightarrow> nat \<Rightarrow> 'a list option" where
  "slice_get xs a b = (if a \<le> b \<and> b \<le> length xs then Some (take (b - a) (drop a xs)) else None)"

definition slice_index :: "'a list \<Rightarrow> nat \<Rightarrow> nat \<Rightarrow> ('e, 'a list) outcome" where
  "slice_index xs a b = (case slice_get xs a b of Some ys \<Rightarrow> Ok ys | None \<Rightarrow> Panic)"

text \<open>\<open>splice xs i ys\<close> overwrites \<open>xs\<close> from index \<open>i\<close> with \<open>ys\<close>, zero-filling a gap before \<open>i\<close>
  and growing past the end when \<open>ys\<close> does.\<close>

definition splice :: "'a::zero list \<Rightarrow> nat \<Rightarrow> 'a list \<Rightarrow> 'a list" where
  "splice xs i ys = take i (xs @ replicate (i - length xs) 0) @ ys @ drop (i + length ys) xs"

lemma length_splice [simp]:
  "length (splice xs i ys) = max (length xs) (i + length ys)"
  by (auto simp: splice_def)

lemma take_splice: "i \<le> length xs \<Longrightarrow> take i (splice xs i ys) = take i xs"
  by (simp add: splice_def)

lemma splice_at_end [simp]: "splice xs (length xs) ys = xs @ ys"
  by (simp add: splice_def)

lemma splice_nth_new:
  assumes "j < length ys"
  shows "splice xs i ys ! (i + j) = ys ! j"
  using assms by (auto simp: splice_def nth_append min_def)

lemma drop_take_splice: "take (length ys) (drop i (splice xs i ys)) = ys"
  by (simp add: splice_def)

lemma splice_nth_gap:
  "length xs \<le> j \<Longrightarrow> j < i \<Longrightarrow> splice xs i ys ! j = 0"
  by (auto simp: splice_def nth_append)

lemma splice_nth_old:
  "j < length xs \<Longrightarrow> j < i \<or> i + length ys \<le> j \<Longrightarrow> splice xs i ys ! j = xs ! j"
  by (auto simp: splice_def nth_append min_def)

lemma slice_get_prefix: "slice_get (xs @ ys @ zs) (length xs) (length xs + length ys) = Some ys"
  by (simp add: slice_get_def)

lemma slice_get_Some_iff:
  "slice_get xs a b = Some ys \<longleftrightarrow> a \<le> b \<and> b \<le> length xs \<and> ys = take (b - a) (drop a xs)"
  by (auto simp: slice_get_def)

section \<open>Little-endian integers\<close>

fun le_nat :: "nat \<Rightarrow> nat \<Rightarrow> byte list" where
  "le_nat 0 v = []"
| "le_nat (Suc n) v = word_of_nat (v mod 256) # le_nat n (v div 256)"

fun nat_of_le :: "byte list \<Rightarrow> nat" where
  "nat_of_le [] = 0"
| "nat_of_le (b # bs) = unat b + 256 * nat_of_le bs"

lemma length_le_nat [simp]: "length (le_nat n v) = n"
  by (induction n arbitrary: v) auto

lemma nat_of_le_le_nat [simp]: "nat_of_le (le_nat n v) = v mod 256 ^ n"
proof (induction n arbitrary: v)
  case (Suc n)
  have "unat (word_of_nat (v mod 256) :: byte) = v mod 256"
    by (simp add: unat_of_nat)
  with Suc show ?case
    by (simp add: mod_mult2_eq)
qed simp

lemma nat_of_le_bound: "nat_of_le bs < 256 ^ length bs"
proof (induction bs)
  case (Cons b bs)
  have "unat b < 256" using unsigned_less [of b, where ?'a = nat] by simp
  then have "unat b + 256 * nat_of_le bs < 256 * (nat_of_le bs + 1)" by simp
  also have "\<dots> \<le> 256 * 256 ^ length bs"
    using Cons by (intro mult_le_mono) auto
  finally show ?case by simp
qed simp

lemma le_nat_add: "le_nat (m + n) v = le_nat m v @ le_nat n (v div 256 ^ m)"
  by (induction m arbitrary: v) (simp_all add: div_mult2_eq)

lemma le_nat_zero [simp]: "le_nat n 0 = replicate n 0"
  by (induction n) simp_all

lemma le_nat_nat_of_le: "le_nat (length bs) (nat_of_le bs) = bs"
proof (induction bs)
  case (Cons b bs)
  have "unat b < 256" using unsigned_less [of b, where ?'a = nat] by simp
  with Cons show ?case by simp
qed simp

text \<open>\<open>to_le_bytes\<close> / \<open>from_le_bytes\<close> of the fixed-width integers. The supported targets are
  little-endian, so \<open>from_ne_bytes\<close> and the in-memory image of a value are the same bytes.\<close>

definition le_bytes :: "'a::len word \<Rightarrow> byte list" where
  "le_bytes w = le_nat (LENGTH('a) div 8) (unat w)"

definition of_le_bytes :: "byte list \<Rightarrow> 'a::len word" where
  "of_le_bytes bs = word_of_nat (nat_of_le bs)"

lemma length_le_bytes: "length (le_bytes (w :: 'a::len word)) = LENGTH('a) div 8"
  by (simp add: le_bytes_def)

lemma length_le_bytes_widths [simp]:
  "length (le_bytes (a :: 8 word)) = 1" "length (le_bytes (b :: 16 word)) = 2"
  "length (le_bytes (c :: 32 word)) = 4" "length (le_bytes (d :: 64 word)) = 8"
  "length (le_bytes (e :: 128 word)) = 16"
  by (simp_all add: length_le_bytes)

lemma of_le_bytes_le_bytes:
  assumes "8 dvd LENGTH('a)"
  shows "of_le_bytes (le_bytes (w :: 'a::len word)) = w"
proof -
  have "(256 :: nat) ^ (LENGTH('a) div 8) = 2 ^ (8 * (LENGTH('a) div 8))"
    by (simp add: power_mult)
  also have "\<dots> = 2 ^ LENGTH('a)" using assms by simp
  finally show ?thesis
    using unsigned_less [of w, where ?'a = nat] by (simp add: of_le_bytes_def le_bytes_def)
qed

lemma of_le_bytes_le_bytes_widths [simp]:
  "of_le_bytes (le_bytes (a :: 8 word)) = a" "of_le_bytes (le_bytes (b :: 16 word)) = b"
  "of_le_bytes (le_bytes (c :: 32 word)) = c" "of_le_bytes (le_bytes (d :: 64 word)) = d"
  "of_le_bytes (le_bytes (e :: 128 word)) = e"
  by (simp_all add: of_le_bytes_le_bytes)

lemma le_bytes_of_le_bytes:
  assumes "8 * length bs = LENGTH('a)"
  shows "le_bytes (of_le_bytes bs :: 'a::len word) = bs"
proof -
  have "nat_of_le bs < 2 ^ LENGTH('a)"
    using nat_of_le_bound [of bs] assms by (simp add: power_mult flip: assms)
  then have "unat (of_le_bytes bs :: 'a word) = nat_of_le bs"
    by (simp add: of_le_bytes_def unat_of_nat)
  moreover have "LENGTH('a) div 8 = length bs" using assms by linarith
  ultimately show ?thesis by (simp add: le_bytes_def le_nat_nat_of_le)
qed

section \<open>Chunks\<close>

text \<open>\<open>chunks_exact(n)\<close>: the whole chunks of \<open>n\<close> elements, the remainder dropped.\<close>

function chunks_exact :: "nat \<Rightarrow> 'a list \<Rightarrow> 'a list list" where
  "chunks_exact n xs =
     (if n = 0 \<or> length xs < n then [] else take n xs # chunks_exact n (drop n xs))"
  by pat_completeness auto
termination
  by (relation "measure (\<lambda>(n, xs). length xs)") auto

declare chunks_exact.simps [simp del]

lemma chunks_exact_concat:
  assumes "0 < n" and "\<forall>x \<in> set xs. length (f x) = n"
  shows "chunks_exact n (concat (map f xs)) = map f xs"
  using assms(2)
proof (induction xs)
  case Nil
  then show ?case using assms(1) by (simp add: chunks_exact.simps)
next
  case (Cons x xs)
  then have "chunks_exact n (f x @ concat (map f xs)) = f x # chunks_exact n (concat (map f xs))"
    using assms(1) by (subst chunks_exact.simps) simp
  with Cons show ?case by simp
qed

lemma length_concat_const: "\<forall>x \<in> set xs. length (f x) = n \<Longrightarrow>
    length (concat (map f xs)) = n * length xs"
  by (induction xs) auto

lemma length_chunks_exact: "0 < n \<Longrightarrow> length (chunks_exact n xs) = length xs div n"
proof (induction n xs rule: chunks_exact.induct)
  case (1 n xs)
  then show ?case
    by (subst chunks_exact.simps) (auto simp: le_div_geq not_less)
qed

end
