(* ===== verification/Status_Code.thy ===== *)
theory Status_Code
  imports Prelude
begin

text \<open>
  The status codes of \<open>rsbinder/src/error.rs\<close> and their conversions to and from the \<open>i32\<close>
  that travels in transactions. The numeric errno values come from the \<open>rustix\<close> crate, so
  they are a parameter \<open>E\<close>; \<open>errno_ok\<close> states what the platform documents about them.
  The \<open>rpc\<close> feature is on.
\<close>

section \<open>Definitions\<close>

datatype StatusCode =
    StatusOk | Unknown | NoMemory | InvalidOperation | BadValue | BadType | NameNotFound
  | PermissionDenied | NoInit | AlreadyExists | DeadObject | FailedTransaction
  | UnknownTransaction | BadIndex | FdsNotAllowed | UnexpectedNull | NotEnoughData
  | WouldBlock | TimedOut | BadFd | RpcError | Errno int | ServiceSpecific int

type_synonym ('a) result = "(StatusCode, 'a) outcome"

text \<open>The errno constants of \<open>rustix::io::Errno\<close> the source names.\<close>

datatype errno_name =
    NOMEM | NOSYS | INVAL | NOENT | PERM | NODEV | EXIST | PIPE | BADMSG | OVERFLOW
  | NODATA | WOULDBLOCK | TIMEDOUT | BADF

definition UNKNOWN_ERROR :: int where
  "UNKNOWN_ERROR = -2147483647 - 1"

fun i32_of_StatusCode :: "(errno_name \<Rightarrow> int) \<Rightarrow> StatusCode \<Rightarrow> int" where
  "i32_of_StatusCode E StatusOk = 0"
| "i32_of_StatusCode E Unknown = UNKNOWN_ERROR"
| "i32_of_StatusCode E NoMemory = - E NOMEM"
| "i32_of_StatusCode E InvalidOperation = - E NOSYS"
| "i32_of_StatusCode E BadValue = - E INVAL"
| "i32_of_StatusCode E BadType = UNKNOWN_ERROR + 1"
| "i32_of_StatusCode E NameNotFound = - E NOENT"
| "i32_of_StatusCode E PermissionDenied = - E PERM"
| "i32_of_StatusCode E NoInit = - E NODEV"
| "i32_of_StatusCode E AlreadyExists = - E EXIST"
| "i32_of_StatusCode E DeadObject = - E PIPE"
| "i32_of_StatusCode E FailedTransaction = UNKNOWN_ERROR + 2"
| "i32_of_StatusCode E UnknownTransaction = - E BADMSG"
| "i32_of_StatusCode E BadIndex = - E OVERFLOW"
| "i32_of_StatusCode E FdsNotAllowed = UNKNOWN_ERROR + 7"
| "i32_of_StatusCode E UnexpectedNull = UNKNOWN_ERROR + 8"
| "i32_of_StatusCode E RpcError = UNKNOWN_ERROR + 10"
| "i32_of_StatusCode E NotEnoughData = - E NODATA"
| "i32_of_StatusCode E WouldBlock = - E WOULDBLOCK"
| "i32_of_StatusCode E TimedOut = - E TIMEDOUT"
| "i32_of_StatusCode E BadFd = - E BADF"
| "i32_of_StatusCode E (ServiceSpecific v) = v"
| "i32_of_StatusCode E (Errno e) = e"

definition StatusCode_of_i32 :: "(errno_name \<Rightarrow> int) \<Rightarrow> int \<Rightarrow> StatusCode" where
  "StatusCode_of_i32 E code =
    (if code = 0 then StatusOk
     else if code = UNKNOWN_ERROR then Unknown
     else if code = - E NOMEM then NoMemory
     else if code = - E NOSYS then InvalidOperation
     else if code = - E INVAL then BadValue
     else if code = UNKNOWN_ERROR + 1 then BadType
     else if code = - E NOENT then NameNotFound
     else if code = - E PERM then PermissionDenied
     else if code = - E NODEV then NoInit
     else if code = - E EXIST then AlreadyExists
     else if code = - E PIPE then DeadObject
     else if code = UNKNOWN_ERROR + 2 then FailedTransaction
     else if code = - E BADMSG then UnknownTransaction
     else if code = - E OVERFLOW then BadIndex
     else if code = UNKNOWN_ERROR + 7 then FdsNotAllowed
     else if code = UNKNOWN_ERROR + 8 then UnexpectedNull
     else if code = UNKNOWN_ERROR + 10 then RpcError
     else if code = - E NODATA then NotEnoughData
     else if code = - E WOULDBLOCK then WouldBlock
     else if code = - E TIMEDOUT then TimedOut
     else if code = - E BADF then BadFd
     else if code < 0 then Errno code
     else ServiceSpecific code)"

text \<open>\<open>From<rustix::io::Errno>\<close>: \<open>raw\<close> is the errno's \<open>raw_os_error()\<close>.\<close>

definition StatusCode_of_errno :: "(errno_name \<Rightarrow> int) \<Rightarrow> int \<Rightarrow> StatusCode" where
  "StatusCode_of_errno E raw =
    (if raw = E NOMEM then NoMemory
     else if raw = E NOSYS then InvalidOperation
     else if raw = E INVAL then BadValue
     else if raw = E NOENT then NameNotFound
     else if raw = E PERM then PermissionDenied
     else if raw = E NODEV then NoInit
     else if raw = E EXIST then AlreadyExists
     else if raw = E PIPE then DeadObject
     else if raw = E BADMSG then UnknownTransaction
     else if raw = E OVERFLOW then BadIndex
     else if raw = E NODATA then NotEnoughData
     else if raw = E WOULDBLOCK then WouldBlock
     else if raw = E TIMEDOUT then TimedOut
     else if raw = E BADF then BadFd
     else Errno (- raw))"

text \<open>\<open>From<std::io::Error>\<close>: the argument is \<open>err.raw_os_error()\<close>.\<close>

definition StatusCode_of_io_error :: "(errno_name \<Rightarrow> int) \<Rightarrow> int option \<Rightarrow> StatusCode" where
  "StatusCode_of_io_error E raw_os_error =
    (case raw_os_error of Some raw \<Rightarrow> StatusCode_of_errno E raw | None \<Rightarrow> Unknown)"

text \<open>The platform's promise: the named errno values are distinct and lie in
  \<open>1..4095\<close> (\<open>MAX_ERRNO\<close>).\<close>

definition errno_ok :: "(errno_name \<Rightarrow> int) \<Rightarrow> bool" where
  "errno_ok E \<longleftrightarrow> inj E \<and> (\<forall>n. 1 \<le> E n \<and> E n \<le> 4095)"

text \<open>The values of a Linux target.\<close>

fun linux_errno :: "errno_name \<Rightarrow> int" where
  "linux_errno NOMEM = 12" | "linux_errno NOSYS = 38" | "linux_errno INVAL = 22"
| "linux_errno NOENT = 2" | "linux_errno PERM = 1" | "linux_errno NODEV = 19"
| "linux_errno EXIST = 17" | "linux_errno PIPE = 32" | "linux_errno BADMSG = 74"
| "linux_errno OVERFLOW = 75" | "linux_errno NODATA = 61" | "linux_errno WOULDBLOCK = 11"
| "linux_errno TIMEDOUT = 110" | "linux_errno BADF = 9"

text \<open>A code that is not a catch-all arm holding a value another arm owns.\<close>

definition named_codes :: "(errno_name \<Rightarrow> int) \<Rightarrow> int list" where
  "named_codes E = map (i32_of_StatusCode E)
     [StatusOk, Unknown, NoMemory, InvalidOperation, BadValue, BadType, NameNotFound,
      PermissionDenied, NoInit, AlreadyExists, DeadObject, FailedTransaction,
      UnknownTransaction, BadIndex, FdsNotAllowed, UnexpectedNull, NotEnoughData,
      WouldBlock, TimedOut, BadFd, RpcError]"

fun canonical :: "(errno_name \<Rightarrow> int) \<Rightarrow> StatusCode \<Rightarrow> bool" where
  "canonical E (Errno e) \<longleftrightarrow> e < 0 \<and> e \<notin> set (named_codes E)"
| "canonical E (ServiceSpecific v) \<longleftrightarrow> 0 < v"
| "canonical E _ \<longleftrightarrow> True"

section \<open>Properties\<close>

lemma linux_errno_ok: "errno_ok linux_errno"
proof -
  have "1 \<le> linux_errno n \<and> linux_errno n \<le> 4095" for n by (cases n) simp_all
  moreover have "linux_errno m = linux_errno n \<Longrightarrow> m = n" for m n by (cases m; cases n) simp_all
  ultimately show ?thesis by (simp add: errno_ok_def inj_def)
qed

lemma canonical_of_i32: "canonical E (StatusCode_of_i32 E x)"
proof (cases x "0 :: int" rule: linorder_cases)
  case less
  then show ?thesis by (simp add: StatusCode_of_i32_def named_codes_def)
qed (simp_all add: StatusCode_of_i32_def)

lemma errno_range: "errno_ok E \<Longrightarrow> 1 \<le> E n \<and> E n \<le> 4095"
  by (simp add: errno_ok_def)

lemma errno_inj: "errno_ok E \<Longrightarrow> E m = E n \<longleftrightarrow> m = n"
  by (auto simp: errno_ok_def inj_eq)

lemma negated_errno:
  assumes "1 \<le> r" "r \<le> 4095"
  shows "r \<noteq> 0" "0 < r" "- r \<noteq> UNKNOWN_ERROR" "\<not> 0 < - r" "- r < 0"
    "0 \<le> k \<Longrightarrow> k \<le> 10 \<Longrightarrow> - r \<noteq> UNKNOWN_ERROR + k"
    "UNKNOWN_ERROR \<noteq> - r" "0 \<le> k \<Longrightarrow> k \<le> 10 \<Longrightarrow> UNKNOWN_ERROR + k \<noteq> - r"
  using assms by (simp_all add: UNKNOWN_ERROR_def)

lemma of_i32_of_named:
  assumes "errno_ok E" "case c of Errno _ \<Rightarrow> False | ServiceSpecific _ \<Rightarrow> False | _ \<Rightarrow> True"
  shows "StatusCode_of_i32 E (i32_of_StatusCode E c) = c"
proof -
  note r = errno_range [OF assms(1)]
  note facts = negated_errno [OF conjunct1 [OF r] conjunct2 [OF r]] errno_inj [OF assms(1)]
  have z: "UNKNOWN_ERROR \<noteq> 0" "UNKNOWN_ERROR + 1 \<noteq> 0" "UNKNOWN_ERROR + 2 \<noteq> 0"
    "UNKNOWN_ERROR + 7 \<noteq> 0" "UNKNOWN_ERROR + 8 \<noteq> 0" "UNKNOWN_ERROR + 10 \<noteq> 0"
    by (simp_all add: UNKNOWN_ERROR_def)
  show ?thesis
    using assms(2) by (cases c) (simp_all add: StatusCode_of_i32_def facts z)
qed

lemma of_i32_unnamed:
  "x \<notin> set (named_codes E) \<Longrightarrow>
    StatusCode_of_i32 E x = (if x < 0 then Errno x else ServiceSpecific x)"
  by (simp add: StatusCode_of_i32_def named_codes_def)

lemma positive_unnamed:
  assumes "errno_ok E" "0 < x"
  shows "x \<notin> set (named_codes E)"
proof -
  have "x \<noteq> - E n" for n using errno_range [OF assms(1), of n] assms(2) by linarith
  then show ?thesis using assms(2) by (simp add: named_codes_def UNKNOWN_ERROR_def)
qed

lemma of_i32_of_canonical:
  assumes "errno_ok E" "canonical E c"
  shows "StatusCode_of_i32 E (i32_of_StatusCode E c) = c"
proof (cases c)
  case (Errno e)
  then show ?thesis using assms(2) by (simp add: of_i32_unnamed)
next
  case (ServiceSpecific v)
  then show ?thesis using assms positive_unnamed [of E v] by (simp add: of_i32_unnamed)
qed (use of_i32_of_named [OF assms(1), of c] in simp_all)

text \<open>the \<open>i32\<close> of a transaction status loses nothing: decoding any value and encoding it
  again gives the value back, on every platform.\<close>

theorem i32_StatusCode_i32: "i32_of_StatusCode E (StatusCode_of_i32 E x) = x"
  by (simp add: StatusCode_of_i32_def)

text \<open>decoding inverts encoding on every status code except a catch-all arm holding a value
  that a named arm owns, and those are never produced by decoding.\<close>

theorem StatusCode_i32_StatusCode:
  assumes "errno_ok E"
  shows "StatusCode_of_i32 E (i32_of_StatusCode E c) = c \<longleftrightarrow> canonical E c"
  using of_i32_of_canonical [OF assms, of c] canonical_of_i32 [of E "i32_of_StatusCode E c"]
  by metis

theorem StatusCode_i32_StatusCode_witness:
  "StatusCode_of_i32 linux_errno (i32_of_StatusCode linux_errno (Errno (-5))) = Errno (-5) \<and>
   StatusCode_of_i32 linux_errno (i32_of_StatusCode linux_errno (Errno (-22))) \<noteq> Errno (-22)"
  using StatusCode_i32_StatusCode [OF linux_errno_ok, of "Errno (-5)"]
    StatusCode_i32_StatusCode [OF linux_errno_ok, of "Errno (-22)"]
  by (simp add: named_codes_def UNKNOWN_ERROR_def)

text \<open>the three routes from an operating-system error to a status code agree: an errno, the
  I/O error that carries it, and the negated \<open>i32\<close> of the wire.\<close>

theorem errno_routes_agree:
  assumes "errno_ok E" and "1 \<le> raw" and "raw \<le> 4095"
  shows "StatusCode_of_errno E raw = StatusCode_of_i32 E (- raw) \<and>
         StatusCode_of_io_error E (Some raw) = StatusCode_of_i32 E (- raw)"
proof -
  have "StatusCode_of_errno E raw = StatusCode_of_i32 E (- raw)"
    by (simp add: StatusCode_of_errno_def StatusCode_of_i32_def negated_errno [OF assms(2,3)])
  then show ?thesis by (simp add: StatusCode_of_io_error_def)
qed

theorem errno_routes_agree_witness:
  "StatusCode_of_errno linux_errno 32 = DeadObject \<and>
   StatusCode_of_io_error linux_errno (Some 5) = Errno (-5)"
  using errno_routes_agree [OF linux_errno_ok, of 32] errno_routes_agree [OF linux_errno_ok, of 5]
  by (simp add: StatusCode_of_i32_def UNKNOWN_ERROR_def)

end
