(* ===== verification/Rpc_Address.thy ===== *)
theory Rpc_Address
  imports Status_Code
begin

text \<open>
  Object identities of the RPC stack, \<open>rsbinder/src/rpc/address.rs\<close>, and the file-descriptor
  transport mode of \<open>rpc/fd_mode.rs\<close>. An address is 32 opaque bytes; the array length the
  Rust type fixes is the predicate \<open>addr_ok\<close>.
\<close>

section \<open>Definitions\<close>

definition RPC_ADDR_LEN :: nat where
  "RPC_ADDR_LEN = 32"

datatype RpcAddress = RpcAddress (as_wire_bytes: "byte list")

definition addr_ok :: "RpcAddress \<Rightarrow> bool" where
  "addr_ok a \<longleftrightarrow> length (as_wire_bytes a) = RPC_ADDR_LEN"

definition addr_zero :: RpcAddress where
  "addr_zero = RpcAddress (replicate RPC_ADDR_LEN 0)"

definition is_zero :: "RpcAddress \<Rightarrow> bool" where
  "is_zero a \<longleftrightarrow> as_wire_bytes a = replicate RPC_ADDR_LEN 0"

datatype AddressSpace = Initiator | Acceptor

fun tag :: "AddressSpace \<Rightarrow> byte" where
  "tag Initiator = 1"
| "tag Acceptor = 2"

text \<open>\<open>RpcAddress::unique\<close>: the counter after the call and the address.\<close>

definition addr_unique :: "u64 \<Rightarrow> AddressSpace \<Rightarrow> RpcAddress \<times> u64" where
  "addr_unique counter space =
    (let counter' = counter + 1;
         bytes = splice (replicate RPC_ADDR_LEN 0) 0 (le_bytes counter')
     in (RpcAddress (bytes[8 := tag space]), counter'))"

datatype SpecialTransaction = GetRoot | GetMaxThreads | GetSessionId | GetFdMode

fun special_code :: "SpecialTransaction \<Rightarrow> u32" where
  "special_code GetRoot = 0"
| "special_code GetMaxThreads = 1"
| "special_code GetSessionId = 2"
| "special_code GetFdMode = 3"

definition special_from_code :: "u32 \<Rightarrow> SpecialTransaction option" where
  "special_from_code c =
    (if c = 0 then Some GetRoot else if c = 1 then Some GetMaxThreads
     else if c = 2 then Some GetSessionId else if c = 3 then Some GetFdMode else None)"

datatype FileDescriptorTransportMode = FdNone | FdUnix

section \<open>Lemmas\<close>

lemma addr_unique_bytes:
  "fst (addr_unique c s) = RpcAddress (le_bytes (c + 1) @ tag s # replicate 23 0)"
proof -
  have "splice (replicate RPC_ADDR_LEN 0) 0 (le_bytes (c + 1)) = le_bytes (c + 1) @ replicate 24 (0 :: byte)"
    by (simp add: splice_def RPC_ADDR_LEN_def)
  moreover have "(le_bytes (c + 1) @ replicate 24 (0 :: byte))[8 := tag s] =
      le_bytes (c + 1) @ tag s # replicate 23 0"
    by (simp add: list_update_append numeral_eq_Suc)
  ultimately show ?thesis by (simp add: addr_unique_def Let_def)
qed

lemma snd_addr_unique [simp]: "snd (addr_unique c s) = c + 1"
  by (simp add: addr_unique_def Let_def)

lemma addr_ok_unique [simp]: "addr_ok (fst (addr_unique c s))"
  by (simp add: addr_unique_bytes addr_ok_def RPC_ADDR_LEN_def)

lemma addr_ok_zero [simp]: "addr_ok addr_zero"
  by (simp add: addr_ok_def addr_zero_def)

lemma is_zero_iff: "is_zero a \<longleftrightarrow> a = addr_zero"
  by (cases a) (simp add: is_zero_def addr_zero_def)

lemma le_bytes_inj: "8 dvd LENGTH('a) \<Longrightarrow> le_bytes (v :: 'a::len word) = le_bytes w \<longleftrightarrow> v = w"
  using of_le_bytes_le_bytes by metis

lemma tag_inj [simp]: "tag s = tag t \<longleftrightarrow> s = t"
  by (cases s; cases t) simp_all

lemma addr_unique_eq_iff:
  "fst (addr_unique c s) = fst (addr_unique d t) \<longleftrightarrow> c = d \<and> s = t"
  by (auto simp: addr_unique_bytes le_bytes_inj)

lemma addr_unique_not_zero: "\<not> is_zero (fst (addr_unique c s))"
proof
  assume "is_zero (fst (addr_unique c s))"
  then have "le_bytes (c + 1) @ tag s # replicate 23 0 = replicate 8 0 @ 0 # replicate 23 0"
    by (simp add: is_zero_def addr_unique_bytes RPC_ADDR_LEN_def numeral_eq_Suc)
  then have "tag s = 0"
    by (simp add: append_eq_append_conv)
  then show False by (cases s) simp_all
qed

lemma special_from_code_code [simp]: "special_from_code (special_code s) = Some s"
  by (cases s) (simp_all add: special_from_code_def)

lemma special_code_from_code: "special_from_code c = Some s \<Longrightarrow> special_code s = c"
  by (auto simp: special_from_code_def split: if_splits)

text \<open>The addresses an endpoint mints by \<open>n\<close> successive calls.\<close>

fun mint :: "nat \<Rightarrow> u64 \<Rightarrow> AddressSpace \<Rightarrow> RpcAddress list" where
  "mint 0 c s = []"
| "mint (Suc n) c s = (let (a, c') = addr_unique c s in a # mint n c' s)"

lemma mint_eq: "mint n c s = map (\<lambda>i. fst (addr_unique (c + of_nat i) s)) [0..<n]"
proof (induction n arbitrary: c)
  case (Suc n)
  have "mint (Suc n) c s = fst (addr_unique c s) # mint n (c + 1) s"
    by (simp add: case_prod_unfold)
  also have "\<dots> = map (\<lambda>i. fst (addr_unique (c + of_nat i) s)) (0 # map Suc [0..<n])"
    by (simp add: Suc add.assoc)
  also have "0 # map Suc [0..<n] = [0..<Suc n]"
    by (simp add: map_Suc_upt upt_conv_Cons del: upt_Suc)
  finally show ?case .
qed simp

text \<open>addresses minted by the two ends of a connection never collide: the addresses an
  endpoint mints are pairwise distinct until the 64-bit counter wraps, none is the reserved zero
  address, and none of them equals an address the other role mints from any counter value.\<close>

theorem minted_addresses_unique:
  assumes "n \<le> 2 ^ 64"
  shows "distinct (mint n c s) \<and> addr_zero \<notin> set (mint n c s) \<and>
         (s \<noteq> t \<longrightarrow> set (mint n c s) \<inter> set (mint m d t) = {})"
proof -
  have "inj_on (\<lambda>i. of_nat i :: u64) {0..<n}"
    using assms by (intro inj_onI) (simp add: word_of_nat_eq_iff take_bit_nat_eq_self)
  then have "distinct (mint n c s)"
    by (auto simp: mint_eq distinct_map addr_unique_eq_iff inj_on_def)
  moreover have "addr_zero \<notin> set (mint n c s)"
    using addr_unique_not_zero [THEN notE, OF is_zero_iff [THEN iffD2, OF sym]]
    by (auto simp: mint_eq)
  moreover have "s \<noteq> t \<Longrightarrow> set (mint n c s) \<inter> set (mint m d t) = {}"
    by (auto simp: mint_eq addr_unique_eq_iff)
  ultimately show ?thesis by blast
qed

theorem minted_addresses_unique_witness:
  "distinct (mint 3 0 Initiator) \<and>
   set (mint 3 0 Initiator) \<inter> set (mint 4 0 Acceptor) = {}"
  using minted_addresses_unique [of 3 0 Initiator Acceptor 4 0] by simp

end
