(* ===== verification/Native_Table.thy ===== *)
theory Native_Table
  imports Status_Code Transition "HOL-Library.AList"
begin

text \<open>
  The table of published native objects of \<open>rsbinder/src/process_state.rs\<close>
  (\<open>PublishedNative\<close>, \<open>publish_native\<close> .. \<open>remove_entry_if_zero\<close>). The \<open>HashMap\<close> is an
  association list; an \<open>Arc<dyn IBinder>\<close> is the number that \<open>Arc::ptr_eq\<close> compares. The
  two lock regions of \<open>decref_publish\<close> and \<open>deref_native_kernel\<close> are separate functions,
  so that the step relation can interleave other threads between them.
\<close>

section \<open>Definitions\<close>

type_synonym arc = nat

record PublishedNative =
  binder_pin :: arc
  publish_count :: nat
  kernel_refs :: nat
  pending_reservations :: nat

record native_state =
  published_natives :: "(u64 \<times> PublishedNative) list"
  next_native_id :: u64

definition native_init :: native_state where
  "native_init = \<lparr>published_natives = [], next_native_id = 1\<rparr>"

definition put_native :: "u64 \<Rightarrow> PublishedNative \<Rightarrow> native_state \<Rightarrow> native_state" where
  "put_native nid e s = s\<lparr>published_natives := AList.update nid e (published_natives s)\<rparr>"

definition get_native :: "native_state \<Rightarrow> u64 \<Rightarrow> PublishedNative option" where
  "get_native s nid = map_of (published_natives s) nid"

definition u32_saturating_add :: "nat \<Rightarrow> nat \<Rightarrow> nat" where
  "u32_saturating_add a b = min u32_max (a + b)"

definition u32_wrapping_add :: "nat \<Rightarrow> nat \<Rightarrow> nat" where
  "u32_wrapping_add a b = (a + b) mod 2 ^ 32"

definition publish_native :: "arc \<Rightarrow> native_state \<Rightarrow> u64 \<times> native_state" where
  "publish_native arc s =
    (case find (\<lambda>(_, e). binder_pin e = arc) (published_natives s) of
       Some (existing_id, e) \<Rightarrow>
         (existing_id, put_native existing_id
            (e\<lparr>pending_reservations := u32_saturating_add (pending_reservations e) 1\<rparr>) s)
     | None \<Rightarrow>
         (let nid = next_native_id s in
          (nid, put_native nid
             \<lparr>binder_pin = arc, publish_count = 0, kernel_refs = 0, pending_reservations = 0\<rparr>
             (s\<lparr>next_native_id := nid + 1\<rparr>))))"

definition incref_publish :: "u64 \<Rightarrow> native_state \<Rightarrow> bool \<times> native_state" where
  "incref_publish nid s =
    (case get_native s nid of
       Some e \<Rightarrow>
         (True, put_native nid
            (e\<lparr>publish_count := u32_wrapping_add (publish_count e) 1,
               pending_reservations := pending_reservations e - 1\<rparr>) s)
     | None \<Rightarrow> (False, s))"

definition entry_is_zero :: "PublishedNative \<Rightarrow> bool" where
  "entry_is_zero e \<longleftrightarrow> publish_count e = 0 \<and> kernel_refs e = 0 \<and> pending_reservations e = 0"

definition remove_entry_if_zero :: "u64 \<Rightarrow> native_state \<Rightarrow> native_state" where
  "remove_entry_if_zero nid s =
    (case get_native s nid of
       Some e \<Rightarrow> (if entry_is_zero e
                  then s\<lparr>published_natives := AList.delete nid (published_natives s)\<rparr> else s)
     | None \<Rightarrow> s)"

text \<open>The first lock region of \<open>decref_publish\<close>: \<open>None\<close> is the early \<open>return false\<close>, \<open>Some t\<close>
  carries \<open>trigger_remove\<close>.\<close>

definition decref_publish_locked :: "u64 \<Rightarrow> native_state \<Rightarrow> bool option \<times> native_state" where
  "decref_publish_locked nid s =
    (case get_native s nid of
       Some e \<Rightarrow>
         (let e' = e\<lparr>publish_count := publish_count e - 1\<rparr>
          in (Some (entry_is_zero e'), put_native nid e' s))
     | None \<Rightarrow> (None, s))"

definition decref_publish :: "u64 \<Rightarrow> native_state \<Rightarrow> bool \<times> native_state" where
  "decref_publish nid s =
    (case decref_publish_locked nid s of
       (None, s') \<Rightarrow> (False, s')
     | (Some trigger_remove, s') \<Rightarrow>
         (True, if trigger_remove then remove_entry_if_zero nid s' else s'))"

definition ref_native_kernel :: "u64 \<Rightarrow> native_state \<Rightarrow> arc option \<times> native_state" where
  "ref_native_kernel nid s =
    (case get_native s nid of
       Some e \<Rightarrow>
         (Some (binder_pin e),
          put_native nid (e\<lparr>kernel_refs := u32_wrapping_add (kernel_refs e) 1\<rparr>) s)
     | None \<Rightarrow> (None, s))"

definition deref_native_kernel_locked ::
    "u64 \<Rightarrow> native_state \<Rightarrow> (arc \<times> bool) option \<times> native_state" where
  "deref_native_kernel_locked nid s =
    (case get_native s nid of
       Some e \<Rightarrow>
         (let e' = e\<lparr>kernel_refs := kernel_refs e - 1\<rparr>
          in (Some (binder_pin e, entry_is_zero e'), put_native nid e' s))
     | None \<Rightarrow> (None, s))"

definition deref_native_kernel :: "u64 \<Rightarrow> native_state \<Rightarrow> arc option \<times> native_state" where
  "deref_native_kernel nid s =
    (case deref_native_kernel_locked nid s of
       (None, s') \<Rightarrow> (None, s')
     | (Some (arc, trigger), s') \<Rightarrow>
         (Some arc, if trigger then remove_entry_if_zero nid s' else s'))"

definition lookup_native :: "u64 \<Rightarrow> native_state \<Rightarrow> arc option" where
  "lookup_native nid s = map_option binder_pin (get_native s nid)"

subsection \<open>Threads interleaved at lock regions\<close>

text \<open>Besides the table, the machine remembers what its clients hold: \<open>live\<close>, the parcel
  objects acquired and not released; \<open>stale\<close>, the parcel objects whose \<open>acquire\<close> came when the
  entry of the id it was given had already been removed (\<open>flat_binder_object::acquire\<close> logs the
  \<open>false\<close> of \<open>incref_publish\<close> and returns \<open>Ok\<close>, so the object stays in the parcel);
  \<open>krefs\<close>, the kernel's references that found their entry less those given back; \<open>owner\<close>,
  what each id was published for; and the removals whose first lock region has run and whose
  second has not. Every call is a step whether or not it finds its entry; a parcel object and the
  kernel name only ids that \<open>publish_native\<close> has handed out, and the 32-bit counters and the
  64-bit id counter are taken not to overflow.\<close>

record native_sys =
  tab :: native_state
  live :: "u64 \<Rightarrow> nat"
  stale :: "u64 \<Rightarrow> nat"
  krefs :: "u64 \<Rightarrow> int"
  owner :: "u64 \<Rightarrow> arc option"
  removing :: "u64 list"

definition native_sys_init :: "native_sys \<Rightarrow> bool" where
  "native_sys_init \<sigma> \<longleftrightarrow>
    \<sigma> = \<lparr>tab = native_init, live = (\<lambda>_. 0), stale = (\<lambda>_. 0), krefs = (\<lambda>_. 0), owner = (\<lambda>_. None), removing = []\<rparr>"

inductive native_step :: "native_sys \<Rightarrow> native_sys \<Rightarrow> bool" where
  publish: "publish_native arc (tab \<sigma>) = (nid, s') \<Longrightarrow> unat (next_native_id (tab \<sigma>)) < 2 ^ 64 - 1 \<Longrightarrow>
    native_step \<sigma> (\<sigma>\<lparr>tab := s', owner := (owner \<sigma>)(nid := Some arc)\<rparr>)"
| acquire: "owner \<sigma> nid \<noteq> None \<Longrightarrow> incref_publish nid (tab \<sigma>) = (ok, s') \<Longrightarrow> live \<sigma> nid < u32_max \<Longrightarrow>
    native_step \<sigma> (if ok then \<sigma>\<lparr>tab := s', live := (live \<sigma>)(nid := live \<sigma> nid + 1)\<rparr>
      else \<sigma>\<lparr>tab := s', stale := (stale \<sigma>)(nid := stale \<sigma> nid + 1)\<rparr>)"
| release: "0 < live \<sigma> nid \<Longrightarrow> decref_publish_locked nid (tab \<sigma>) = (r, s') \<Longrightarrow>
    native_step \<sigma> (\<sigma>\<lparr>tab := s', live := (live \<sigma>)(nid := live \<sigma> nid - 1),
      removing := (if r = Some True then nid # removing \<sigma> else removing \<sigma>)\<rparr>)"
| release_stale: "0 < stale \<sigma> nid \<Longrightarrow> decref_publish_locked nid (tab \<sigma>) = (r, s') \<Longrightarrow>
    native_step \<sigma> (\<sigma>\<lparr>tab := s', stale := (stale \<sigma>)(nid := stale \<sigma> nid - 1),
      removing := (if r = Some True then nid # removing \<sigma> else removing \<sigma>)\<rparr>)"
| kernel_ref: "owner \<sigma> nid \<noteq> None \<Longrightarrow> ref_native_kernel nid (tab \<sigma>) = (r, s') \<Longrightarrow>
    (\<And>e. get_native (tab \<sigma>) nid = Some e \<Longrightarrow> kernel_refs e < u32_max) \<Longrightarrow>
    native_step \<sigma> (\<sigma>\<lparr>tab := s', krefs := (if r = None then krefs \<sigma> else (krefs \<sigma>)(nid := krefs \<sigma> nid + 1))\<rparr>)"
| kernel_deref: "owner \<sigma> nid \<noteq> None \<Longrightarrow> deref_native_kernel_locked nid (tab \<sigma>) = (r, s') \<Longrightarrow>
    native_step \<sigma> (\<sigma>\<lparr>tab := s', krefs := (if r = None then krefs \<sigma> else (krefs \<sigma>)(nid := krefs \<sigma> nid - 1)),
      removing := (case r of Some (_, True) \<Rightarrow> nid # removing \<sigma> | _ \<Rightarrow> removing \<sigma>)\<rparr>)"
| remove: "nid \<in> set (removing \<sigma>) \<Longrightarrow>
    native_step \<sigma> (\<sigma>\<lparr>tab := remove_entry_if_zero nid (tab \<sigma>), removing := remove1 nid (removing \<sigma>)\<rparr>)"

text \<open>The inductive invariant: the shape of the table, and for each id what its entry (or its
  absence) says about the references the clients hold.\<close>

definition native_wf :: "native_state \<Rightarrow> bool" where
  "native_wf s \<longleftrightarrow>
     distinct (map fst (published_natives s)) \<and> 0 < unat (next_native_id s) \<and>
     (\<forall>i j d e. get_native s i = Some d \<longrightarrow> get_native s j = Some e \<longrightarrow> binder_pin d = binder_pin e \<longrightarrow> i = j) \<and>
     (\<forall>i e. get_native s i = Some e \<longrightarrow> 0 < unat i \<and> unat i < unat (next_native_id s))"

definition refs_ok :: "native_sys \<Rightarrow> u64 \<Rightarrow> bool" where
  "refs_ok \<sigma> nid \<longleftrightarrow>
    (case get_native (tab \<sigma>) nid of
       Some e \<Rightarrow> publish_count e = live \<sigma> nid \<and> publish_count e \<le> u32_max \<and>
         krefs \<sigma> nid \<le> int (kernel_refs e) \<and> kernel_refs e \<le> u32_max \<and>
         owner \<sigma> nid = Some (binder_pin e) \<and> stale \<sigma> nid = 0
     | None \<Rightarrow> live \<sigma> nid = 0 \<and> krefs \<sigma> nid \<le> 0) \<and>
    (owner \<sigma> nid = None \<longrightarrow> stale \<sigma> nid = 0) \<and>
    (owner \<sigma> nid \<noteq> None \<longrightarrow> unat nid < unat (next_native_id (tab \<sigma>)))"

definition native_inv :: "native_sys \<Rightarrow> bool" where
  "native_inv \<sigma> \<longleftrightarrow> native_wf (tab \<sigma>) \<and> (\<forall>nid. refs_ok \<sigma> nid)"

section \<open>Lemmas\<close>

lemma get_put_native [simp]:
  "get_native (put_native nid e s) = (get_native s)(nid \<mapsto> e)"
  by (rule ext) (simp add: get_native_def put_native_def update_conv')

lemma get_native_next [simp]: "get_native (s\<lparr>next_native_id := n\<rparr>) = get_native s"
  by (rule ext) (simp add: get_native_def)

lemma next_put_native [simp]: "next_native_id (put_native nid e s) = next_native_id s"
  by (simp add: put_native_def)

lemma distinct_put_native [simp]:
  "distinct (map fst (published_natives s)) \<Longrightarrow>
    distinct (map fst (published_natives (put_native nid e s)))"
  by (simp add: put_native_def distinct_update)

lemma get_remove_entry:
  "get_native (remove_entry_if_zero nid s) =
    (case get_native s nid of Some e \<Rightarrow> if entry_is_zero e then (get_native s)(nid := None)
       else get_native s | None \<Rightarrow> get_native s)"
  by (auto simp: remove_entry_if_zero_def get_native_def [abs_def] delete_conv' split: option.splits)

lemma next_remove_entry [simp]:
  "next_native_id (remove_entry_if_zero nid s) = next_native_id s"
  by (simp add: remove_entry_if_zero_def split: option.split)

lemma distinct_remove_entry [simp]:
  "distinct (map fst (published_natives s)) \<Longrightarrow>
    distinct (map fst (published_natives (remove_entry_if_zero nid s)))"
  by (simp add: remove_entry_if_zero_def distinct_delete split: option.split)

lemma find_native_None:
  "find (\<lambda>(_, e). binder_pin e = arc) (published_natives s) = None \<Longrightarrow>
    get_native s nid = Some e \<Longrightarrow> binder_pin e \<noteq> arc"
  by (auto simp: find_None_iff get_native_def dest: map_of_SomeD)

lemma find_native_Some:
  assumes "find (\<lambda>(_, e). binder_pin e = arc) (published_natives s) = Some (nid, e)"
    and "distinct (map fst (published_natives s))"
  shows "get_native s nid = Some e \<and> binder_pin e = arc"
  using assms by (auto simp: find_Some_iff get_native_def in_set_conv_nth)

lemma native_wfD:
  assumes "native_wf s"
  shows "distinct (map fst (published_natives s))"
    and "get_native s i = Some d \<Longrightarrow> get_native s j = Some e \<Longrightarrow> binder_pin d = binder_pin e \<Longrightarrow> i = j"
    and "get_native s i = Some e \<Longrightarrow> 0 < unat i \<and> unat i < unat (next_native_id s)"
    and "0 < unat (next_native_id s)"
  using assms unfolding native_wf_def by blast+

lemma native_wf_put:
  assumes "native_wf s" and "get_native s nid = Some d" and "binder_pin e = binder_pin d"
  shows "native_wf (put_native nid e s)"
  using native_wfD [OF assms(1)] assms(2,3) unfolding native_wf_def
  by (auto split: if_splits)

lemma native_wf_remove: "native_wf s \<Longrightarrow> native_wf (remove_entry_if_zero nid s)"
  unfolding native_wf_def
  by (auto simp: get_remove_entry split: option.splits if_splits)

lemma native_wf_fresh:
  assumes wf: "native_wf s" and new: "\<And>i e. get_native s i = Some e \<Longrightarrow> binder_pin e \<noteq> binder_pin d"
    and room: "unat (next_native_id s) < 2 ^ 64 - 1"
  shows "native_wf (put_native (next_native_id s) d (s\<lparr>next_native_id := next_native_id s + 1\<rparr>))"
proof -
  have n: "unat (next_native_id s + 1) = unat (next_native_id s) + 1"
    using room by (subst unat_word_ariths) simp
  show ?thesis
    using native_wfD [OF wf] new not_sym [OF new] unfolding native_wf_def
    by (auto simp: n less_Suc_eq split: if_splits)
qed

lemma native_wf_publish:
  assumes "native_wf s" "publish_native arc s = (nid, s')" "unat (next_native_id s) < 2 ^ 64 - 1"
  shows "native_wf s'"
proof (cases "find (\<lambda>(_, e). binder_pin e = arc) (published_natives s)")
  case None
  then have s': "s' = put_native (next_native_id s)
      \<lparr>binder_pin = arc, publish_count = 0, kernel_refs = 0, pending_reservations = 0\<rparr>
      (s\<lparr>next_native_id := next_native_id s + 1\<rparr>)"
    using assms(2) by (auto simp: publish_native_def Let_def)
  show ?thesis
    unfolding s' by (rule native_wf_fresh [OF assms(1) _ assms(3)])
      (use find_native_None [OF None] in simp)
next
  case (Some p)
  obtain i e where p: "p = (i, e)" by (cases p)
  then have e: "get_native s i = Some e"
    using find_native_Some [OF Some [unfolded p]] native_wfD(1) [OF assms(1)] by simp
  show ?thesis
    using assms(2) Some p native_wf_put [OF assms(1) e]
    by (auto simp: publish_native_def)
qed

lemma refs_ok_other:
  assumes "refs_ok \<sigma> i" "get_native (tab \<tau>) i = get_native (tab \<sigma>) i" "live \<tau> i = live \<sigma> i"
    "stale \<tau> i = stale \<sigma> i" "krefs \<tau> i = krefs \<sigma> i" "owner \<tau> i = owner \<sigma> i"
    "unat (next_native_id (tab \<sigma>)) \<le> unat (next_native_id (tab \<tau>))"
  shows "refs_ok \<tau> i"
  using assms unfolding refs_ok_def by (auto split: option.splits)

lemma publish_native_get:
  assumes "native_wf s" "publish_native arc s = (nid, s')"
  shows "\<exists>e. get_native s' = (get_native s)(nid \<mapsto> e) \<and> binder_pin e = arc \<and>
    (case get_native s nid of
       Some d \<Rightarrow> binder_pin d = arc \<and> publish_count e = publish_count d \<and> kernel_refs e = kernel_refs d
     | None \<Rightarrow> publish_count e = 0 \<and> kernel_refs e = 0)"
proof (cases "find (\<lambda>(_, e). binder_pin e = arc) (published_natives s)")
  case None
  have "get_native s (next_native_id s) = None"
    using native_wfD(3) [OF assms(1), of "next_native_id s"]
    by (cases "get_native s (next_native_id s)") auto
  with None show ?thesis using assms(2) by (auto simp: publish_native_def Let_def)
next
  case (Some p)
  obtain i e where p: "p = (i, e)" by (cases p)
  then have e: "get_native s i = Some e" "binder_pin e = arc"
    using find_native_Some [OF Some [unfolded p]] native_wfD(1) [OF assms(1)] by simp_all
  show ?thesis
    using assms(2) Some p e by (auto simp: publish_native_def)
qed

lemma publish_native_next:
  assumes "publish_native arc s = (nid, s')" "unat (next_native_id s) < 2 ^ 64 - 1"
  shows "unat (next_native_id s) \<le> unat (next_native_id s')"
proof -
  have "unat (next_native_id s + 1) = unat (next_native_id s) + 1"
    using assms(2) by (subst unat_word_ariths) simp
  then show ?thesis
    using assms(1) by (auto simp: publish_native_def Let_def split: option.splits prod.splits)
qed

lemma publish_native_fresh:
  assumes "native_wf s" "publish_native arc s = (nid, s')" "get_native s nid = None"
  shows "nid = next_native_id s"
proof (cases "find (\<lambda>(_, e). binder_pin e = arc) (published_natives s)")
  case None
  then show ?thesis using assms(2) by (simp add: publish_native_def Let_def)
next
  case (Some p)
  obtain i e where p: "p = (i, e)" by (cases p)
  then have "get_native s i = Some e"
    using find_native_Some [OF Some [unfolded p]] native_wfD(1) [OF assms(1)] by simp
  then show ?thesis using assms(2,3) Some p by (auto simp: publish_native_def)
qed

lemma native_inv_init: "native_sys_init \<sigma> \<Longrightarrow> native_inv \<sigma>"
  by (auto simp: native_sys_init_def native_inv_def native_wf_def refs_ok_def native_init_def
      get_native_def)

lemma refs_okD:
  assumes "native_inv \<sigma>" "get_native (tab \<sigma>) nid = Some e"
  shows "publish_count e = live \<sigma> nid" "publish_count e \<le> u32_max"
    "krefs \<sigma> nid \<le> int (kernel_refs e)" "kernel_refs e \<le> u32_max" "owner \<sigma> nid = Some (binder_pin e)"
    "stale \<sigma> nid = 0"
proof -
  have "refs_ok \<sigma> nid" using assms(1) by (simp add: native_inv_def)
  then show "publish_count e = live \<sigma> nid" "publish_count e \<le> u32_max"
    "krefs \<sigma> nid \<le> int (kernel_refs e)" "kernel_refs e \<le> u32_max" "owner \<sigma> nid = Some (binder_pin e)"
    "stale \<sigma> nid = 0"
    using assms(2) by (simp_all add: refs_ok_def)
qed

lemma refs_ok_gone:
  assumes "native_inv \<sigma>" "get_native (tab \<sigma>) nid = None"
  shows "live \<sigma> nid = 0" "krefs \<sigma> nid \<le> 0"
proof -
  have "refs_ok \<sigma> nid" using assms(1) by (simp add: native_inv_def)
  then show "live \<sigma> nid = 0" "krefs \<sigma> nid \<le> 0" using assms(2) by (simp_all add: refs_ok_def)
qed

lemma native_inv_put:
  assumes inv: "native_inv \<sigma>" and e: "get_native (tab \<sigma>) nid = Some e" and pin: "binder_pin e' = binder_pin e"
    and t: "tab \<tau> = put_native nid e' (tab \<sigma>)" "owner \<tau> = owner \<sigma>" "stale \<tau> = stale \<sigma>"
    and frame: "\<And>i. i \<noteq> nid \<Longrightarrow> live \<tau> i = live \<sigma> i \<and> krefs \<tau> i = krefs \<sigma> i"
    and here: "publish_count e' = live \<tau> nid" "publish_count e' \<le> u32_max"
      "krefs \<tau> nid \<le> int (kernel_refs e')" "kernel_refs e' \<le> u32_max"
  shows "native_inv \<tau>"
proof -
  have all: "refs_ok \<sigma> i" for i using inv by (simp add: native_inv_def)
  have "refs_ok \<tau> i" for i
  proof (cases "i = nid")
    case True
    then show ?thesis using here t pin refs_okD(5,6) [OF inv e] all [of nid] by (simp add: refs_ok_def)
  next
    case False
    show ?thesis
      by (rule refs_ok_other [OF all]) (use t frame [OF False] False in simp_all)
  qed
  then show ?thesis
    using inv t native_wf_put [OF _ e pin] by (simp add: native_inv_def)
qed

text \<open>A call that misses its entry leaves the table alone; only the stale objects of its id may
  have changed.\<close>

lemma native_inv_miss:
  assumes inv: "native_inv \<sigma>" and gone: "get_native (tab \<sigma>) nid = None" and issued: "owner \<sigma> nid \<noteq> None"
    and t: "tab \<tau> = tab \<sigma>" "owner \<tau> = owner \<sigma>" "live \<tau> = live \<sigma>" "krefs \<tau> = krefs \<sigma>"
    and frame: "\<And>i. i \<noteq> nid \<Longrightarrow> stale \<tau> i = stale \<sigma> i"
  shows "native_inv \<tau>"
proof -
  have all: "refs_ok \<sigma> i" for i using inv by (simp add: native_inv_def)
  have "refs_ok \<tau> i" for i
  proof (cases "i = nid")
    case True
    then show ?thesis using all [of nid] gone issued t by (auto simp: refs_ok_def)
  next
    case False
    show ?thesis by (rule refs_ok_other [OF all]) (use t frame [OF False] in simp_all)
  qed
  then show ?thesis using inv t by (simp add: native_inv_def)
qed

lemma native_inv_remove:
  assumes inv: "native_inv \<sigma>"
  shows "native_inv (\<sigma>\<lparr>tab := remove_entry_if_zero nid (tab \<sigma>), removing := r\<rparr>)" (is "native_inv ?\<tau>")
proof -
  have "refs_ok ?\<tau> i" for i
  proof -
    have "refs_ok \<sigma> i" using inv by (simp add: native_inv_def)
    then show ?thesis
      by (auto simp: refs_ok_def get_remove_entry entry_is_zero_def split: option.splits if_splits)
  qed
  then show ?thesis using inv native_wf_remove by (simp add: native_inv_def)
qed

lemma native_inv_publish:
  assumes inv: "native_inv \<sigma>" and pub: "publish_native arc (tab \<sigma>) = (nid, s')"
    and room: "unat (next_native_id (tab \<sigma>)) < 2 ^ 64 - 1"
  shows "native_inv (\<sigma>\<lparr>tab := s', owner := (owner \<sigma>)(nid := Some arc)\<rparr>)" (is "native_inv ?\<tau>")
proof -
  have wf: "native_wf (tab \<sigma>)" and all: "refs_ok \<sigma> i" for i using inv by (simp_all add: native_inv_def)
  obtain e where e: "get_native s' = (get_native (tab \<sigma>))(nid \<mapsto> e)" "binder_pin e = arc"
    "case get_native (tab \<sigma>) nid of
       Some d \<Rightarrow> binder_pin d = arc \<and> publish_count e = publish_count d \<and> kernel_refs e = kernel_refs d
     | None \<Rightarrow> publish_count e = 0 \<and> kernel_refs e = 0"
    using publish_native_get [OF wf pub] by blast
  have next_le: "unat (next_native_id (tab \<sigma>)) \<le> unat (next_native_id s')"
    using publish_native_next [OF pub room] .
  have "refs_ok ?\<tau> i" for i
  proof (cases "i = nid")
    case True
    have bound: "unat nid < unat (next_native_id s')"
      using native_wfD(3) [OF native_wf_publish [OF wf pub room], of nid e] e(1) by simp
    have "stale \<sigma> nid = 0"
    proof (cases "get_native (tab \<sigma>) nid")
      case None
      have "nid = next_native_id (tab \<sigma>)" using publish_native_fresh [OF wf pub None] .
      then have "owner \<sigma> nid = None" using all [of nid] by (auto simp: refs_ok_def)
      then show ?thesis using all [of nid] by (simp add: refs_ok_def)
    next
      case (Some d)
      then show ?thesis using refs_okD(6) [OF inv] by blast
    qed
    then show ?thesis
      using e True bound all [of nid] by (auto simp: refs_ok_def split: option.splits)
  next
    case False
    show ?thesis by (rule refs_ok_other [OF all]) (use e False next_le in simp_all)
  qed
  then show ?thesis
    using native_wf_publish [OF wf pub room] by (simp add: native_inv_def)
qed

lemma native_inv_acquire:
  assumes inv: "native_inv \<sigma>" and issued: "owner \<sigma> nid \<noteq> None"
    and acq: "incref_publish nid (tab \<sigma>) = (ok, s')" and room: "live \<sigma> nid < u32_max"
  shows "native_inv (if ok then \<sigma>\<lparr>tab := s', live := (live \<sigma>)(nid := live \<sigma> nid + 1)\<rparr>
    else \<sigma>\<lparr>tab := s', stale := (stale \<sigma>)(nid := stale \<sigma> nid + 1)\<rparr>)"
proof (cases "get_native (tab \<sigma>) nid")
  case None
  show ?thesis
    by (rule native_inv_miss [OF inv None issued])
      (use None acq in \<open>auto simp: incref_publish_def\<close>)
next
  case (Some e)
  show ?thesis
    by (rule native_inv_put [OF inv Some, where e' = "e\<lparr>publish_count := publish_count e + 1,
          pending_reservations := pending_reservations e - 1\<rparr>"])
      (use acq room Some refs_okD [OF inv Some] in
        \<open>auto simp: incref_publish_def u32_wrapping_add_def\<close>)
qed

lemma native_inv_release:
  assumes inv: "native_inv \<sigma>" and rel: "decref_publish_locked nid (tab \<sigma>) = (r, s')" and held: "0 < live \<sigma> nid"
  shows "native_inv (\<sigma>\<lparr>tab := s', live := (live \<sigma>)(nid := live \<sigma> nid - 1), removing := q\<rparr>)"
proof (cases "get_native (tab \<sigma>) nid")
  case None
  then show ?thesis using held refs_ok_gone(1) [OF inv] by simp
next
  case (Some e)
  show ?thesis
    by (rule native_inv_put [OF inv Some, where e' = "e\<lparr>publish_count := publish_count e - 1\<rparr>"])
      (use rel Some refs_okD [OF inv Some] in \<open>auto simp: decref_publish_locked_def Let_def\<close>)
qed

lemma stale_gone:
  assumes "native_inv \<sigma>" and "0 < stale \<sigma> nid"
  shows "get_native (tab \<sigma>) nid = None" "owner \<sigma> nid \<noteq> None"
proof -
  show "get_native (tab \<sigma>) nid = None"
    using refs_okD(6) [OF assms(1)] assms(2) by (cases "get_native (tab \<sigma>) nid") auto
  have "refs_ok \<sigma> nid" using assms(1) by (simp add: native_inv_def)
  then show "owner \<sigma> nid \<noteq> None" using assms(2) by (auto simp: refs_ok_def)
qed

lemma native_inv_step:
  assumes "native_inv \<sigma>" "native_step \<sigma> \<tau>"
  shows "native_inv \<tau>"
  using assms(2)
proof cases
  case (publish arc nid s')
  then show ?thesis using native_inv_publish [OF assms(1)] by simp
next
  case (acquire nid ok s')
  show ?thesis unfolding acquire(1) by (rule native_inv_acquire [OF assms(1) acquire(2-4)])
next
  case (release nid r s')
  show ?thesis unfolding release(1) by (rule native_inv_release [OF assms(1) release(3,2)])
next
  case (release_stale nid r s')
  note gone = stale_gone [OF assms(1) release_stale(2)]
  show ?thesis
    by (rule native_inv_miss [OF assms(1) gone])
      (use release_stale gone in \<open>auto simp: decref_publish_locked_def\<close>)
next
  case (kernel_ref nid r s')
  show ?thesis
  proof (cases "get_native (tab \<sigma>) nid")
    case None
    show ?thesis
      by (rule native_inv_miss [OF assms(1) None kernel_ref(2)])
        (use None kernel_ref in \<open>auto simp: ref_native_kernel_def\<close>)
  next
    case (Some e)
    show ?thesis
      by (rule native_inv_put [OF assms(1) Some, where e' = "e\<lparr>kernel_refs := kernel_refs e + 1\<rparr>"])
        (use kernel_ref(1-3) kernel_ref(4) [OF Some] Some refs_okD [OF assms(1) Some] in
          \<open>auto simp: ref_native_kernel_def u32_wrapping_add_def\<close>)
  qed
next
  case (kernel_deref nid r s')
  show ?thesis
  proof (cases "get_native (tab \<sigma>) nid")
    case None
    show ?thesis
      by (rule native_inv_miss [OF assms(1) None kernel_deref(2)])
        (use None kernel_deref in \<open>auto simp: deref_native_kernel_locked_def\<close>)
  next
    case (Some e)
    show ?thesis
      by (rule native_inv_put [OF assms(1) Some, where e' = "e\<lparr>kernel_refs := kernel_refs e - 1\<rparr>"])
        (use kernel_deref Some refs_okD [OF assms(1) Some] in
          \<open>auto simp: deref_native_kernel_locked_def Let_def\<close>)
  qed
next
  case (remove nid)
  then show ?thesis using native_inv_remove [OF assms(1)] by simp
qed

interpretation native_sys: inductive_invariant native_sys_init native_step native_inv
  by unfold_locales (auto intro: native_inv_init native_inv_step)

section \<open>Properties\<close>

lemma inv_lookup:
  assumes "native_inv \<sigma>" "0 < live \<sigma> nid \<or> 0 < krefs \<sigma> nid"
  shows "\<exists>arc. lookup_native nid (tab \<sigma>) = Some arc \<and> owner \<sigma> nid = Some arc"
proof (cases "get_native (tab \<sigma>) nid")
  case None
  have "refs_ok \<sigma> nid" using assms(1) by (simp add: native_inv_def)
  with None assms(2) show ?thesis by (simp add: refs_ok_def)
next
  case (Some e)
  then show ?thesis using refs_okD(5) [OF assms(1) Some] by (simp add: lookup_native_def)
qed

lemma inv_stale:
  assumes "native_inv \<sigma>" "0 < stale \<sigma> nid"
  shows "lookup_native nid (tab \<sigma>) = None \<and> live \<sigma> nid = 0 \<and> krefs \<sigma> nid \<le> 0 \<and>
    decref_publish nid (tab \<sigma>) = (False, tab \<sigma>)"
  using refs_ok_gone [OF assms(1) stale_gone(1) [OF assms]] stale_gone(1) [OF assms]
  by (simp add: lookup_native_def decref_publish_def decref_publish_locked_def)


definition demo_start :: native_sys where
  "demo_start = \<lparr>tab = native_init, live = (\<lambda>_. 0), stale = (\<lambda>_. 0), krefs = (\<lambda>_. 0),
     owner = (\<lambda>_. None), removing = []\<rparr>"

definition demo_issued :: native_sys where
  "demo_issued = demo_start\<lparr>tab := snd (publish_native 7 native_init), owner := (\<lambda>_. None)(1 := Some 7)\<rparr>"

definition demo_published :: native_sys where
  "demo_published = demo_issued\<lparr>tab := snd (incref_publish 1 (tab demo_issued)), live := (\<lambda>_. 0)(1 := 1)\<rparr>"

text \<open>The late acquire: one thread publishes and has yet to acquire; another acquires the same id
  and releases it, which removes the entry; then the first acquires.\<close>

definition demo_removed :: native_sys where
  "demo_removed = demo_start\<lparr>tab := \<lparr>published_natives = [], next_native_id = 2\<rparr>,
     owner := (\<lambda>_. None)(1 := Some 7)\<rparr>"

definition demo_stale :: native_sys where
  "demo_stale = demo_removed\<lparr>stale := (\<lambda>_. 0)(1 := 1)\<rparr>"

lemmas demo_defs = demo_start_def demo_issued_def demo_published_def demo_removed_def demo_stale_def
  native_init_def publish_native_def incref_publish_def decref_publish_locked_def
  remove_entry_if_zero_def put_native_def get_native_def u32_wrapping_add_def entry_is_zero_def

lemma demo_published_reach: "reach native_sys_init native_step demo_published"
proof -
  have "reach native_sys_init native_step demo_start"
    by (rule reach_init) (simp add: native_sys_init_def demo_start_def)
  moreover have "native_step demo_start demo_issued"
    using native_step.publish [of 7 demo_start 1 "tab demo_issued"] by (simp add: demo_defs Let_def)
  moreover have "native_step demo_issued demo_published"
    using native_step.acquire [of demo_issued 1 True "tab demo_published"] by (simp add: demo_defs Let_def)
  ultimately show ?thesis by (blast intro: reach_step)
qed

lemma demo_stale_reach: "reach native_sys_init native_step demo_stale"
proof -
  let ?released = "demo_published\<lparr>tab := snd (decref_publish_locked 1 (tab demo_published)),
    live := (\<lambda>_. 0), removing := [1]\<rparr>"
  have "native_step demo_published ?released"
    using native_step.release [of demo_published 1 "Some True" "tab ?released"]
    by (simp add: demo_defs Let_def fun_upd_idem)
  moreover have "native_step ?released demo_removed"
    using native_step.remove [of 1 ?released] by (simp add: demo_defs Let_def)
  moreover have "native_step demo_removed demo_stale"
    using native_step.acquire [of demo_removed 1 False "tab demo_removed"] by (simp add: demo_defs)
  ultimately show ?thesis using demo_published_reach by (blast intro: reach_step)
qed


text \<open>Releasing a parcel object drops the table entry exactly when it was the last reference of
  any kind; otherwise the entry stays with one parcel reference less and every other entry is
  untouched.\<close>

theorem decref_publish_last_reference:
  assumes "get_native s nid = Some e"
  shows "fst (decref_publish nid s) \<and>
    get_native (snd (decref_publish nid s)) =
      (if publish_count e \<le> 1 \<and> kernel_refs e = 0 \<and> pending_reservations e = 0
       then (get_native s)(nid := None)
       else (get_native s)(nid \<mapsto> e\<lparr>publish_count := publish_count e - 1\<rparr>))"
  using assms
  by (auto simp: decref_publish_def decref_publish_locked_def Let_def get_remove_entry
      entry_is_zero_def)

theorem decref_publish_last_reference_witness:
  "get_native (snd (decref_publish 1 (tab demo_published))) 1 = None"
  using decref_publish_last_reference [of "tab demo_published" 1 "\<lparr>binder_pin = 7,
      publish_count = 1, kernel_refs = 0, pending_reservations = 0\<rparr>"]
  by (simp add: demo_defs Let_def)

end
