(* ===== verification/Stability.thy ===== *)
theory Stability
  imports Status_Code
begin

text \<open>
  The stability levels of \<open>rsbinder/src/binder.rs\<close>: both wire encodings (the raw level, and the
  category word of SDK 31 and 32), decoding, and the inclusion check.
\<close>

section \<open>Definitions\<close>

datatype Stability = Local | Vendor | System | Vintf

definition BINDER_WIRE_FORMAT_VERSION :: i32 where
  "BINDER_WIRE_FORMAT_VERSION = 1"

definition android12_category_repr :: "i32 \<Rightarrow> i32" where
  "android12_category_repr level = push_bit 24 level OR BINDER_WIRE_FORMAT_VERSION"

fun stability_level :: "Stability \<Rightarrow> i32" where
  "stability_level Local = 0"
| "stability_level Vendor = 0b000011"
| "stability_level System = 0b001100"
| "stability_level Vintf = 0b111111"

text \<open>\<open>From<Stability> for i32\<close>; \<open>sdk\<close> is the SDK version of an Android target, \<open>None\<close> elsewhere.\<close>

definition i32_of_Stability :: "nat option \<Rightarrow> Stability \<Rightarrow> i32" where
  "i32_of_Stability sdk s =
    (case sdk of
       Some v \<Rightarrow> if v = 31 \<or> v = 32 then android12_category_repr (stability_level s) else stability_level s
     | None \<Rightarrow> stability_level s)"

text \<open>\<open>stability >> 24\<close> on an \<open>i32\<close> is arithmetic; the mask keeps its low byte.\<close>

definition Stability_of_i32 :: "i32 \<Rightarrow> Stability result" where
  "Stability_of_i32 stability =
    (let level = (if stability AND NOT 0xFF \<noteq> 0 then signed_drop_bit 24 stability AND 0xFF
                  else if stability = BINDER_WIRE_FORMAT_VERSION then 0 else stability)
     in if level = 0 then Ok Local
        else if level = 0b000011 then Ok Vendor
        else if level = 0b001100 then Ok System
        else if level = 0b111111 then Ok Vintf
        else Err BadValue)"

definition stability_includes :: "nat option \<Rightarrow> Stability \<Rightarrow> Stability \<Rightarrow> bool" where
  "stability_includes sdk self required \<longleftrightarrow>
    i32_of_Stability sdk self AND i32_of_Stability sdk required = i32_of_Stability sdk required"

section \<open>Properties\<close>

lemma category_reprs:
  "android12_category_repr 0 = 1" "android12_category_repr 3 = 0x03000001"
  "android12_category_repr 12 = 0x0C000001" "android12_category_repr 63 = 0x3F000001"
  by (simp_all add: android12_category_repr_def BINDER_WIRE_FORMAT_VERSION_def)

lemma Stability_of_i32_reprs:
  "Stability_of_i32 0 = Ok Local" "Stability_of_i32 3 = Ok Vendor" "Stability_of_i32 12 = Ok System"
  "Stability_of_i32 63 = Ok Vintf" "Stability_of_i32 1 = Ok Local"
  "Stability_of_i32 0x03000001 = Ok Vendor" "Stability_of_i32 0x0C000001 = Ok System"
  "Stability_of_i32 0x3F000001 = Ok Vintf"
  by code_simp+

text \<open>a stability level is understood by every peer: decoding inverts the encoding of every
  platform version, so a level written by an SDK 31 or 32 peer and one written by any other peer
  read the same.\<close>

theorem stability_roundtrip: "Stability_of_i32 (i32_of_Stability sdk s) = Ok s"
  by (cases s) (auto simp: i32_of_Stability_def category_reprs Stability_of_i32_reprs split: option.split)

text \<open>inclusion does not depend on the encoding, and is the intended order: everything includes the
  local level and itself, VINTF includes everything, and vendor and system are independent.\<close>

theorem stability_includes_order:
  "stability_includes sdk a b \<longleftrightarrow> a = b \<or> a = Vintf \<or> b = Local"
proof -
  have "stability_includes None a b \<longleftrightarrow> a = b \<or> a = Vintf \<or> b = Local"
    by (cases a; cases b) (simp_all add: stability_includes_def i32_of_Stability_def)
  moreover have "(android12_category_repr (stability_level a) AND android12_category_repr (stability_level b) =
      android12_category_repr (stability_level b)) \<longleftrightarrow> a = b \<or> a = Vintf \<or> b = Local"
    by (cases a; cases b) (simp_all add: category_reprs)
  ultimately show ?thesis
    by (auto simp: stability_includes_def i32_of_Stability_def split: option.split)
qed

end
