(* ===== verification/Flat_Object.thy ===== *)
theory Flat_Object
  imports Native_Table Stability
begin

text \<open>
  The kernel object record of \<open>rsbinder/src/binder_object.rs\<close>: its 24-byte image, its
  constructors, the flags a flattened object carries, unaligned reads and writes, and the
  \<open>acquire\<close>/\<open>release\<close> pair that keeps the published-native table in step with the objects
  that live in parcels. Debug assertions are off (the release profile).
\<close>

section \<open>Definitions\<close>

definition BINDER_TYPE_BINDER :: u32 where "BINDER_TYPE_BINDER = 1935813253"
definition BINDER_TYPE_HANDLE :: u32 where "BINDER_TYPE_HANDLE = 1936206469"
definition BINDER_TYPE_FD :: u32 where "BINDER_TYPE_FD = 1717840517"

text \<open>The \<open>binder\<close>/\<open>handle\<close> union is its eight bytes; the handle is the low half.\<close>

record flat_binder_object =
  hdr_type :: u32
  fbo_flags :: u32
  fbo_binder :: u64
  cookie :: u64

definition flat_default :: flat_binder_object where
  "flat_default = \<lparr>hdr_type = BINDER_TYPE_BINDER, fbo_flags = 0, fbo_binder = 0, cookie = 0\<rparr>"

definition new_with_fd :: "i32 \<Rightarrow> bool \<Rightarrow> flat_binder_object" where
  "new_with_fd fd take_ownership =
    \<lparr>hdr_type = BINDER_TYPE_FD, fbo_flags = 0, fbo_binder = ucast fd,
     cookie = (if take_ownership then 1 else 0)\<rparr>"

definition new_binder_with_flags :: "u32 \<Rightarrow> flat_binder_object" where
  "new_binder_with_flags flags =
    \<lparr>hdr_type = BINDER_TYPE_BINDER, fbo_flags = flags, fbo_binder = 0, cookie = 0\<rparr>"

definition new_handle :: "u32 \<Rightarrow> u32 \<Rightarrow> flat_binder_object" where
  "new_handle handle flags =
    \<lparr>hdr_type = BINDER_TYPE_HANDLE, fbo_flags = flags, fbo_binder = ucast handle, cookie = 0\<rparr>"

definition fbo_handle :: "flat_binder_object \<Rightarrow> u32" where
  "fbo_handle obj = ucast (fbo_binder obj)"

definition fbo_pointer :: "flat_binder_object \<Rightarrow> u64" where
  "fbo_pointer obj = fbo_binder obj"

text \<open>Writing the 32-bit member of the union leaves the upper half of the eight bytes alone.\<close>

definition set_handle :: "u32 \<Rightarrow> flat_binder_object \<Rightarrow> flat_binder_object" where
  "set_handle h obj =
    obj\<lparr>fbo_binder := of_le_bytes (le_bytes h @ drop 4 (le_bytes (fbo_binder obj)))\<rparr>"

definition set_cookie :: "u64 \<Rightarrow> flat_binder_object \<Rightarrow> flat_binder_object" where
  "set_cookie c obj = obj\<lparr>cookie := c\<rparr>"

definition FLAT_BINDER_FLAG_PRIORITY_MASK :: u32 where
  "FLAT_BINDER_FLAG_PRIORITY_MASK = 255"
definition FLAT_BINDER_FLAG_SCHED_POLICY_SHIFT :: nat where
  "FLAT_BINDER_FLAG_SCHED_POLICY_SHIFT = 9"
definition FLAT_BINDER_FLAG_SCHED_POLICY_VALUE_MASK :: u32 where
  "FLAT_BINDER_FLAG_SCHED_POLICY_VALUE_MASK = 3"
definition SCHED_NORMAL :: u32 where
  "SCHED_NORMAL = 0"

definition sched_policy_mask :: "u32 \<Rightarrow> u32 \<Rightarrow> u32" where
  "sched_policy_mask policy priority =
    (priority AND FLAT_BINDER_FLAG_PRIORITY_MASK)
      OR push_bit FLAT_BINDER_FLAG_SCHED_POLICY_SHIFT
           (policy AND FLAT_BINDER_FLAG_SCHED_POLICY_VALUE_MASK)"

text \<open>What flattening needs of an \<open>SIBinder\<close>: a kernel proxy shows its handle, a native object
  its \<open>Arc\<close> and \<open>local_binder_flags()\<close>.\<close>

datatype SIBinder = ProxyBinder (proxy_handle: u32) | NativeBinder (native_arc: arc) (local_binder_flags: u32)

definition sched_mask :: u32 where
  "sched_mask = FLAT_BINDER_FLAG_PRIORITY_MASK
     OR push_bit FLAT_BINDER_FLAG_SCHED_POLICY_SHIFT FLAT_BINDER_FLAG_SCHED_POLICY_VALUE_MASK"

definition flat_of_SIBinder ::
    "bool \<Rightarrow> SIBinder \<Rightarrow> native_state \<Rightarrow> flat_binder_object \<times> native_state" where
  "flat_of_SIBinder background_scheduling_disabled b s =
    (let sched_bits = (if \<not> background_scheduling_disabled then sched_policy_mask SCHED_NORMAL 19 else 0)
     in case b of
       ProxyBinder handle \<Rightarrow> (new_handle handle sched_bits, s)
     | NativeBinder arc local \<Rightarrow>
         (let (nid, s') = publish_native arc s;
              effective_sched = (if local AND sched_mask \<noteq> 0 then local AND sched_mask else sched_bits)
          in (\<lparr>hdr_type = BINDER_TYPE_BINDER, fbo_flags = (local AND NOT sched_mask) OR effective_sched,
               fbo_binder = nid, cookie = 0\<rparr>, s')))"

text \<open>The \<open>repr(C)\<close> image of the struct.\<close>

definition FLAT_SIZE :: nat where
  "FLAT_SIZE = 24"

definition flat_bytes :: "flat_binder_object \<Rightarrow> byte list" where
  "flat_bytes obj =
    le_bytes (hdr_type obj) @ le_bytes (fbo_flags obj) @ le_bytes (fbo_binder obj) @ le_bytes (cookie obj)"

definition flat_of_bytes :: "byte list \<Rightarrow> flat_binder_object" where
  "flat_of_bytes bs =
    \<lparr>hdr_type = of_le_bytes (take 4 bs), fbo_flags = of_le_bytes (take 4 (drop 4 bs)),
     fbo_binder = of_le_bytes (take 8 (drop 8 bs)), cookie = of_le_bytes (take 8 (drop 16 bs))\<rparr>"

definition read_flat_binder :: "byte list \<Rightarrow> nat \<Rightarrow> flat_binder_object result" where
  "read_flat_binder data offset =
    (case slice_get data offset (offset + FLAT_SIZE) of
       Some bytes \<Rightarrow> Ok (flat_of_bytes bytes)
     | None \<Rightarrow> Err NotEnoughData)"

definition write_flat_binder ::
    "byte list \<Rightarrow> nat \<Rightarrow> flat_binder_object \<Rightarrow> unit result \<times> byte list" where
  "write_flat_binder data offset obj =
    (case slice_get data offset (offset + FLAT_SIZE) of
       Some _ \<Rightarrow> (Ok (), splice data offset (flat_bytes obj))
     | None \<Rightarrow> (Err NotEnoughData, data))"

text \<open>Process-wide state an object's lifetime touches: the published natives, the state of the kernel
  behind the driver, the descriptors closed so far and the natives marked as parceled. The
  operations on the kernel's state are the parameters \<open>kernel_ops\<close>: taking and dropping a strong
  reference through the proxy of a handle, duplicating a descriptor, and obtaining the proxy of a
  received handle with its stability.\<close>

record 'p obj_env =
  env_natives :: native_state
  env_kernel :: 'p
  env_closed :: "u32 list"
  env_parceled :: "arc list"

record 'p kernel_ops =
  kx_increase :: "u32 \<Rightarrow> 'p \<Rightarrow> unit result \<times> 'p"
  kx_decrease :: "u32 \<Rightarrow> 'p \<Rightarrow> unit result \<times> 'p"
  kx_dupfd :: "u32 \<Rightarrow> 'p \<Rightarrow> u32 result \<times> 'p"
  kx_proxy :: "u32 \<Rightarrow> Stability \<Rightarrow> 'p \<Rightarrow> unit result \<times> 'p"

definition fbo_acquire ::
    "'p kernel_ops \<Rightarrow> flat_binder_object \<Rightarrow> 'p obj_env \<Rightarrow> unit result \<times> 'p obj_env" where
  "fbo_acquire P obj env =
    (if hdr_type obj = BINDER_TYPE_BINDER then
       (if fbo_pointer obj \<noteq> 0
        then (Ok (), env\<lparr>env_natives := snd (incref_publish (fbo_pointer obj) (env_natives env))\<rparr>)
        else (Ok (), env))
     else if hdr_type obj = BINDER_TYPE_HANDLE then
       (let (r, p) = kx_increase P (fbo_handle obj) (env_kernel env) in (r, env\<lparr>env_kernel := p\<rparr>))
     else if hdr_type obj = BINDER_TYPE_FD then (Ok (), env)
     else (Err InvalidOperation, env))"

definition fbo_release ::
    "'p kernel_ops \<Rightarrow> flat_binder_object \<Rightarrow> 'p obj_env \<Rightarrow> unit result \<times> 'p obj_env" where
  "fbo_release P obj env =
    (if hdr_type obj = BINDER_TYPE_BINDER then
       (if fbo_pointer obj \<noteq> 0
        then (Ok (), env\<lparr>env_natives := snd (decref_publish (fbo_pointer obj) (env_natives env))\<rparr>)
        else (Ok (), env))
     else if hdr_type obj = BINDER_TYPE_HANDLE then
       (let (r, p) = kx_decrease P (fbo_handle obj) (env_kernel env) in (r, env\<lparr>env_kernel := p\<rparr>))
     else if hdr_type obj = BINDER_TYPE_FD then
       (if cookie obj \<noteq> 0 then (Ok (), env\<lparr>env_closed := fbo_handle obj # env_closed env\<rparr>)
        else (Ok (), env))
     else (Err InvalidOperation, env))"

section \<open>Lemmas\<close>

lemma length_flat_bytes [simp]: "length (flat_bytes obj) = FLAT_SIZE"
  by (simp add: flat_bytes_def FLAT_SIZE_def)

lemma flat_of_bytes_flat_bytes [simp]: "flat_of_bytes (flat_bytes obj) = obj"
  by (simp add: flat_of_bytes_def flat_bytes_def)

lemma read_flat_binder_at:
  "length xs = offset \<Longrightarrow> read_flat_binder (xs @ flat_bytes obj @ ys) offset = Ok obj"
  by (simp add: read_flat_binder_def slice_get_def)

lemma read_flat_binder_Ok:
  "read_flat_binder data offset = Ok obj \<longleftrightarrow>
    offset + FLAT_SIZE \<le> length data \<and> obj = flat_of_bytes (take FLAT_SIZE (drop offset data))"
  by (auto simp: read_flat_binder_def slice_get_def)

lemma fbo_handle_set_handle [simp]: "fbo_handle (set_handle h obj) = h"
proof -
  have n: "nat_of_le (le_bytes h @ ys) = unat h + 2 ^ 32 * nat_of_le ys" for ys
  proof -
    have app: "nat_of_le (xs @ ys) = nat_of_le xs + 256 ^ length xs * nat_of_le ys" for xs
      by (induction xs) (simp_all add: algebra_simps)
    have "nat_of_le (le_bytes h) = unat h"
      using unsigned_less [of h, where ?'a = nat] by (simp add: le_bytes_def)
    then show ?thesis by (simp add: app)
  qed
  have "unat (ucast (word_of_nat (unat h + 2 ^ 32 * m) :: u64) :: u32) = unat h" for m
  proof -
    have "unat (ucast (word_of_nat (unat h + 2 ^ 32 * m) :: u64) :: u32) =
        (unat h + 2 ^ 32 * m) mod 2 ^ 64 mod 2 ^ 32"
      by (simp only: unsigned_ucast_eq unsigned_of_nat take_bit_eq_mod len_num0 len_bit0 len_num1) simp
    also have "\<dots> = (unat h + 2 ^ 32 * m) mod 2 ^ 32"
      by (rule mod_mod_cancel) simp
    also have "\<dots> = unat h" using unsigned_less [of h, where ?'a = nat] by simp
    finally show ?thesis .
  qed
  then show ?thesis
    unfolding fbo_handle_def set_handle_def of_le_bytes_def n
    by (simp add: word_unat_eq_iff)
qed

lemma ucast_32_64_32 [simp]: "ucast (ucast (h :: u32) :: u64) = h"
  by transfer (simp add: take_bit_eq_mod)

lemma fbo_handle_new_handle [simp]: "fbo_handle (new_handle h f) = h"
  by (simp add: fbo_handle_def new_handle_def)

lemma fbo_handle_new_with_fd [simp]: "fbo_handle (new_with_fd h b) = h"
  by (simp add: fbo_handle_def new_with_fd_def)

end
