(* ===== verification/Parcel.thy ===== *)
theory Parcel
  imports Rpc_Address Flat_Object
begin

text \<open>
  \<open>rsbinder/src/parcel.rs\<close>: the parcel buffer with its cursor, the aligned reads and writes,
  sized (nested) blocks, raw arrays, the kernel object table with its search hint, the RPC-mode
  fields and the RPC object-position table. Buffer capacity is not part of the state: \<open>reserve\<close>
  only matters through its panic on a driver-owned slice. Targets have a 64-bit \<open>usize\<close>.
  Callbacks and the RPC session object are the numbers that identify them.
\<close>

section \<open>Layout arithmetic\<close>

definition pad_size :: "usize \<Rightarrow> usize" where
  "pad_size len = nat ((int len + 3) AND NOT 3)"

text \<open>\<open>usize_bits\<close> is the width of \<open>usize\<close> on the target; \<open>elem_size\<close> is \<open>size_of::<D>()\<close>.
  \<open>len as usize\<close> sign-extends a negative \<open>len\<close>.\<close>

definition checked_array_layout :: "nat \<Rightarrow> int \<Rightarrow> nat \<Rightarrow> (nat \<times> nat) result" where
  "checked_array_layout usize_bits len elem_size =
    (let n = nat (len mod 2 ^ usize_bits); size = n * elem_size in
     if size < 2 ^ usize_bits then
       (if size + 3 < 2 ^ usize_bits then Ok (size, nat ((int size + 3) AND NOT 3))
        else Err BadValue)
     else Err BadValue)"

section \<open>State\<close>

datatype 'a ParcelData = Vec "'a list" | Slice "'a list"

fun as_slice :: "'a ParcelData \<Rightarrow> 'a list" where
  "as_slice (Vec v) = v"
| "as_slice (Slice s) = s"

definition pd_len :: "'a ParcelData \<Rightarrow> nat" where
  "pd_len d = length (as_slice d)"

fun is_vec :: "'a ParcelData \<Rightarrow> bool" where
  "is_vec (Vec _) = True"
| "is_vec (Slice _) = False"

text \<open>\<open>push\<close>: panics on a slice.\<close>

fun pd_push :: "'a ParcelData \<Rightarrow> 'a \<Rightarrow> 'a ParcelData option" where
  "pd_push (Vec v) x = Some (Vec (v @ [x]))"
| "pd_push (Slice s) x = None"

type_synonym fd = nat

record RpcFields =
  rf_ops :: "nat option"
  rf_fd_mode :: FileDescriptorTransportMode
  rf_fds_out :: "fd list"
  rf_fds_in :: "fd option list"
  rf_object_positions :: "u32 list"
  rf_record_fd_positions :: bool
  rf_leaving_addrs :: "RpcAddress list"

definition rpc_default :: RpcFields where
  "rpc_default = \<lparr>rf_ops = None, rf_fd_mode = FdNone, rf_fds_out = [], rf_fds_in = [],
     rf_object_positions = [], rf_record_fd_positions = False, rf_leaving_addrs = []\<rparr>"

definition MAX_NESTED_READ_DEPTH :: nat where
  "MAX_NESTED_READ_DEPTH = 1000"

record parcel =
  pdata :: "byte ParcelData"
  pobjects :: "nat ParcelData"
  ppos :: usize
  next_object_hint :: usize
  read_boundary :: "usize option"
  nested_read_depth :: usize
  request_header_present :: bool
  work_source_request_header_pos :: usize
  free_buffer :: "nat option"
  prpc :: "RpcFields option"

definition parcel_new :: parcel where
  "parcel_new = \<lparr>pdata = Vec [], pobjects = Vec [], ppos = 0, next_object_hint = 0,
     read_boundary = None, nested_read_depth = 0, request_header_present = False,
     work_source_request_header_pos = 0, free_buffer = None, prpc = None\<rparr>"

definition from_ipc_parts :: "byte list \<Rightarrow> nat list \<Rightarrow> nat \<Rightarrow> parcel" where
  "from_ipc_parts data objects fb = parcel_new\<lparr>pdata := Slice data, pobjects := Slice objects,
     free_buffer := Some fb\<rparr>"

definition from_vec :: "byte list \<Rightarrow> parcel" where
  "from_vec data = parcel_new\<lparr>pdata := Vec data\<rparr>"

abbreviation pbytes :: "parcel \<Rightarrow> byte list" where
  "pbytes p \<equiv> as_slice (pdata p)"

abbreviation plen :: "parcel \<Rightarrow> nat" where
  "plen p \<equiv> pd_len (pdata p)"

definition parcel_is_empty :: "parcel \<Rightarrow> bool" where
  "parcel_is_empty p \<longleftrightarrow> ppos p \<ge> plen p"

definition set_data_position :: "usize \<Rightarrow> parcel \<Rightarrow> parcel" where
  "set_data_position n p = p\<lparr>ppos := n\<rparr>"

definition data_size :: "parcel \<Rightarrow> usize" where
  "data_size p = (if plen p > ppos p then plen p else ppos p)"

text \<open>\<open>assert!(result < i32::MAX)\<close> is the panic.\<close>

definition data_avail :: "parcel \<Rightarrow> usize result" where
  "data_avail p = (let result = plen p - ppos p in if result < i32_max then Ok result else Panic)"

definition has_more_data :: "parcel \<Rightarrow> bool" where
  "has_more_data p \<longleftrightarrow>
    ppos p < (case read_boundary p of Some e \<Rightarrow> e | None \<Rightarrow> data_size p)"

section \<open>RPC fields\<close>

definition set_for_rpc :: "bool \<Rightarrow> parcel \<Rightarrow> parcel" where
  "set_for_rpc yes p =
    (if yes then p\<lparr>prpc := Some (case prpc p of Some r \<Rightarrow> r | None \<Rightarrow> rpc_default)\<rparr>
     else p\<lparr>prpc := None\<rparr>)"

definition is_for_rpc :: "parcel \<Rightarrow> bool" where
  "is_for_rpc p \<longleftrightarrow> prpc p \<noteq> None"

definition attach_rpc_ops :: "nat \<Rightarrow> parcel \<Rightarrow> parcel" where
  "attach_rpc_ops ops p =
    p\<lparr>prpc := Some ((case prpc p of Some r \<Rightarrow> r | None \<Rightarrow> rpc_default)\<lparr>rf_ops := Some ops\<rparr>)\<rparr>"

definition configure_rpc ::
    "nat \<Rightarrow> FileDescriptorTransportMode \<Rightarrow> bool \<Rightarrow> parcel \<Rightarrow> parcel" where
  "configure_rpc ops mode rec p =
    p\<lparr>prpc := Some ((case prpc p of Some r \<Rightarrow> r | None \<Rightarrow> rpc_default)
       \<lparr>rf_ops := Some ops, rf_fd_mode := mode, rf_record_fd_positions := rec\<rparr>)\<rparr>"

definition rpc_object_positions :: "parcel \<Rightarrow> u32 list" where
  "rpc_object_positions p = (case prpc p of Some r \<Rightarrow> rf_object_positions r | None \<Rightarrow> [])"

definition rpc_set_object_positions :: "u32 list \<Rightarrow> parcel \<Rightarrow> parcel" where
  "rpc_set_object_positions ps p =
    p\<lparr>prpc := map_option (\<lambda>r. r\<lparr>rf_object_positions := ps\<rparr>) (prpc p)\<rparr>"

definition rpc_record_leaving_addr :: "RpcAddress \<Rightarrow> parcel \<Rightarrow> parcel" where
  "rpc_record_leaving_addr a p =
    p\<lparr>prpc := map_option (\<lambda>r. r\<lparr>rf_leaving_addrs := rf_leaving_addrs r @ [a]\<rparr>) (prpc p)\<rparr>"

definition rpc_leaving_addrs :: "parcel \<Rightarrow> RpcAddress list" where
  "rpc_leaving_addrs p = (case prpc p of Some r \<Rightarrow> rf_leaving_addrs r | None \<Rightarrow> [])"

text \<open>\<open>slice::partition_point\<close> on a partitioned slice.\<close>

definition partition_point :: "('a \<Rightarrow> bool) \<Rightarrow> 'a list \<Rightarrow> nat" where
  "partition_point P xs = length (takeWhile P xs)"

definition insert_at :: "nat \<Rightarrow> 'a \<Rightarrow> 'a list \<Rightarrow> 'a list" where
  "insert_at i x xs = take i xs @ x # drop i xs"

definition record_object_position :: "usize \<Rightarrow> RpcFields \<Rightarrow> RpcFields" where
  "record_object_position pos r =
    (let p = word_of_nat pos; at = partition_point (\<lambda>q. q \<le> p) (rf_object_positions r)
     in r\<lparr>rf_object_positions := insert_at at p (rf_object_positions r)\<rparr>)"

text \<open>\<open>slice::binary_search\<close>: the halving loop of the standard library, then one comparison.\<close>

function bsearch_base :: "u32 list \<Rightarrow> u32 \<Rightarrow> nat \<Rightarrow> nat \<Rightarrow> nat" where
  "bsearch_base xs k base n =
    (if n \<le> 1 then base
     else let half = n div 2; mid = base + half
          in bsearch_base xs k (if xs ! mid > k then base else mid) (n - half))"
  by pat_completeness auto
termination
  by (relation "measure (\<lambda>(xs, k, base, n). n)") auto

declare bsearch_base.simps [simp del]

definition binary_search_is_ok :: "u32 list \<Rightarrow> u32 \<Rightarrow> bool" where
  "binary_search_is_ok xs k \<longleftrightarrow> xs \<noteq> [] \<and> xs ! bsearch_base xs k 0 (length xs) = k"

definition object_position_present :: "usize \<Rightarrow> RpcFields \<Rightarrow> bool" where
  "object_position_present pos r \<longleftrightarrow>
    pos \<le> u32_max \<and> binary_search_is_ok (rf_object_positions r) (word_of_nat pos)"

definition rpc_object_position_present :: "usize \<Rightarrow> parcel \<Rightarrow> bool" where
  "rpc_object_position_present pos p =
    (case prpc p of Some r \<Rightarrow> object_position_present pos r | None \<Rightarrow> False)"

definition rpc_record_object_position :: "usize \<Rightarrow> parcel \<Rightarrow> parcel" where
  "rpc_record_object_position pos p = p\<lparr>prpc := map_option (record_object_position pos) (prpc p)\<rparr>"

definition set_rpc_fd_mode :: "FileDescriptorTransportMode \<Rightarrow> parcel \<Rightarrow> parcel" where
  "set_rpc_fd_mode mode p = p\<lparr>prpc := map_option (\<lambda>r. r\<lparr>rf_fd_mode := mode\<rparr>) (prpc p)\<rparr>"

definition rpc_fd_mode :: "parcel \<Rightarrow> FileDescriptorTransportMode" where
  "rpc_fd_mode p = (case prpc p of Some r \<Rightarrow> rf_fd_mode r | None \<Rightarrow> FdNone)"

definition set_rpc_record_fd_positions :: "bool \<Rightarrow> parcel \<Rightarrow> parcel" where
  "set_rpc_record_fd_positions yes p =
    p\<lparr>prpc := map_option (\<lambda>r. r\<lparr>rf_record_fd_positions := yes\<rparr>) (prpc p)\<rparr>"

definition rpc_record_fd_positions :: "parcel \<Rightarrow> bool" where
  "rpc_record_fd_positions p = (case prpc p of Some r \<Rightarrow> rf_record_fd_positions r | None \<Rightarrow> False)"

definition push_out_fd :: "fd \<Rightarrow> RpcFields \<Rightarrow> i32 \<times> RpcFields" where
  "push_out_fd f r = (word_of_nat (length (rf_fds_out r)), r\<lparr>rf_fds_out := rf_fds_out r @ [f]\<rparr>)"

definition rpc_push_out_fd :: "fd \<Rightarrow> parcel \<Rightarrow> i32 result \<times> parcel" where
  "rpc_push_out_fd f p =
    (case prpc p of
       Some r \<Rightarrow> (let (i, r') = push_out_fd f r in (Ok i, p\<lparr>prpc := Some r'\<rparr>))
     | None \<Rightarrow> (Panic, p))"

definition set_in_fds :: "fd list \<Rightarrow> RpcFields \<Rightarrow> RpcFields" where
  "set_in_fds fds r = r\<lparr>rf_fds_in := map Some fds\<rparr>"

definition rpc_set_in_fds :: "fd list \<Rightarrow> parcel \<Rightarrow> parcel" where
  "rpc_set_in_fds fds p = p\<lparr>prpc := map_option (set_in_fds fds) (prpc p)\<rparr>"

definition take_in_fd :: "usize \<Rightarrow> RpcFields \<Rightarrow> fd option \<times> RpcFields" where
  "take_in_fd i r =
    (if i < length (rf_fds_in r)
     then (rf_fds_in r ! i, r\<lparr>rf_fds_in := (rf_fds_in r)[i := None]\<rparr>) else (None, r))"

definition rpc_take_in_fd :: "usize \<Rightarrow> parcel \<Rightarrow> fd option \<times> parcel" where
  "rpc_take_in_fd i p =
    (case prpc p of
       Some r \<Rightarrow> (let (f, r') = take_in_fd i r in (f, p\<lparr>prpc := Some r'\<rparr>))
     | None \<Rightarrow> (None, p))"

section \<open>Reads\<close>

definition read_aligned_data :: "usize \<Rightarrow> parcel \<Rightarrow> byte list result \<times> parcel" where
  "read_aligned_data len p =
    (let aligned = pad_size len; pos = ppos p in
     case data_avail p of
       Ok avail \<Rightarrow>
         (if aligned \<le> avail
          then (slice_index (pbytes p) pos (pos + len), p\<lparr>ppos := pos + aligned\<rparr>)
          else (Err NotEnoughData, p))
     | Err e \<Rightarrow> (Err e, p)
     | Panic \<Rightarrow> (Panic, p))"

text \<open>Reading a fixed-width integer: \<open>[u8; N]::try_from(parcel)\<close> then \<open>from_ne_bytes\<close>.\<close>

definition read_word :: "parcel \<Rightarrow> 'a::len word result \<times> parcel" where
  "read_word p = andThen (read_aligned_data (LENGTH('a) div 8) p) (\<lambda>bs q. (Ok (of_le_bytes bs), q))"

definition read_i32 :: "parcel \<Rightarrow> int result \<times> parcel" where
  "read_i32 p = andThen (read_word p) (\<lambda>(w :: i32) q. (Ok (sint w), q))"

text \<open>The two searches of \<open>read_object\<close> over the object table: forward from the hint, then back.\<close>

function scan_forward :: "nat list \<Rightarrow> nat \<Rightarrow> nat \<Rightarrow> nat" where
  "scan_forward objects data_pos opos =
    (if opos < length objects - 1 \<and> objects ! opos < data_pos
     then scan_forward objects data_pos (opos + 1) else opos)"
  by pat_completeness auto
termination
  by (relation "measure (\<lambda>(objects, data_pos, opos). length objects - opos)") auto

declare scan_forward.simps [simp del]

fun scan_backward :: "nat list \<Rightarrow> nat \<Rightarrow> nat \<Rightarrow> nat" where
  "scan_backward objects data_pos 0 = 0"
| "scan_backward objects data_pos (Suc opos) =
    (if objects ! Suc opos > data_pos then scan_backward objects data_pos opos else Suc opos)"

text \<open>The index of the table entry for \<open>data_pos\<close>, or \<open>None\<close> for the \<open>BadType\<close> exit.\<close>

definition find_object :: "nat list \<Rightarrow> nat \<Rightarrow> nat \<Rightarrow> nat option" where
  "find_object objects hint data_pos =
    (let count = length objects in
     if count > 0 then
       (let opos = (if hint < count then scan_forward objects data_pos hint else count - 1) in
        if objects ! opos = data_pos then Some opos
        else let opos = scan_backward objects data_pos opos in
             if objects ! opos = data_pos then Some opos else None)
     else None)"

definition read_object :: "bool \<Rightarrow> parcel \<Rightarrow> flat_binder_object result \<times> parcel" where
  "read_object null_meta p =
    (if is_for_rpc p then (Err BadType, p)
     else let data_pos = ppos p in
       andThen (read_aligned_data FLAT_SIZE p) (\<lambda>bs q.
         andThen (read_flat_binder bs 0, q) (\<lambda>obj q.
           if \<not> null_meta \<and> cookie obj = 0 \<and> fbo_pointer obj = 0 then (Ok obj, q)
           else case find_object (as_slice (pobjects q)) (next_object_hint q) data_pos of
             Some opos \<Rightarrow> (Ok obj, q\<lparr>next_object_hint := opos + 1\<rparr>)
           | None \<Rightarrow> (Err BadType, q))))"

text \<open>\<open>sized_read\<close>; \<open>checked_add\<close> overflows past \<open>usize::MAX\<close>. The value of \<open>f\<close> is what the
  source's closure leaves in the variables it captures.\<close>

definition sized_read ::
    "(parcel \<Rightarrow> 'a result \<times> parcel) \<Rightarrow> parcel \<Rightarrow> 'a result \<times> parcel" where
  "sized_read f p =
    (let start = ppos p in
     andThen (read_i32 p) (\<lambda>parcelable_size p.
       if parcelable_size < 4 then (Err BadValue, p)
       else if start + nat parcelable_size \<ge> 2 ^ 64 then (Err BadValue, p)
       else let end_pos = start + nat parcelable_size in
         if end_pos > data_size p then (Err NotEnoughData, p)
         else if nested_read_depth p \<ge> MAX_NESTED_READ_DEPTH then (Err BadValue, p)
         else let prev_boundary = read_boundary p;
                  p1 = p\<lparr>nested_read_depth := nested_read_depth p + 1, read_boundary := Some end_pos\<rparr>;
                  (r, p2) = f p1;
                  p3 = p2\<lparr>read_boundary := prev_boundary, nested_read_depth := nested_read_depth p2 - 1\<rparr>
              in andThen (r, p3) (\<lambda>a p. (Ok a, set_data_position end_pos p))))"

text \<open>\<open>read_array\<close>: \<open>D\<close> is a plain-old-data element of \<open>n\<close> bytes, decoded by \<open>dec\<close> from its
  in-memory image.\<close>

definition read_array :: "nat \<Rightarrow> (byte list \<Rightarrow> 'd) \<Rightarrow> parcel \<Rightarrow> 'd list option result \<times> parcel" where
  "read_array n dec p =
    andThen (read_i32 p) (\<lambda>len p.
      if len < -1 then (Err UnexpectedNull, p)
      else if len = -1 then (Ok None, p)
      else if len = 0 then (Ok (Some []), p)
      else andThen (checked_array_layout 64 len n, p) (\<lambda>(size_b, padded) p.
        andThen (data_avail p, p) (\<lambda>avail p.
          if padded > avail then (Err NotEnoughData, p)
          else let pos = ppos p in
            case slice_get (pbytes p) pos (pos + size_b) of
              None \<Rightarrow> (Err NotEnoughData, p)
            | Some data_slice \<Rightarrow>
                (Ok (Some (map dec (chunks_exact n data_slice))), set_data_position (pos + padded) p))))"

definition read_array_char :: "(int \<Rightarrow> 'd) \<Rightarrow> parcel \<Rightarrow> 'd list option result \<times> parcel" where
  "read_array_char from p =
    andThen (read_i32 p) (\<lambda>len p.
      if len < -1 then (Err UnexpectedNull, p)
      else if len = -1 then (Ok None, p)
      else if len = 0 then (Ok (Some []), p)
      else andThen (checked_array_layout 64 len 4, p) (\<lambda>(size_b, padded) p.
        andThen (data_avail p, p) (\<lambda>avail p.
          if padded > avail then (Err NotEnoughData, p)
          else let pos = ppos p in
            andThen (slice_index (pbytes p) pos (pos + size_b), p) (\<lambda>data_slice p.
              (Ok (Some (map (\<lambda>c. from (sint (of_le_bytes c :: i32))) (chunks_exact 4 data_slice))),
               set_data_position (pos + padded) p)))))"

definition resize_out_vec :: "'d \<Rightarrow> 'd list \<Rightarrow> parcel \<Rightarrow> ('d list) result \<times> parcel" where
  "resize_out_vec dflt out_vec p =
    andThen (read_i32 p) (\<lambda>len p.
      if len < 0 then (Err UnexpectedNull, p)
      else (Ok (take (nat len) out_vec @ replicate (nat len - length out_vec) dflt), p))"

definition resize_nullable_out_vec :: "'d \<Rightarrow> parcel \<Rightarrow> ('d list option) result \<times> parcel" where
  "resize_nullable_out_vec dflt p =
    andThen (read_i32 p) (\<lambda>len p.
      if len < 0 then (Ok None, p) else (Ok (Some (replicate (nat len) dflt)), p))"

section \<open>Writes\<close>

definition update_work_source_request_header_pos :: "parcel \<Rightarrow> parcel" where
  "update_work_source_request_header_pos p =
    (if \<not> request_header_present p
     then p\<lparr>work_source_request_header_pos := plen p, request_header_present := True\<rparr> else p)"

text \<open>The end position past \<open>i32::MAX\<close> (or past \<open>usize::MAX\<close>) is \<open>BadValue\<close>; \<open>reserve\<close> panics
  on a driver slice; the gap before the cursor and the padding are zero bytes.\<close>

definition write_aligned_data :: "byte list \<Rightarrow> parcel \<Rightarrow> unit result \<times> parcel" where
  "write_aligned_data bs p =
    (let unaligned = length bs; aligned = pad_size unaligned; pos = ppos p; end_pos = pos + aligned in
     if end_pos > i32_max then (Err BadValue, p)
     else case pdata p of
       Slice _ \<Rightarrow> (Panic, p)
     | Vec v \<Rightarrow>
         (Ok (), set_data_position end_pos
            (p\<lparr>pdata := Vec (splice v pos (bs @ replicate (aligned - unaligned) 0))\<rparr>)))"

definition write_word :: "'a::len word \<Rightarrow> parcel \<Rightarrow> unit result \<times> parcel" where
  "write_word w p = write_aligned_data (le_bytes w) p"

definition write_i32 :: "int \<Rightarrow> parcel \<Rightarrow> unit result \<times> parcel" where
  "write_i32 i p = write_word (word_of_int i :: i32) p"

text \<open>\<open>write_array\<close> of plain-old-data elements whose in-memory images are \<open>enc x\<close>: the length
  word, then the same padded copy as \<open>write_aligned_data\<close>.\<close>

definition write_array :: "('s \<Rightarrow> byte list) \<Rightarrow> 's list \<Rightarrow> parcel \<Rightarrow> unit result \<times> parcel" where
  "write_array enc xs p =
    (let len = length xs in
     if len > i32_max then (Err BadValue, p)
     else andThen (write_i32 (int len) p) (\<lambda>_ p.
       if len = 0 then (Ok (), p) else write_aligned_data (concat (map enc xs)) p))"

fun write_i32s :: "int list \<Rightarrow> parcel \<Rightarrow> unit result \<times> parcel" where
  "write_i32s [] p = (Ok (), p)"
| "write_i32s (c # cs) p = andThen (write_i32 c p) (\<lambda>_ p. write_i32s cs p)"

definition write_array_char :: "('s \<Rightarrow> int) \<Rightarrow> 's list \<Rightarrow> parcel \<Rightarrow> unit result \<times> parcel" where
  "write_array_char as_i32 xs p =
    (let len = length xs in
     if len > i32_max then (Err BadValue, p)
     else andThen (write_i32 (int len) p) (\<lambda>_ p.
       if 4 * len \<ge> 2 ^ 64 then (Err BadValue, p)
       else if ppos p + pad_size (4 * len) > i32_max then (Err BadValue, p)
       else if \<not> is_vec (pdata p) then (Panic, p)
       else write_i32s (map as_i32 xs) p))"

definition write_slice_size :: "'t list option \<Rightarrow> parcel \<Rightarrow> unit result \<times> parcel" where
  "write_slice_size sl p =
    (case sl of
       Some xs \<Rightarrow> (if length xs > i32_max then (Err BadValue, p) else write_i32 (int (length xs)) p)
     | None \<Rightarrow> write_i32 (-1) p)"

definition sized_write ::
    "(parcel \<Rightarrow> unit result \<times> parcel) \<Rightarrow> parcel \<Rightarrow> unit result \<times> parcel" where
  "sized_write f p =
    (let start = ppos p in
     andThen (write_i32 0 p) (\<lambda>_ p.
       andThen (f p) (\<lambda>_ p.
         let end_pos = ppos p; p = set_data_position start p in
         if end_pos < start then (Panic, p)
         else andThen (write_i32 (int (end_pos - start)) p) (\<lambda>_ p.
           (Ok (), set_data_position end_pos p)))))"

end
