(* ===== verification/Parcel_Lemmas.thy ===== *)
theory Parcel_Lemmas
  imports Parcel "HOL-Library.Multiset"
begin

text \<open>
  Facts about the parcel buffer that the codecs above it use: padding, what a write at the end of
  the buffer appends, what a read at the cursor returns, the object-table searches, and sized
  blocks; and the properties of \<open>rsbinder/src/parcel.rs\<close> itself.
\<close>

section \<open>Padding and layout\<close>

lemma and_not_3_int: "(x :: int) AND NOT 3 = x div 4 * 4"
proof -
  have "x AND NOT 3 = x AND NOT (mask 2)" by (simp add: mask_eq_exp_minus_1)
  also have "\<dots> = push_bit 2 (drop_bit 2 x)"
    by (rule bit_eqI) (auto simp: bit_simps not_less le_iff_add)
  finally show ?thesis by (simp add: push_bit_eq_mult drop_bit_eq_div)
qed

lemma pad_size_eq: "pad_size n = (n + 3) div 4 * 4"
proof -
  have "(int n + 3) div 4 * 4 = int ((n + 3) div 4 * 4)"
    by (simp add: zdiv_int)
  then show ?thesis by (simp only: pad_size_def and_not_3_int nat_int)
qed

lemma pad_size_bounds: "n \<le> pad_size n" "pad_size n < n + 4" "4 dvd pad_size n"
  unfolding pad_size_eq by presburger+

lemma pad_size_aligned [simp]: "4 dvd n \<Longrightarrow> pad_size n = n"
  unfolding pad_size_eq by presburger

lemma pad_size_numerals [simp]:
  "pad_size 0 = 0" "pad_size 1 = 4" "pad_size 2 = 4" "pad_size 4 = 4" "pad_size 8 = 8"
  "pad_size 16 = 16" "pad_size 24 = 24" "pad_size (Suc 0) = 4"
  by (simp_all add: pad_size_eq)

lemma pad_size_mono: "m \<le> n \<Longrightarrow> pad_size m \<le> pad_size n"
  unfolding pad_size_eq by presburger

lemma checked_array_layout_eq:
  assumes "1 \<le> len" "len < 2 ^ w"
  shows "checked_array_layout w len n =
    (if nat len * n + 3 < 2 ^ w then Ok (nat len * n, pad_size (nat len * n)) else Err BadValue)"
  using assms by (auto simp: checked_array_layout_def Let_def pad_size_def)

section \<open>Frames: appending and consuming\<close>

text \<open>\<open>at_end p\<close>: a writable parcel with its cursor at the end; \<open>emit\<close> appends there.
  \<open>ready p bs\<close>: the bytes at the cursor start with \<open>bs\<close>; \<open>advance\<close> moves past them.\<close>

definition at_end :: "parcel \<Rightarrow> bool" where
  "at_end p \<longleftrightarrow> is_vec (pdata p) \<and> ppos p = plen p"

definition emit :: "byte list \<Rightarrow> parcel \<Rightarrow> parcel" where
  "emit bs p = p\<lparr>pdata := Vec (pbytes p @ bs), ppos := plen p + length bs\<rparr>"

definition ready :: "parcel \<Rightarrow> byte list \<Rightarrow> bool" where
  "ready p bs \<longleftrightarrow> ppos p + length bs \<le> plen p \<and> take (length bs) (drop (ppos p) (pbytes p)) = bs \<and>
     plen p - ppos p < i32_max \<and> plen p < 2 ^ 64"

definition advance :: "nat \<Rightarrow> parcel \<Rightarrow> parcel" where
  "advance n p = p\<lparr>ppos := ppos p + n\<rparr>"

lemma at_end_emit [simp]: "at_end (emit bs p)"
  by (simp add: at_end_def emit_def pd_len_def)

lemma plen_emit [simp]: "plen (emit bs p) = plen p + length bs"
  by (simp add: emit_def pd_len_def)

lemma pbytes_emit [simp]: "pbytes (emit bs p) = pbytes p @ bs"
  by (simp add: emit_def)

lemma emit_emit [simp]: "emit cs (emit bs p) = emit (bs @ cs) p"
  by (simp add: emit_def pd_len_def)

lemma emit_Nil: "at_end p \<Longrightarrow> emit [] p = p"
  by (cases "pdata p") (simp_all add: at_end_def emit_def)

lemma advance_0 [simp]: "advance 0 p = p"
  by (simp add: advance_def)

lemma advance_advance [simp]: "advance m (advance n p) = advance (n + m) p"
  by (simp add: advance_def)

lemma advance_frame [simp]:
  "pdata (advance n p) = pdata p" "ppos (advance n p) = ppos p + n" "pobjects (advance n p) = pobjects p"
  "next_object_hint (advance n p) = next_object_hint p" "prpc (advance n p) = prpc p"
  "read_boundary (advance n p) = read_boundary p" "nested_read_depth (advance n p) = nested_read_depth p"
  by (simp_all add: advance_def)

lemma ready_append [simp]:
  "ready p (bs @ cs) \<longleftrightarrow> ready p bs \<and> ready (advance (length bs) p) cs"
proof -
  let ?xs = "drop (ppos p) (pbytes p)"
  have "take (length bs + length cs) ?xs = bs @ cs \<longleftrightarrow>
      take (length bs) ?xs = bs \<and> take (length cs) (drop (length bs) ?xs) = cs"
    if "length bs + length cs \<le> length ?xs"
    using that by (auto simp: take_add append_eq_append_conv)
  then show ?thesis
    by (auto simp: ready_def pd_len_def add.commute add.left_commute)
qed

lemma ready_avail: "ready p bs \<Longrightarrow> data_avail p = Ok (plen p - ppos p) \<and> length bs \<le> plen p - ppos p"
  by (auto simp: ready_def data_avail_def Let_def)

lemma data_size_max: "data_size p = max (plen p) (ppos p)"
  by (simp add: data_size_def)

text \<open>Rewinding to where an append started makes the appended bytes readable.\<close>

lemma ready_emit:
  assumes "plen p + length bs \<le> i32_max" "length bs < i32_max"
  shows "ready (set_data_position (plen p) (emit bs p)) bs"
  using assms by (simp add: ready_def set_data_position_def emit_def pd_len_def)

section \<open>Aligned data\<close>

definition padded :: "byte list \<Rightarrow> byte list" where
  "padded bs = bs @ replicate (pad_size (length bs) - length bs) 0"

lemma length_padded [simp]: "length (padded bs) = pad_size (length bs)"
  using pad_size_bounds(1) [of "length bs"] by (simp add: padded_def)

lemma take_padded: "take (length bs) (padded bs) = bs"
  by (simp add: padded_def)

lemma padded_aligned [simp]: "4 dvd length bs \<Longrightarrow> padded bs = bs"
  by (simp add: padded_def)

lemma write_aligned_data_Vec:
  assumes "pdata p = Vec v" "ppos p + pad_size (length bs) \<le> i32_max"
  shows "write_aligned_data bs p = (Ok (), p\<lparr>pdata := Vec (splice v (ppos p) (padded bs)),
           ppos := ppos p + pad_size (length bs)\<rparr>)"
  using assms by (simp add: write_aligned_data_def Let_def padded_def set_data_position_def)

lemma write_aligned_data_emit:
  assumes "at_end p" "plen p + pad_size (length bs) \<le> i32_max"
  shows "write_aligned_data bs p = (Ok (), emit (padded bs) p)"
  using assms by (cases "pdata p") (auto simp: at_end_def write_aligned_data_Vec emit_def pd_len_def)

lemma read_aligned_data_ready:
  assumes "ready p bs" "pad_size n = length bs" "n \<le> length bs"
  shows "read_aligned_data n p = (Ok (take n bs), advance (length bs) p)"
proof -
  have "take n (drop (ppos p) (pbytes p)) = take n (take (length bs) (drop (ppos p) (pbytes p)))"
    using assms(3) by simp
  also have "\<dots> = take n bs" using assms(1) by (simp add: ready_def)
  finally have "slice_index (pbytes p) (ppos p) (ppos p + n) = Ok (take n bs)"
    using assms by (simp add: slice_index_def slice_get_def ready_def pd_len_def)
  then show ?thesis
    using ready_avail [OF assms(1)] assms(2)
    by (simp add: read_aligned_data_def Let_def advance_def)
qed

lemma read_aligned_data_padded:
  assumes "ready p (padded bs)"
  shows "read_aligned_data (length bs) p = (Ok bs, advance (pad_size (length bs)) p)"
  using read_aligned_data_ready [OF assms length_padded [symmetric]]
  unfolding length_padded take_padded by (simp add: pad_size_bounds(1))

lemma read_aligned_data_outcome:
  "read_aligned_data n p = (Ok bs, q) \<Longrightarrow>
    q = advance (pad_size n) p \<and> length bs = n \<and> ppos p + n \<le> plen p \<and> bs = take n (drop (ppos p) (pbytes p))"
  by (auto simp: read_aligned_data_def Let_def slice_index_def slice_get_def advance_def pd_len_def
      split: outcome.splits if_splits option.splits)

lemma write_word_emit:
  assumes "at_end p" "4 dvd LENGTH('a) div 8" "plen p + LENGTH('a) div 8 \<le> i32_max"
  shows "write_word (w :: 'a::len word) p = (Ok (), emit (le_bytes w) p)"
  using write_aligned_data_emit [of p "le_bytes w"] assms
  by (simp add: write_word_def length_le_bytes)

lemma read_word_ready:
  assumes "ready p (le_bytes (w :: 'a::len word))" "4 dvd LENGTH('a) div 8" "8 dvd LENGTH('a)"
  shows "read_word p = (Ok w, advance (LENGTH('a) div 8) p)"
  using read_aligned_data_ready [of p "le_bytes w" "LENGTH('a) div 8"] assms
  by (simp add: read_word_def length_le_bytes of_le_bytes_le_bytes)

lemma write_i32_emit:
  "at_end p \<Longrightarrow> plen p + 4 \<le> i32_max \<Longrightarrow>
    write_i32 i p = (Ok (), emit (le_bytes (word_of_int i :: i32)) p)"
  by (simp add: write_i32_def write_word_emit)

lemma read_i32_ready:
  assumes "ready p (le_bytes (word_of_int i :: i32))" "- (2 ^ 31) \<le> i" "i < 2 ^ 31"
  shows "read_i32 p = (Ok i, advance 4 p)"
  using read_word_ready [OF assms(1)] assms(2,3)
  by (simp add: read_i32_def signed_of_int signed_take_bit_int_eq_self)

lemma read_i32_outcome:
  "read_i32 p = (Ok i, q) \<Longrightarrow> q = advance 4 p \<and> ppos p + 4 \<le> plen p \<and>
    i = sint (of_le_bytes (take 4 (drop (ppos p) (pbytes p))) :: i32)"
  by (auto simp: read_i32_def read_word_def andThen_Ok_iff dest!: read_aligned_data_outcome)

section \<open>The object table\<close>

lemma scan_forward_bounds:
  "opos < length os \<Longrightarrow> opos \<le> scan_forward os d opos \<and> scan_forward os d opos < length os"
  by (induction os d opos rule: scan_forward.induct) (subst (1 2) scan_forward.simps, auto intro: Suc_leD)

lemma scan_forward_stops:
  "opos < length os \<Longrightarrow> scan_forward os d opos = length os - 1 \<or> d \<le> os ! scan_forward os d opos"
  by (induction os d opos rule: scan_forward.induct) (subst (1 2) scan_forward.simps, auto)

lemma scan_forward_skips:
  "opos \<le> i \<Longrightarrow> i < scan_forward os d opos \<Longrightarrow> os ! i < d"
proof (induction os d opos rule: scan_forward.induct)
  case (1 os d opos)
  show ?case
  proof (cases "opos < length os - 1 \<and> os ! opos < d")
    case True
    then show ?thesis using 1 by (cases "i = opos") (auto simp: scan_forward.simps [of os d opos])
  next
    case False
    then show ?thesis using 1(2,3) by (subst (asm) scan_forward.simps) auto
  qed
qed

lemma scan_backward_le: "scan_backward os d k \<le> k"
  by (induction k) auto

lemma scan_backward_skips: "scan_backward os d k < i \<Longrightarrow> i \<le> k \<Longrightarrow> d < os ! i"
  by (induction k) (auto split: if_splits simp: le_Suc_eq)

lemma scan_backward_stop: "0 < scan_backward os d k \<Longrightarrow> os ! scan_backward os d k \<le> d"
  by (induction k) (auto split: if_splits)

lemma find_object_sound: "find_object os hint d = Some i \<Longrightarrow> i < length os \<and> os ! i = d"
proof -
  assume a: "find_object os hint d = Some i"
  then have ne: "os \<noteq> []" by (auto simp: find_object_def)
  let ?k = "if hint < length os then scan_forward os d hint else length os - 1"
  have k: "?k < length os" using ne scan_forward_bounds [of hint os d] by auto
  then have "scan_backward os d ?k < length os"
    using scan_backward_le [of os d ?k] by linarith
  with a k ne show ?thesis
    by (auto simp: find_object_def Let_def split: if_splits)
qed

text \<open>On a sorted table the two scans from any hint find every entry: the forward scan stops at
  or past the first entry \<open>\<ge> d\<close> (or at the end), and the backward scan comes down to it.\<close>

lemma find_object_complete:
  assumes sorted: "sorted os" and mem: "d \<in> set os"
  shows "find_object os hint d \<noteq> None"
proof -
  have ne: "0 < length os" using mem by auto
  let ?k = "if hint < length os then scan_forward os d hint else length os - 1"
  have k: "?k < length os" using ne scan_forward_bounds [of hint os d] by auto
  obtain i where i: "i < length os" "os ! i = d" using mem by (auto simp: in_set_conv_nth)
  let ?b = "scan_backward os d ?k"
  have b: "?b \<le> ?k" by (rule scan_backward_le)
  have "os ! ?k = d \<or> os ! ?b = d"
  proof (cases "i \<le> ?k")
    case True
    then have "i \<le> ?b" using scan_backward_skips [of os d ?k i] i by fastforce
    then have "d \<le> os ! ?b" using sorted_nth_mono [OF sorted, of i ?b] i b k by simp
    moreover have "os ! ?b \<le> d"
    proof (cases ?b)
      case 0
      then show ?thesis using \<open>i \<le> ?b\<close> i by simp
    next
      case (Suc m)
      then show ?thesis using scan_backward_stop [of os d ?k] by simp
    qed
    ultimately show ?thesis by simp
  next
    case False
    then have "hint < length os" using i by (auto split: if_splits)
    then have "d \<le> os ! ?k"
      using scan_forward_stops [of hint os d] False i k by (auto split: if_splits)
    moreover have "os ! ?k \<le> d" using sorted_nth_mono [OF sorted, of ?k i] False i by simp
    ultimately show ?thesis by simp
  qed
  then show ?thesis using ne by (auto simp: find_object_def Let_def)
qed

section \<open>The RPC object-position table\<close>

lemma bsearch_base_bounds:
  "0 < n \<Longrightarrow> base \<le> bsearch_base xs k base n \<and> bsearch_base xs k base n < base + n"
proof (induction xs k base n rule: bsearch_base.induct)
  case (1 xs k base n)
  show ?case
  proof (cases "n \<le> 1")
    case True
    then show ?thesis using 1(2) by (subst (1 2) bsearch_base.simps) auto
  next
    case False
    let ?b = "if xs ! (base + n div 2) > k then base else base + n div 2"
    have "?b \<le> bsearch_base xs k ?b (n - n div 2) \<and>
        bsearch_base xs k ?b (n - n div 2) < ?b + (n - n div 2)"
      using 1(1) [OF False refl refl] False by simp
    then show ?thesis
      using False by (subst (1 2) bsearch_base.simps) (auto simp: Let_def split: if_splits)
  qed
qed

text \<open>Everything left of the window is \<open>\<le> k\<close> at \<open>base\<close>, everything right of it is \<open>> k\<close>.\<close>

lemma bsearch_base_complete:
  assumes "sorted xs" "0 < n" "base + n \<le> length xs" "base \<le> i" "i < base + n" "xs ! i = k"
  shows "xs ! bsearch_base xs k base n = k"
  using assms
proof (induction xs k base n arbitrary: i rule: bsearch_base.induct)
  case (1 xs k base n)
  show ?case
  proof (cases "n \<le> 1")
    case True
    then have "i = base" using 1(3-6) by linarith
    then show ?thesis using True 1(7) by (subst bsearch_base.simps) simp
  next
    case False
    let ?m = "base + n div 2"
    let ?b = "if xs ! ?m > k then base else ?m"
    have "\<exists>j. ?b \<le> j \<and> j < ?b + (n - n div 2) \<and> xs ! j = k"
    proof (cases "xs ! ?m > k")
      case True
      then have "i < ?m" using sorted_nth_mono [OF 1(2), of ?m i] 1(4,6,7) by (cases "i < ?m") auto
      then show ?thesis using True 1(5,7) by (intro exI [of _ i]) auto
    next
      case gt: False
      show ?thesis
      proof (cases "i < ?m")
        case True
        have "?m < length xs" using 1(4) False by linarith
        then have "xs ! ?m = k"
          using sorted_nth_mono [OF 1(2), of i ?m] gt True 1(7) by auto
        then show ?thesis using gt False by (intro exI [of _ ?m]) auto
      next
        case False
        then show ?thesis using gt 1(6,7) by (intro exI [of _ i]) auto
      qed
    qed
    then obtain j where j: "?b \<le> j" "j < ?b + (n - n div 2)" "xs ! j = k" by blast
    have "xs ! bsearch_base xs k ?b (n - n div 2) = k"
      using False 1(2-4) by (intro 1(1) [OF False refl refl, of j]) (use j in auto)
    then show ?thesis using False by (subst bsearch_base.simps) (simp add: Let_def)
  qed
qed

lemma binary_search_sound: "binary_search_is_ok xs k \<Longrightarrow> k \<in> set xs"
  using bsearch_base_bounds [of "length xs" 0 xs k]
  by (auto simp: binary_search_is_ok_def in_set_conv_nth)

lemma binary_search_complete: "sorted xs \<Longrightarrow> k \<in> set xs \<Longrightarrow> binary_search_is_ok xs k"
  using bsearch_base_complete [of xs "length xs" 0]
  by (fastforce simp: binary_search_is_ok_def in_set_conv_nth)

lemma insert_at_partition_sorted:
  assumes "sorted xs"
  shows "sorted (insert_at (partition_point (\<lambda>q. q \<le> x) xs) x xs) \<and>
    mset (insert_at (partition_point (\<lambda>q. q \<le> x) xs) x xs) = add_mset x (mset xs)"
proof -
  let ?P = "\<lambda>q. q \<le> x"
  have split: "take (partition_point ?P xs) xs = takeWhile ?P xs"
    "drop (partition_point ?P xs) xs = dropWhile ?P xs"
    by (simp_all add: partition_point_def takeWhile_eq_take [symmetric] dropWhile_eq_drop [symmetric])
  have s: "sorted (takeWhile ?P xs)" "sorted (dropWhile ?P xs)"
    using assms sorted_takeWhile sorted_dropWhile by blast+
  have "x \<le> y" if "y \<in> set (dropWhile ?P xs)" for y
  proof (cases "dropWhile ?P xs")
    case (Cons a as)
    then have "\<not> a \<le> x" using hd_dropWhile [of ?P xs] by simp
    moreover have "a \<le> y" using Cons s(2) that by auto
    ultimately show ?thesis by simp
  next
    case Nil
    with that show ?thesis by (metis empty_iff empty_set)
  qed
  moreover have "y \<le> x" if "y \<in> set (takeWhile ?P xs)" for y
    using set_takeWhileD [OF that] by simp
  ultimately have "sorted (insert_at (partition_point ?P xs) x xs)"
    using s by (auto simp: insert_at_def split sorted_append intro: order_trans)
  moreover have "mset (insert_at (partition_point ?P xs) x xs) = add_mset x (mset xs)"
    using takeWhile_dropWhile_id [of ?P xs] mset_append
    by (metis insert_at_def split mset.simps(2) union_mset_add_mset_right)
  ultimately show ?thesis by blast
qed

section \<open>Sized blocks\<close>

text \<open>The parcel on which the closure of \<open>sized_read\<close> runs, and the checks before it runs.\<close>

definition enter_block :: "nat \<Rightarrow> parcel \<Rightarrow> parcel" where
  "enter_block e p = p\<lparr>nested_read_depth := nested_read_depth p + 1, read_boundary := Some e\<rparr>"

lemma sized_read_enter:
  assumes "read_i32 p = (Ok n, q)" "4 \<le> n" "ppos p + nat n < 2 ^ 64" "ppos p + nat n \<le> data_size q"
    "nested_read_depth q < MAX_NESTED_READ_DEPTH" "f (enter_block (ppos p + nat n) q) = (r, t)"
  shows "sized_read f p = andThen
    (r, t\<lparr>read_boundary := read_boundary q, nested_read_depth := nested_read_depth t - 1\<rparr>)
    (\<lambda>a p'. (Ok a, set_data_position (ppos p + nat n) p'))"
  using assms by (simp add: sized_read_def Let_def enter_block_def)

lemma sized_read_cases:
  assumes "sized_read f p = (Ok a, q)"
  obtains n t where "read_i32 p = (Ok n, advance 4 p)" "4 \<le> n" "ppos p + nat n < 2 ^ 64"
    "ppos p + nat n \<le> data_size (advance 4 p)" "nested_read_depth p < MAX_NESTED_READ_DEPTH"
    "f (enter_block (ppos p + nat n) (advance 4 p)) = (Ok a, t)"
    "q = t\<lparr>read_boundary := read_boundary p, nested_read_depth := nested_read_depth t - 1,
           ppos := ppos p + nat n\<rparr>"
proof -
  obtain n s where r: "read_i32 p = (Ok n, s)"
    using assms by (auto simp: sized_read_def Let_def andThen_Ok_iff)
  then have s: "s = advance 4 p" using read_i32_outcome by blast
  obtain b t where f: "f (enter_block (ppos p + nat n) s) = (b, t)" by fastforce
  have g: "4 \<le> n" "ppos p + nat n < 2 ^ 64" "ppos p + nat n \<le> data_size s"
    "nested_read_depth s < MAX_NESTED_READ_DEPTH"
    using assms r by (auto simp: sized_read_def Let_def split: if_splits)
  show thesis
    using assms sized_read_enter [where f = f, OF r g f] s g f r
    by (intro that [of n t]) (auto simp: andThen_Ok_iff set_data_position_def)
qed

lemma splice_prefix:
  "length ys \<le> length bs \<Longrightarrow> splice (xs @ bs) (length xs) ys = xs @ ys @ drop (length ys) bs"
  by (simp add: splice_def)

text \<open>\<open>sized_write\<close> around a body that appends \<open>bs\<close> appends the block length and \<open>bs\<close>.\<close>

lemma sized_write_emit:
  assumes p: "at_end p" and room: "plen p + 4 + length bs \<le> i32_max"
    and f: "f (emit (le_bytes (0 :: i32)) p) = (Ok (), emit bs (emit (le_bytes (0 :: i32)) p))"
  shows "sized_write f p = (Ok (), emit (le_bytes (word_of_int (int (4 + length bs)) :: i32) @ bs) p)"
proof -
  let ?n = "le_bytes (word_of_int (int (4 + length bs)) :: i32)"
  let ?q = "set_data_position (plen p) (emit (le_bytes (0 :: i32) @ bs) p)"
  have "write_i32 0 p = (Ok (), emit (le_bytes (0 :: i32)) p)"
    using write_i32_emit [OF p, of 0] room by simp
  moreover have "write_i32 (int (4 + length bs)) ?q =
      (Ok (), set_data_position (plen p + 4) (emit (?n @ bs) p))"
  proof -
    have "write_i32 (int (4 + length bs)) ?q = write_aligned_data ?n ?q"
      by (simp add: write_i32_def write_word_def)
    also have "\<dots> = (Ok (), ?q\<lparr>pdata := Vec (splice (pbytes p @ le_bytes (0 :: i32) @ bs) (plen p) (padded ?n)),
        ppos := plen p + 4\<rparr>)"
      using room by (subst write_aligned_data_Vec) (simp_all add: emit_def set_data_position_def)
    also have "splice (pbytes p @ le_bytes (0 :: i32) @ bs) (plen p) (padded ?n) = pbytes p @ ?n @ bs"
      using splice_prefix [of ?n "le_bytes (0 :: i32) @ bs" "pbytes p"] by (simp add: pd_len_def)
    finally show ?thesis by (simp add: emit_def set_data_position_def)
  qed
  moreover have "ppos p = plen p" using p by (simp add: at_end_def)
  ultimately show ?thesis
    using f by (simp add: sized_write_def Let_def) (simp add: emit_def set_data_position_def)
qed

text \<open>Reading such a block with a body that consumes at most the block: the cursor ends at the end
  of the block whatever the body read.\<close>

lemma sized_read_block:
  assumes r: "ready p (le_bytes (word_of_int (int (4 + length bs)) :: i32) @ bs)"
    and n: "4 + length bs \<le> i32_max"
    and depth: "nested_read_depth p < MAX_NESTED_READ_DEPTH"
    and f: "f (enter_block (ppos p + 4 + length bs) (advance 4 p)) =
      (Ok a, advance m (enter_block (ppos p + 4 + length bs) (advance 4 p)))"
  shows "sized_read f p = (Ok a, advance (4 + length bs) p)"
proof -
  have i: "read_i32 p = (Ok (int (4 + length bs)), advance 4 p)"
    using r n by (intro read_i32_ready) (simp_all)
  have b: "ppos p + 4 + length bs \<le> plen p" and len: "plen p < 2 ^ 64"
    using r by (simp_all add: ready_def)
  have f': "f (enter_block (ppos p + nat (int (4 + length bs))) (advance 4 p)) =
      (Ok a, advance m (enter_block (ppos p + 4 + length bs) (advance 4 p)))"
    using f by (simp only: nat_int add.assoc)
  have e: "nat (4 + int (length bs)) = 4 + length bs" by linarith
  show ?thesis
    by (subst sized_read_enter [where f = f, OF i _ _ _ _ f'])
      (use b len depth in \<open>simp_all add: e data_size_max enter_block_def advance_def set_data_position_def\<close>)
qed

section \<open>Properties\<close>

text \<open>an aligned write puts exactly the given bytes at the cursor and moves the cursor past the
  4-byte padding. A gap the cursor had skipped and the padding read back as zero, every byte
  outside the written window keeps its value, and nothing else of the parcel changes.\<close>

theorem write_aligned_data_effect:
  assumes "pdata p = Vec v" and "ppos p + pad_size (length bs) \<le> i32_max"
  shows "\<exists>v'. write_aligned_data bs p = (Ok (), p\<lparr>pdata := Vec v', ppos := ppos p + pad_size (length bs)\<rparr>) \<and>
    length v' = max (length v) (ppos p + pad_size (length bs)) \<and>
    (\<forall>i < length v'. v' ! i =
       (if i < ppos p then (if i < length v then v ! i else 0)
        else if i < ppos p + length bs then bs ! (i - ppos p)
        else if i < ppos p + pad_size (length bs) then 0
        else v ! i))"
proof (intro exI conjI allI impI)
  let ?v = "splice v (ppos p) (padded bs)"
  show "write_aligned_data bs p = (Ok (), p\<lparr>pdata := Vec ?v, ppos := ppos p + pad_size (length bs)\<rparr>)"
    by (rule write_aligned_data_Vec [OF assms])
  show len: "length ?v = max (length v) (ppos p + pad_size (length bs))" by simp
  fix i assume i: "i < length ?v"
  note b = pad_size_bounds(1) [of "length bs"]
  consider "i < ppos p" "i < length v" | "i < ppos p" "length v \<le> i"
    | "ppos p \<le> i" "i < ppos p + pad_size (length bs)" | "ppos p + pad_size (length bs) \<le> i"
    by linarith
  then show "?v ! i = (if i < ppos p then (if i < length v then v ! i else 0)
      else if i < ppos p + length bs then bs ! (i - ppos p)
      else if i < ppos p + pad_size (length bs) then 0 else v ! i)"
  proof cases
    case 3
    then have "?v ! i = padded bs ! (i - ppos p)"
      using splice_nth_new [of "i - ppos p" "padded bs" v "ppos p"] by simp
    then show ?thesis using 3 by (auto simp: padded_def nth_append)
  qed (use i b in \<open>auto simp: splice_nth_old splice_nth_gap\<close>)
qed

theorem write_aligned_data_effect_witness:
  "\<exists>v'. write_aligned_data [7] (set_data_position 2 (from_vec [1])) =
     (Ok (), (set_data_position 2 (from_vec [1]))\<lparr>pdata := Vec v', ppos := 6\<rparr>) \<and> length v' = 6"
  using write_aligned_data_effect [of "set_data_position 2 (from_vec [1])" "[1]" "[7]"]
  by (auto simp: from_vec_def set_data_position_def)



text \<open>on any table, sorted or forged, an object is only accepted at a position the table
  lists, and in RPC mode never.\<close>

theorem read_object_never_unlisted:
  assumes "read_object null_meta p = (Ok obj, q)"
  shows "\<not> is_for_rpc p \<and>
    (ppos p \<in> set (as_slice (pobjects p)) \<or> \<not> null_meta \<and> cookie obj = 0 \<and> fbo_pointer obj = 0)"
proof -
  have rpc: "\<not> is_for_rpc p" using assms by (auto simp: read_object_def)
  then obtain bs s where s: "read_aligned_data FLAT_SIZE p = (Ok bs, s)" "read_flat_binder bs 0 = Ok obj"
    and f: "\<not> null_meta \<and> cookie obj = 0 \<and> fbo_pointer obj = 0 \<or>
      find_object (as_slice (pobjects s)) (next_object_hint s) (ppos p) \<noteq> None"
    using assms by (auto simp: read_object_def andThen_Ok_iff split: if_splits option.splits)
  have "pobjects s = pobjects p" using read_aligned_data_outcome [OF s(1)] by simp
  then show ?thesis
    using rpc f find_object_sound [of "as_slice (pobjects p)" "next_object_hint s" "ppos p"]
    by (auto simp: in_set_conv_nth)
qed

theorem read_object_never_unlisted_witness:
  "\<exists>q. read_object True (from_ipc_parts (flat_bytes flat_default) [0] 1) = (Ok flat_default, q) \<and>
     0 \<in> set [0 :: nat]"
proof -
  let ?p = "from_ipc_parts (flat_bytes flat_default) [0] 1"
  have p: "fst (read_object True ?p) = Ok flat_default"
    by (simp add: from_ipc_parts_def parcel_new_def is_for_rpc_def pd_len_def FLAT_SIZE_def
        read_object_def read_aligned_data_def data_avail_def slice_index_def slice_get_def
        read_flat_binder_def find_object_def scan_forward.simps)
  then obtain q where "read_object True ?p = (Ok flat_default, q)" by (metis prod.collapse)
  with read_object_never_unlisted [OF this] show ?thesis
    by (auto simp: from_ipc_parts_def parcel_new_def)
qed

text \<open>the RPC object-position table. Recording a position keeps a sorted table sorted and adds
  exactly that position; on a sorted table the presence check is membership; and on any table, also
  a forged unsorted one, a position reported present is in the table.\<close>

theorem object_position_table:
  "(sorted (rf_object_positions r) \<longrightarrow>
      sorted (rf_object_positions (record_object_position pos r)) \<and>
      mset (rf_object_positions (record_object_position pos r)) =
        add_mset (word_of_nat pos) (mset (rf_object_positions r)) \<and>
      (object_position_present pos (record_object_position pos r) \<longleftrightarrow> pos \<le> u32_max) \<and>
      (object_position_present k r \<longleftrightarrow> k \<le> u32_max \<and> word_of_nat k \<in> set (rf_object_positions r))) \<and>
   (object_position_present k r \<longrightarrow> word_of_nat k \<in> set (rf_object_positions r))"
proof -
  let ?ps = "rf_object_positions r"
  have new: "rf_object_positions (record_object_position pos r) =
      insert_at (partition_point (\<lambda>q. q \<le> word_of_nat pos) ?ps) (word_of_nat pos) ?ps"
    by (simp add: record_object_position_def Let_def)
  have "word_of_nat pos \<in> set (rf_object_positions (record_object_position pos r))"
    by (simp add: new insert_at_def)
  then show ?thesis
    using insert_at_partition_sorted [of ?ps "word_of_nat pos"] binary_search_sound binary_search_complete
    by (auto simp: object_position_present_def new)
qed

theorem object_position_table_witness:
  "object_position_present 8 (record_object_position 8 (rpc_default\<lparr>rf_object_positions := [4, 12]\<rparr>)) \<and>
   \<not> object_position_present 6 (rpc_default\<lparr>rf_object_positions := [4, 12]\<rparr>)"
  using object_position_table [of "rpc_default\<lparr>rf_object_positions := [4, 12]\<rparr>" 8 6] by simp

text \<open>C33: a nested read leaves the parcel's block bookkeeping as it found it. If the body itself
  keeps the depth balanced, then after a successful nested read the boundary and the depth are what
  they were before, and the cursor is at the declared end of the block however much of it the body
  consumed.\<close>

theorem sized_read_restores:
  assumes "sized_read f p = (Ok a, q)"
    and "\<And>s b t. f s = (Ok b, t) \<Longrightarrow> nested_read_depth t = nested_read_depth s"
  shows "read_boundary q = read_boundary p \<and> nested_read_depth q = nested_read_depth p \<and>
    (\<exists>n. fst (read_i32 p) = Ok n \<and> 4 \<le> n \<and> ppos q = ppos p + nat n \<and> ppos q \<le> data_size (advance 4 p))"
proof -
  obtain n t where r: "read_i32 p = (Ok n, advance 4 p)" "4 \<le> n"
    "ppos p + nat n \<le> data_size (advance 4 p)"
    and f: "f (enter_block (ppos p + nat n) (advance 4 p)) = (Ok a, t)"
    and q: "q = t\<lparr>read_boundary := read_boundary p, nested_read_depth := nested_read_depth t - 1,
           ppos := ppos p + nat n\<rparr>"
    using assms(1) by (rule sized_read_cases)
  have "nested_read_depth t = nested_read_depth p + 1"
    using assms(2) [OF f] by (simp add: enter_block_def)
  then show ?thesis using r q by auto
qed

theorem sized_read_restores_witness:
  "\<exists>q. sized_read (\<lambda>s. (Ok (), s)) (from_vec (le_bytes (8 :: i32) @ [1, 2, 3, 4])) = (Ok (), q) \<and>
     ppos q = 8 \<and> nested_read_depth q = 0"
proof -
  let ?p = "from_vec (le_bytes (8 :: i32) @ [1, 2, 3, 4])"
  have "\<exists>q. sized_read (\<lambda>s. (Ok (), s)) ?p = (Ok (), q)"
    using sized_read_block [of ?p "[1, 2, 3, 4]" "\<lambda>s. (Ok (), s)" "()" 0]
    by (auto simp: ready_def from_vec_def parcel_new_def pd_len_def MAX_NESTED_READ_DEPTH_def)
  then obtain q where q: "sized_read (\<lambda>s. (Ok (), s)) ?p = (Ok (), q)" by blast
  have "fst (read_i32 ?p) = Ok 8"
    using read_i32_ready [of ?p 8] by (simp add: ready_def from_vec_def parcel_new_def pd_len_def)
  with q sized_read_restores [OF q] show ?thesis by (auto simp: from_vec_def parcel_new_def)
qed

text \<open>nesting is cut off. At the depth limit the body of a nested read is never run: the read
  fails, and it fails the same way whatever the body would do.\<close>

theorem sized_read_depth_limit:
  assumes "MAX_NESTED_READ_DEPTH \<le> nested_read_depth p"
  shows "sized_read f p = sized_read g p \<and> \<not> is_ok (fst (sized_read f p))"
proof -
  obtain r q where rq: "read_i32 p = (r, q)" by fastforce
  show ?thesis
  proof (cases r)
    case (Ok n)
    then have "nested_read_depth q = nested_read_depth p"
      using rq read_i32_outcome [of p n q] by auto
    with Ok assms show ?thesis by (auto simp: sized_read_def Let_def rq)
  qed (simp_all add: sized_read_def rq)
qed

theorem sized_read_depth_limit_witness:
  "\<not> is_ok (fst (sized_read (\<lambda>s. (Ok (), s)) ((from_vec (le_bytes (4 :: i32)))\<lparr>nested_read_depth := 1000\<rparr>)))"
  using sized_read_depth_limit [of "(from_vec (le_bytes (4 :: i32)))\<lparr>nested_read_depth := 1000\<rparr>"
      "\<lambda>s. (Ok (), s)"]
  by (simp add: MAX_NESTED_READ_DEPTH_def)

text \<open>C34: the array layout computed from an untrusted length never wraps: for every \<open>usize\<close> width
  above 32 bits or equal to it, the result is either the exact byte count with its padding, both
  representable, or \<open>BadValue\<close>; with 64-bit \<open>usize\<close> and elements of at most 2^31 bytes it is never
  an error.\<close>

theorem checked_array_layout_exact:
  assumes "1 \<le> len" and "len < 2 ^ 31" and "32 \<le> w"
  shows "(checked_array_layout w len n = Err BadValue \<and> 2 ^ w \<le> nat len * n + 3 \<or>
     checked_array_layout w len n = Ok (nat len * n, pad_size (nat len * n)) \<and>
       nat len * n < 2 ^ w \<and> pad_size (nat len * n) < 2 ^ w) \<and>
    (w = 64 \<and> n \<le> 2 ^ 31 \<longrightarrow> is_ok (checked_array_layout w len n))"
proof -
  have "(2 :: int) ^ 31 \<le> 2 ^ w" using assms(3) by (intro power_increasing) auto
  then have eq: "checked_array_layout w len n = (if nat len * n + 3 < 2 ^ w
      then Ok (nat len * n, pad_size (nat len * n)) else Err BadValue)"
    using assms by (intro checked_array_layout_eq) auto
  have "pad_size (nat len * n) < 2 ^ w" if "nat len * n + 3 < 2 ^ w"
    using that pad_size_bounds(2) [of "nat len * n"] by linarith
  moreover have "nat len * n + 3 < 2 ^ 64" if "n \<le> 2 ^ 31"
  proof -
    have "nat len * n \<le> 2 ^ 31 * 2 ^ 31" using that assms(2) by (intro mult_le_mono) auto
    then show ?thesis by simp
  qed
  ultimately show ?thesis unfolding eq by auto
qed

theorem checked_array_layout_exact_witness:
  "checked_array_layout 32 2147483647 4 = Err BadValue \<and> checked_array_layout 64 3 2 = Ok (6, 8)"
  using checked_array_layout_exact [of 2147483647 32 4] checked_array_layout_exact [of 3 64 2]
  by (auto simp: pad_size_eq)

end
