(* ===== verification/Parcelable.thy ===== *)
theory Parcelable
  imports Parcel_Lemmas
begin

text \<open>
  \<open>rsbinder/src/parcelable.rs\<close>: serialization of primitives, booleans, UTF-16 strings, options,
  arrays and fixed-size arrays, and the interface token of \<open>parcel.rs\<close>. A Rust string is the
  list of its Unicode scalar values; floating-point values are their bit patterns, which is all
  the codec moves.
\<close>

section \<open>Definitions\<close>

subsection \<open>Widened primitives and booleans\<close>

definition serialize_i8 :: "8 word \<Rightarrow> parcel \<Rightarrow> unit result \<times> parcel" where
  "serialize_i8 v p = write_word (scast v :: i32) p"

definition serialize_u8 :: "8 word \<Rightarrow> parcel \<Rightarrow> unit result \<times> parcel" where
  "serialize_u8 v p = write_word (ucast v :: i32) p"

definition serialize_i16 :: "16 word \<Rightarrow> parcel \<Rightarrow> unit result \<times> parcel" where
  "serialize_i16 v p = write_word (scast v :: i32) p"

definition serialize_u16 :: "16 word \<Rightarrow> parcel \<Rightarrow> unit result \<times> parcel" where
  "serialize_u16 v p = write_word (ucast v :: u32) p"

text \<open>\<open><to_ty>::from_ne_bytes(..) as _\<close>: truncation to the narrow type.\<close>

definition deserialize_narrow :: "parcel \<Rightarrow> 'a::len word result \<times> parcel" where
  "deserialize_narrow p = andThen (read_word p) (\<lambda>(w :: u32) p. (Ok (ucast w), p))"

definition serialize_bool :: "bool \<Rightarrow> parcel \<Rightarrow> unit result \<times> parcel" where
  "serialize_bool b p = write_word ((if b then 1 else 0) :: i32) p"

definition deserialize_bool :: "parcel \<Rightarrow> bool result \<times> parcel" where
  "deserialize_bool p = andThen (read_word p) (\<lambda>(w :: i32) p. (Ok (w \<noteq> 0), p))"

subsection \<open>Strings\<close>

type_synonym scalar = nat

definition is_scalar :: "scalar \<Rightarrow> bool" where
  "is_scalar c \<longleftrightarrow> c < 0xD800 \<or> 0xE000 \<le> c \<and> c < 0x110000"

fun encode_utf16_char :: "scalar \<Rightarrow> nat list" where
  "encode_utf16_char c =
    (if c < 0x10000 then [c]
     else [0xD800 + (c - 0x10000) div 0x400, 0xDC00 + (c - 0x10000) mod 0x400])"

definition encode_utf16 :: "scalar list \<Rightarrow> nat list" where
  "encode_utf16 s = concat (map encode_utf16_char s)"

text \<open>\<open>String::from_utf16\<close>: \<open>None\<close> on an unpaired surrogate.\<close>

fun from_utf16 :: "nat list \<Rightarrow> scalar list option" where
  "from_utf16 [] = Some []"
| "from_utf16 (u # us) =
    (if u < 0xD800 \<or> 0xE000 \<le> u then map_option (Cons u) (from_utf16 us)
     else if 0xDC00 \<le> u then None
     else case us of
       [] \<Rightarrow> None
     | u2 # rest \<Rightarrow>
         (if 0xDC00 \<le> u2 \<and> u2 < 0xE000
          then map_option (Cons (0x10000 + (u - 0xD800) * 0x400 + (u2 - 0xDC00))) (from_utf16 rest)
          else None))"

definition u16_bytes :: "nat list \<Rightarrow> byte list" where
  "u16_bytes us = concat (map (\<lambda>u. le_bytes (word_of_nat u :: u16)) us)"

definition serialize_option_str :: "scalar list option \<Rightarrow> parcel \<Rightarrow> unit result \<times> parcel" where
  "serialize_option_str this p =
    (case this of
       None \<Rightarrow> write_i32 (-1) p
     | Some text \<Rightarrow>
         (let utf16 = encode_utf16 text; len = length utf16 in
          andThen (write_i32 (int len) p) (\<lambda>_ p.
            write_aligned_data (u16_bytes (utf16 @ [0])) p)))"

definition serialize_str :: "scalar list \<Rightarrow> parcel \<Rightarrow> unit result \<times> parcel" where
  "serialize_str s p = serialize_option_str (Some s) p"

definition deserialize_option_str :: "parcel \<Rightarrow> scalar list option result \<times> parcel" where
  "deserialize_option_str p =
    andThen (read_i32 p) (\<lambda>len p.
      if len = -1 then (Ok None, p)
      else if 0 \<le> len \<and> len < int i32_max then
        andThen (checked_array_layout 64 (len + 1) 2, p) (\<lambda>(byte_count, _) p.
          andThen (read_aligned_data byte_count p) (\<lambda>data p.
            andThen (slice_index data 0 (nat len * 2), p) (\<lambda>head p.
              case from_utf16 (map (\<lambda>c. unat (of_le_bytes c :: u16)) (chunks_exact 2 head)) of
                Some res \<Rightarrow> (Ok (Some res), p)
              | None \<Rightarrow> (Err BadValue, p))))
      else (Err UnexpectedNull, p))"

definition or_unexpected_null :: "'a option result \<times> parcel \<Rightarrow> 'a result \<times> parcel" where
  "or_unexpected_null r =
    andThen r (\<lambda>opt p. case opt of Some a \<Rightarrow> (Ok a, p) | None \<Rightarrow> (Err UnexpectedNull, p))"

definition deserialize_str :: "parcel \<Rightarrow> scalar list result \<times> parcel" where
  "deserialize_str p = or_unexpected_null (deserialize_option_str p)"

subsection \<open>Status codes\<close>

definition serialize_StatusCode :: "(errno_name \<Rightarrow> int) \<Rightarrow> StatusCode \<Rightarrow> parcel \<Rightarrow> unit result \<times> parcel" where
  "serialize_StatusCode E c p = write_i32 (i32_of_StatusCode E c) p"

definition deserialize_StatusCode :: "(errno_name \<Rightarrow> int) \<Rightarrow> parcel \<Rightarrow> StatusCode result \<times> parcel" where
  "deserialize_StatusCode E p = andThen (read_i32 p) (\<lambda>i p. (Ok (StatusCode_of_i32 E i), p))"

subsection \<open>Options and arrays of any serializable type\<close>

definition NON_NULL_PARCELABLE_FLAG :: int where "NON_NULL_PARCELABLE_FLAG = 1"
definition NULL_PARCELABLE_FLAG :: int where "NULL_PARCELABLE_FLAG = 0"

definition serialize_option ::
    "('a \<Rightarrow> parcel \<Rightarrow> unit result \<times> parcel) \<Rightarrow> 'a option \<Rightarrow> parcel \<Rightarrow> unit result \<times> parcel" where
  "serialize_option ser this p =
    (case this of
       Some inner \<Rightarrow> andThen (write_i32 NON_NULL_PARCELABLE_FLAG p) (\<lambda>_ p. ser inner p)
     | None \<Rightarrow> write_i32 NULL_PARCELABLE_FLAG p)"

definition deserialize_option ::
    "(parcel \<Rightarrow> 'a result \<times> parcel) \<Rightarrow> parcel \<Rightarrow> 'a option result \<times> parcel" where
  "deserialize_option de p =
    andThen (read_i32 p) (\<lambda>null p.
      if null = NULL_PARCELABLE_FLAG then (Ok None, p)
      else if null = NON_NULL_PARCELABLE_FLAG then andThen (de p) (\<lambda>a p. (Ok (Some a), p))
      else (Err UnexpectedNull, p))"

fun write_each :: "('a \<Rightarrow> parcel \<Rightarrow> unit result \<times> parcel) \<Rightarrow> 'a list \<Rightarrow> parcel \<Rightarrow> unit result \<times> parcel" where
  "write_each ser [] p = (Ok (), p)"
| "write_each ser (x # xs) p = andThen (ser x p) (\<lambda>_ p. write_each ser xs p)"

fun read_each :: "(parcel \<Rightarrow> 'a result \<times> parcel) \<Rightarrow> nat \<Rightarrow> parcel \<Rightarrow> 'a list result \<times> parcel" where
  "read_each de 0 p = (Ok [], p)"
| "read_each de (Suc n) p =
    andThen (de p) (\<lambda>x p. andThen (read_each de n p) (\<lambda>xs p. (Ok (x # xs), p)))"

definition serialize_array ::
    "('a \<Rightarrow> parcel \<Rightarrow> unit result \<times> parcel) \<Rightarrow> 'a list \<Rightarrow> parcel \<Rightarrow> unit result \<times> parcel" where
  "serialize_array ser xs p =
    (if length xs > i32_max then (Err BadValue, p)
     else andThen (write_i32 (int (length xs)) p) (\<lambda>_ p. write_each ser xs p))"

definition deserialize_array ::
    "(parcel \<Rightarrow> 'a result \<times> parcel) \<Rightarrow> parcel \<Rightarrow> 'a list option result \<times> parcel" where
  "deserialize_array de p =
    andThen (read_i32 p) (\<lambda>len p.
      if len < -1 then (Err UnexpectedNull, p)
      else if len = -1 then (Ok None, p)
      else if len = 0 then (Ok (Some []), p)
      else andThen (data_avail p, p) (\<lambda>_ p.
        andThen (read_each de (nat len) p) (\<lambda>xs p. (Ok (Some xs), p))))"

text \<open>\<open>SerializeOption for [T]\<close> and \<open>Vec<T>\<close>: a null array is the length \<open>-1\<close>. \<open>ser_arr\<close> is the
  element type's \<open>serialize_array\<close> (the default above or an override).\<close>

definition serialize_option_array ::
    "('a list \<Rightarrow> parcel \<Rightarrow> unit result \<times> parcel) \<Rightarrow> 'a list option \<Rightarrow> parcel \<Rightarrow> unit result \<times> parcel" where
  "serialize_option_array ser_arr this p =
    (case this of Some v \<Rightarrow> ser_arr v p | None \<Rightarrow> write_i32 (-1) p)"

definition deserialize_vec ::
    "(parcel \<Rightarrow> 'a list option result \<times> parcel) \<Rightarrow> parcel \<Rightarrow> 'a list result \<times> parcel" where
  "deserialize_vec de_arr p = or_unexpected_null (de_arr p)"

text \<open>\<open>Deserialize for [T; N]\<close> and its nullable form.\<close>

definition deserialize_fixed ::
    "nat \<Rightarrow> (parcel \<Rightarrow> 'a list option result \<times> parcel) \<Rightarrow> parcel \<Rightarrow> 'a list result \<times> parcel" where
  "deserialize_fixed n de_arr p =
    andThen (or_unexpected_null (de_arr p)) (\<lambda>v p.
      if length v = n then (Ok v, p) else (Err BadValue, p))"

definition deserialize_option_fixed ::
    "nat \<Rightarrow> (parcel \<Rightarrow> 'a list option result \<times> parcel) \<Rightarrow> parcel \<Rightarrow> 'a list option result \<times> parcel" where
  "deserialize_option_fixed n de_arr p =
    andThen (de_arr p) (\<lambda>vo p.
      case vo of
        None \<Rightarrow> (Ok None, p)
      | Some v \<Rightarrow> if length v = n then (Ok (Some v), p) else (Err BadValue, p))"

subsection \<open>Array overrides\<close>

text \<open>\<open>SerializeArray\<close>/\<open>DeserializeArray\<close> of the raw primitives, of \<open>i16\<close> and of \<open>u16\<close>.\<close>

definition serialize_array_raw :: "'a::len word list \<Rightarrow> parcel \<Rightarrow> unit result \<times> parcel" where
  "serialize_array_raw xs p = write_array le_bytes xs p"

definition deserialize_array_raw :: "parcel \<Rightarrow> 'a::len word list option result \<times> parcel" where
  "deserialize_array_raw p = read_array (LENGTH('a) div 8) of_le_bytes p"

definition serialize_array_i16 :: "16 word list \<Rightarrow> parcel \<Rightarrow> unit result \<times> parcel" where
  "serialize_array_i16 xs p = write_array_char sint xs p"

definition serialize_array_u16 :: "16 word list \<Rightarrow> parcel \<Rightarrow> unit result \<times> parcel" where
  "serialize_array_u16 xs p = write_array_char uint xs p"

definition deserialize_array_16 :: "parcel \<Rightarrow> 16 word list option result \<times> parcel" where
  "deserialize_array_16 p = read_array_char (\<lambda>i. word_of_int i) p"

subsection \<open>Interface token\<close>

definition STRICT_MODE_PENALTY_GATHER :: i32 where
  "STRICT_MODE_PENALTY_GATHER = push_bit 31 1"

definition b_pack_chars :: "char \<Rightarrow> char \<Rightarrow> char \<Rightarrow> char \<Rightarrow> u32" where
  "b_pack_chars c1 c2 c3 c4 =
    push_bit 24 (word_of_nat (of_char c1)) OR push_bit 16 (word_of_nat (of_char c2))
      OR push_bit 8 (word_of_nat (of_char c3)) OR word_of_nat (of_char c4)"

definition PING_TRANSACTION :: u32 where "PING_TRANSACTION = b_pack_chars (CHR ''_'') (CHR ''P'') (CHR ''N'') (CHR ''G'')"
definition INTERFACE_TRANSACTION :: u32 where "INTERFACE_TRANSACTION = b_pack_chars (CHR ''_'') (CHR ''N'') (CHR ''T'') (CHR ''F'')"

definition INTERFACE_HEADER :: u32 where
  "INTERFACE_HEADER = b_pack_chars (CHR ''S'') (CHR ''Y'') (CHR ''S'') (CHR ''T'')"

definition UNSET_WORK_SOURCE :: i32 where
  "UNSET_WORK_SOURCE = -1"

text \<open>The part of the thread state the token is written from and read into.\<close>

record token_state =
  strict_mode_policy :: i32
  should_propagate_work_source :: bool
  calling_work_source_uid :: i32

definition write_interface_token ::
    "bool \<Rightarrow> token_state \<Rightarrow> scalar list \<Rightarrow> parcel \<Rightarrow> unit result \<times> parcel" where
  "write_interface_token sdk_at_least_30 ts interface p =
    andThen (write_word (strict_mode_policy ts OR STRICT_MODE_PENALTY_GATHER) p) (\<lambda>_ p.
      let p = update_work_source_request_header_pos p;
          work_source = (if should_propagate_work_source ts then calling_work_source_uid ts
                         else UNSET_WORK_SOURCE)
      in andThen (write_word work_source p) (\<lambda>_ p.
           andThen (if sdk_at_least_30 then write_word INTERFACE_HEADER p else (Ok (), p)) (\<lambda>_ p.
             serialize_str interface p)))"

text \<open>\<open>thread_state::check_interface\<close>; \<open>oneway\<close> is the \<open>FLAG_ONEWAY\<close> bit of the current
  transaction.\<close>

definition on_parcel :: "(parcel \<Rightarrow> 'a result \<times> parcel) \<Rightarrow> parcel \<times> 't \<Rightarrow> 'a result \<times> (parcel \<times> 't)" where
  "on_parcel f s = (case f (fst s) of (r, p) \<Rightarrow> (r, (p, snd s)))"

definition check_interface ::
    "bool \<Rightarrow> bool \<Rightarrow> scalar list \<Rightarrow> parcel \<times> token_state \<Rightarrow> bool result \<times> (parcel \<times> token_state)" where
  "check_interface sdk_at_least_30 oneway descriptor s =
    andThen (on_parcel read_word s) (\<lambda>strict_policy (p, ts).
      let strict_policy = (if oneway then 0 else strict_policy);
          ts = ts\<lparr>strict_mode_policy := strict_policy\<rparr>;
          p = update_work_source_request_header_pos p
      in andThen (on_parcel read_word (p, ts)) (\<lambda>work_source (p, ts).
        let ts = ts\<lparr>calling_work_source_uid := work_source\<rparr>
        in andThen (if sdk_at_least_30 then on_parcel read_word (p, ts) else (Ok INTERFACE_HEADER, (p, ts)))
          (\<lambda>header s.
            if header \<noteq> INTERFACE_HEADER then (Ok False, s)
            else andThen (on_parcel deserialize_str s) (\<lambda>parcel_interface s.
              (Ok (parcel_interface = descriptor), s)))))"

end
