(* ===== verification/Parcel_Codec.thy ===== *)
theory Parcel_Codec
  imports Parcelable
begin

text \<open>
  The contract between a \<open>Serialize\<close> and a \<open>Deserialize\<close> implementation as a locale, what it gives
  to every type that implements it (round trip, options, arrays, nullable arrays, fixed-size arrays
  and sized blocks), and its interpretation on the implementations of \<open>parcelable.rs\<close>.
\<close>

section \<open>The contract\<close>

text \<open>\<open>enc x\<close> are the bytes of \<open>x\<close> on the wire; \<open>valid x\<close> the values the codec supports;
  \<open>nesting x\<close> how many sized blocks reading \<open>x\<close> opens inside each other.\<close>

locale parcel_codec =
  fixes ser :: "'a \<Rightarrow> parcel \<Rightarrow> unit result \<times> parcel"
    and de :: "parcel \<Rightarrow> 'a result \<times> parcel"
    and enc :: "'a \<Rightarrow> byte list"
    and valid :: "'a \<Rightarrow> bool"
    and nesting :: "'a \<Rightarrow> nat"
  assumes ser_enc: "valid x \<Longrightarrow> at_end p \<Longrightarrow> plen p + length (enc x) \<le> i32_max \<Longrightarrow>
      ser x p = (Ok (), emit (enc x) p)"
    and de_enc: "valid x \<Longrightarrow> ready p (enc x) \<Longrightarrow> nested_read_depth p + nesting x \<le> MAX_NESTED_READ_DEPTH \<Longrightarrow>
      de p = (Ok x, advance (length (enc x)) p)"
begin

text \<open>Writing at the end, rewinding to where the write started, and reading gives the value back and
  leaves the cursor where the write left it.\<close>

lemma roundtrip:
  assumes "valid x" "at_end p" "plen p + length (enc x) \<le> i32_max" "length (enc x) < i32_max"
    "nested_read_depth p + nesting x \<le> MAX_NESTED_READ_DEPTH"
  shows "ser x p = (Ok (), emit (enc x) p) \<and>
    de (set_data_position (ppos p) (emit (enc x) p)) = (Ok x, emit (enc x) p)"
proof -
  have pos: "ppos p = plen p" using assms(2) by (simp add: at_end_def)
  have "de (set_data_position (plen p) (emit (enc x) p)) =
      (Ok x, advance (length (enc x)) (set_data_position (plen p) (emit (enc x) p)))"
    using assms by (intro de_enc ready_emit) (simp_all add: set_data_position_def emit_def)
  moreover have "advance (length (enc x)) (set_data_position (plen p) (emit (enc x) p)) = emit (enc x) p"
    by (simp add: advance_def set_data_position_def emit_def)
  ultimately show ?thesis using ser_enc assms pos by simp
qed

lemma write_each_enc:
  "list_all valid xs \<Longrightarrow> at_end p \<Longrightarrow> plen p + length (concat (map enc xs)) \<le> i32_max \<Longrightarrow>
    write_each ser xs p = (Ok (), emit (concat (map enc xs)) p)"
proof (induction xs arbitrary: p)
  case (Cons x xs)
  then show ?case by (simp add: ser_enc)
qed (simp add: emit_Nil)

lemma read_each_enc:
  "list_all valid xs \<Longrightarrow> ready p (concat (map enc xs)) \<Longrightarrow>
    list_all (\<lambda>x. nested_read_depth p + nesting x \<le> MAX_NESTED_READ_DEPTH) xs \<Longrightarrow>
    read_each de (length xs) p = (Ok xs, advance (length (concat (map enc xs))) p)"
proof (induction xs arbitrary: p)
  case (Cons x xs)
  then have "de p = (Ok x, advance (length (enc x)) p)" by (intro de_enc) auto
  with Cons show ?case by simp
qed simp

end

section \<open>Options, arrays and sized blocks\<close>

definition enc_i32 :: "int \<Rightarrow> byte list" where
  "enc_i32 i = le_bytes (word_of_int i :: i32)"

lemma length_enc_i32 [simp]: "length (enc_i32 i) = 4"
  by (simp add: enc_i32_def)

definition enc_option :: "('a \<Rightarrow> byte list) \<Rightarrow> 'a option \<Rightarrow> byte list" where
  "enc_option enc v = (case v of Some x \<Rightarrow> enc_i32 1 @ enc x | None \<Rightarrow> enc_i32 0)"

definition enc_array :: "('a \<Rightarrow> byte list) \<Rightarrow> 'a list \<Rightarrow> byte list" where
  "enc_array enc xs = enc_i32 (int (length xs)) @ concat (map enc xs)"

definition enc_nullable :: "('a list \<Rightarrow> byte list) \<Rightarrow> 'a list option \<Rightarrow> byte list" where
  "enc_nullable enc v = (case v of Some xs \<Rightarrow> enc xs | None \<Rightarrow> enc_i32 (-1))"

definition enc_sized :: "('a \<Rightarrow> byte list) \<Rightarrow> 'a \<Rightarrow> byte list" where
  "enc_sized enc x = enc_i32 (int (4 + length (enc x))) @ enc x"

definition max_nesting :: "('a \<Rightarrow> nat) \<Rightarrow> 'a list \<Rightarrow> nat" where
  "max_nesting nesting xs = foldr (\<lambda>x. max (nesting x)) xs 0"

lemma max_nesting_ge: "x \<in> set xs \<Longrightarrow> nesting x \<le> max_nesting nesting xs"
  by (induction xs) (auto simp: max_nesting_def)

lemma write_i32_enc: "at_end p \<Longrightarrow> plen p + 4 \<le> i32_max \<Longrightarrow> write_i32 i p = (Ok (), emit (enc_i32 i) p)"
  by (simp add: write_i32_emit enc_i32_def)

lemma read_i32_enc: "ready p (enc_i32 i) \<Longrightarrow> - (2 ^ 31) \<le> i \<Longrightarrow> i < 2 ^ 31 \<Longrightarrow> read_i32 p = (Ok i, advance 4 p)"
  by (simp add: read_i32_ready enc_i32_def)

context parcel_codec
begin

lemma option_codec:
  "parcel_codec (serialize_option ser) (deserialize_option de) (enc_option enc)
     (pred_option valid) (case_option 0 nesting)"
proof
  fix v p assume "pred_option valid v" "at_end p" "plen p + length (enc_option enc v) \<le> i32_max"
  then show "serialize_option ser v p = (Ok (), emit (enc_option enc v) p)"
    by (cases v) (auto simp: serialize_option_def enc_option_def write_i32_enc ser_enc
        NON_NULL_PARCELABLE_FLAG_def NULL_PARCELABLE_FLAG_def)
next
  fix v p assume "pred_option valid v" "ready p (enc_option enc v)"
    "nested_read_depth p + case_option 0 nesting v \<le> MAX_NESTED_READ_DEPTH"
  then show "deserialize_option de p = (Ok v, advance (length (enc_option enc v)) p)"
    by (cases v) (auto simp: deserialize_option_def enc_option_def read_i32_enc de_enc
        NON_NULL_PARCELABLE_FLAG_def NULL_PARCELABLE_FLAG_def)
qed

lemma serialize_array_enc:
  assumes "list_all valid xs" "length xs \<le> i32_max" "at_end p" "plen p + length (enc_array enc xs) \<le> i32_max"
  shows "serialize_array ser xs p = (Ok (), emit (enc_array enc xs) p)"
  using assms by (simp add: serialize_array_def enc_array_def write_i32_enc write_each_enc)

lemma deserialize_array_enc:
  assumes "list_all valid xs" "length xs \<le> i32_max" "ready p (enc_array enc xs)"
    "nested_read_depth p + max_nesting nesting xs \<le> MAX_NESTED_READ_DEPTH"
  shows "deserialize_array de p = (Ok (Some xs), advance (length (enc_array enc xs)) p)"
proof -
  have r: "ready p (enc_i32 (int (length xs)))" "ready (advance 4 p) (concat (map enc xs))"
    using assms(3) by (simp_all add: enc_array_def)
  have i: "read_i32 p = (Ok (int (length xs)), advance 4 p)"
    using r(1) assms(2) by (intro read_i32_enc) auto
  have "list_all (\<lambda>x. nested_read_depth (advance 4 p) + nesting x \<le> MAX_NESTED_READ_DEPTH) xs"
    using assms(4) max_nesting_ge [of _ xs nesting] by (fastforce simp: list_all_iff)
  then have "read_each de (length xs) (advance 4 p) = (Ok xs, advance (length (concat (map enc xs))) (advance 4 p))"
    using read_each_enc assms(1) r(2) by blast
  then show ?thesis
    using ready_avail [OF r(2)] by (auto simp: deserialize_array_def i enc_array_def)
qed

lemma vec_codec:
  "parcel_codec (serialize_array ser) (deserialize_vec (deserialize_array de)) (enc_array enc)
     (\<lambda>xs. list_all valid xs \<and> length xs \<le> i32_max) (max_nesting nesting)"
  by unfold_locales
    (auto simp: serialize_array_enc deserialize_vec_def deserialize_array_enc or_unexpected_null_def)

lemma fixed_codec:
  "parcel_codec (serialize_array ser) (deserialize_fixed n (deserialize_array de)) (enc_array enc)
     (\<lambda>xs. list_all valid xs \<and> length xs \<le> i32_max \<and> length xs = n) (max_nesting nesting)"
  by unfold_locales
    (auto simp: serialize_array_enc deserialize_fixed_def deserialize_array_enc or_unexpected_null_def)

lemma nullable_codec:
  "parcel_codec (serialize_option_array (serialize_array ser)) (deserialize_array de)
     (enc_nullable (enc_array enc)) (pred_option (\<lambda>xs. list_all valid xs \<and> length xs \<le> i32_max))
     (case_option 0 (max_nesting nesting))"
proof
  fix v p assume "pred_option (\<lambda>xs. list_all valid xs \<and> length xs \<le> i32_max) v" "at_end p"
    "plen p + length (enc_nullable (enc_array enc) v) \<le> i32_max"
  then show "serialize_option_array (serialize_array ser) v p = (Ok (), emit (enc_nullable (enc_array enc) v) p)"
    by (cases v) (auto simp: serialize_option_array_def enc_nullable_def write_i32_enc serialize_array_enc)
next
  fix v p assume "pred_option (\<lambda>xs. list_all valid xs \<and> length xs \<le> i32_max) v"
    "ready p (enc_nullable (enc_array enc) v)"
    "nested_read_depth p + case_option 0 (max_nesting nesting) v \<le> MAX_NESTED_READ_DEPTH"
  then show "deserialize_array de p = (Ok v, advance (length (enc_nullable (enc_array enc) v)) p)"
    by (cases v) (auto simp: enc_nullable_def deserialize_array_enc, simp add: deserialize_array_def read_i32_enc)
qed

text \<open>A parcelable written by \<open>sized_write\<close> and read by \<open>sized_read\<close>: one more level of nesting.\<close>

lemma sized_codec:
  "parcel_codec (\<lambda>x. sized_write (ser x)) (sized_read de) (enc_sized enc)
     (\<lambda>x. valid x \<and> 4 + length (enc x) \<le> i32_max) (\<lambda>x. Suc (nesting x))"
proof
  fix x p assume x: "valid x \<and> 4 + length (enc x) \<le> i32_max" and p: "at_end p"
    and room: "plen p + length (enc_sized enc x) \<le> i32_max"
  have "ser x (emit (le_bytes (0 :: i32)) p) = (Ok (), emit (enc x) (emit (le_bytes (0 :: i32)) p))"
    using x room by (intro ser_enc) (simp_all add: enc_sized_def)
  then show "sized_write (ser x) p = (Ok (), emit (enc_sized enc x) p)"
    using sized_write_emit [OF p, of "enc x"] room by (simp add: enc_sized_def enc_i32_def)
next
  fix x p assume x: "valid x \<and> 4 + length (enc x) \<le> i32_max" and r: "ready p (enc_sized enc x)"
    and d: "nested_read_depth p + Suc (nesting x) \<le> MAX_NESTED_READ_DEPTH"
  let ?q = "enter_block (ppos p + 4 + length (enc x)) (advance 4 p)"
  have "ready (advance 4 p) (enc x)" using r by (simp add: enc_sized_def)
  then have "ready ?q (enc x)" by (simp add: ready_def enter_block_def)
  then have "de ?q = (Ok x, advance (length (enc x)) ?q)"
    using x d by (intro de_enc) (simp_all add: enter_block_def)
  then show "sized_read de p = (Ok x, advance (length (enc_sized enc x)) p)"
    using sized_read_block [of p "enc x" de x] r x d by (simp add: enc_sized_def enc_i32_def)
qed

end

section \<open>Primitives\<close>

lemma word_codec:
  assumes "4 dvd LENGTH('a::len) div 8" "8 dvd LENGTH('a)"
  shows "parcel_codec (write_word :: 'a word \<Rightarrow> _) read_word le_bytes (\<lambda>_. True) (\<lambda>_. 0)"
  by unfold_locales (use assms in \<open>simp_all add: write_word_emit read_word_ready length_le_bytes\<close>)

interpretation w32: parcel_codec "write_word :: 32 word \<Rightarrow> _" read_word le_bytes "\<lambda>_. True" "\<lambda>_. 0"
  by (rule word_codec) simp_all

interpretation w64: parcel_codec "write_word :: 64 word \<Rightarrow> _" read_word le_bytes "\<lambda>_. True" "\<lambda>_. 0"
  by (rule word_codec) simp_all

interpretation w128: parcel_codec "write_word :: 128 word \<Rightarrow> _" read_word le_bytes "\<lambda>_. True" "\<lambda>_. 0"
  by (rule word_codec) simp_all

lemma ucast_narrow [simp]:
  "ucast (scast (v :: 8 word) :: 32 word) = v" "ucast (ucast (v :: 8 word) :: 32 word) = v"
  "ucast (scast (u :: 16 word) :: 32 word) = u" "ucast (ucast (u :: 16 word) :: 32 word) = u"
  by (rule bit_word_eqI, auto simp: bit_simps)+

interpretation i8: parcel_codec serialize_i8 deserialize_narrow "\<lambda>v. le_bytes (scast v :: i32)" "\<lambda>_. True" "\<lambda>_. 0"
  by unfold_locales (simp_all add: serialize_i8_def deserialize_narrow_def w32.ser_enc w32.de_enc)

interpretation u8: parcel_codec serialize_u8 deserialize_narrow "\<lambda>v. le_bytes (ucast v :: i32)" "\<lambda>_. True" "\<lambda>_. 0"
  by unfold_locales (simp_all add: serialize_u8_def deserialize_narrow_def w32.ser_enc w32.de_enc)

interpretation i16: parcel_codec serialize_i16 deserialize_narrow "\<lambda>v. le_bytes (scast v :: i32)" "\<lambda>_. True" "\<lambda>_. 0"
  by unfold_locales (simp_all add: serialize_i16_def deserialize_narrow_def w32.ser_enc w32.de_enc)

interpretation u16: parcel_codec serialize_u16 deserialize_narrow "\<lambda>v. le_bytes (ucast v :: u32)" "\<lambda>_. True" "\<lambda>_. 0"
  by unfold_locales (simp_all add: serialize_u16_def deserialize_narrow_def w32.ser_enc w32.de_enc)

definition enc_bool :: "bool \<Rightarrow> byte list" where
  "enc_bool b = le_bytes ((if b then 1 else 0) :: i32)"

interpretation bool: parcel_codec serialize_bool deserialize_bool enc_bool "\<lambda>_. True" "\<lambda>_. 0"
proof
  fix b p assume "at_end p" "plen p + length (enc_bool b) \<le> i32_max"
  then show "serialize_bool b p = (Ok (), emit (enc_bool b) p)"
    by (simp add: serialize_bool_def enc_bool_def w32.ser_enc)
next
  fix b p assume "ready p (enc_bool b)" "nested_read_depth p + 0 \<le> MAX_NESTED_READ_DEPTH"
  then show "deserialize_bool p = (Ok b, advance (length (enc_bool b)) p)"
    by (cases b) (simp_all add: deserialize_bool_def enc_bool_def w32.de_enc)
qed

section \<open>Strings\<close>

lemma encode_utf16_units: "list_all is_scalar s \<Longrightarrow> u \<in> set (encode_utf16 s) \<Longrightarrow> u < 2 ^ 16"
proof (induction s)
  case (Cons c s)
  then show ?case by (auto simp: encode_utf16_def is_scalar_def split: if_splits)
qed (simp add: encode_utf16_def)

lemma from_utf16_encode: "list_all is_scalar s \<Longrightarrow> from_utf16 (encode_utf16 s) = Some s"
proof (induction s)
  case (Cons c s)
  let ?h = "0xD800 + (c - 0x10000) div 0x400" and ?l = "0xDC00 + (c - 0x10000) mod 0x400"
  have ih: "from_utf16 (encode_utf16 s) = Some s" and c: "is_scalar c" using Cons by auto
  show ?case
  proof (cases "c < 0x10000")
    case True
    then show ?thesis using c ih by (auto simp: encode_utf16_def is_scalar_def)
  next
    case False
    then have "(c - 0x10000) div 0x400 < 0x400" using c by (auto simp: is_scalar_def)
    moreover have "0x10000 + (c - 0x10000) div 0x400 * 0x400 + (c - 0x10000) mod 0x400 = c"
      using False by presburger
    ultimately show ?thesis using False ih by (simp add: encode_utf16_def)
  qed
qed (simp add: encode_utf16_def)

lemma length_u16_bytes [simp]: "length (u16_bytes us) = 2 * length us"
  by (simp add: u16_bytes_def length_concat_const)

lemma u16_bytes_append [simp]: "u16_bytes (us @ vs) = u16_bytes us @ u16_bytes vs"
  by (simp add: u16_bytes_def)

lemma chunks_u16_bytes:
  assumes "\<forall>u \<in> set us. u < 2 ^ 16"
  shows "map (\<lambda>c. unat (of_le_bytes c :: u16)) (chunks_exact 2 (u16_bytes us)) = us"
proof -
  have "chunks_exact 2 (u16_bytes us) = map (\<lambda>u. le_bytes (word_of_nat u :: u16)) us"
    unfolding u16_bytes_def by (rule chunks_exact_concat) simp_all
  then show ?thesis using assms by (simp add: o_def unsigned_of_nat take_bit_nat_eq_self map_idI)
qed

definition enc_str :: "scalar list \<Rightarrow> byte list" where
  "enc_str s = enc_i32 (int (length (encode_utf16 s))) @ padded (u16_bytes (encode_utf16 s @ [0]))"

definition enc_option_str :: "scalar list option \<Rightarrow> byte list" where
  "enc_option_str v = (case v of Some s \<Rightarrow> enc_str s | None \<Rightarrow> enc_i32 (-1))"

lemma serialize_option_str_enc:
  "at_end p \<Longrightarrow> plen p + length (enc_option_str v) \<le> i32_max \<Longrightarrow>
    serialize_option_str v p = (Ok (), emit (enc_option_str v) p)"
  by (cases v) (simp_all add: serialize_option_str_def enc_option_str_def enc_str_def write_i32_enc
      write_aligned_data_emit Let_def)

lemma deserialize_option_str_Some:
  assumes s: "list_all is_scalar s" and r: "ready p (enc_str s)"
  shows "deserialize_option_str p = (Ok (Some s), advance (length (enc_str s)) p)"
proof -
  let ?us = "encode_utf16 s" let ?n = "length ?us" let ?bs = "u16_bytes (?us @ [0])"
  have r1: "ready p (enc_i32 (int ?n))" and r2: "ready (advance 4 p) (padded ?bs)"
    using r by (simp_all add: enc_str_def)
  have n: "2 * (?n + 1) < i32_max"
    using r2 pad_size_bounds(1) [of "2 * (?n + 1)"] by (simp add: ready_def) linarith
  have i: "read_i32 p = (Ok (int ?n), advance 4 p)" using r1 n by (intro read_i32_enc) auto
  have lay: "checked_array_layout 64 (int ?n + 1) 2 = Ok (length ?bs, pad_size (length ?bs))"
    using n by (subst checked_array_layout_eq) (auto simp: nat_add_distrib algebra_simps)
  have d: "read_aligned_data (length ?bs) (advance 4 p) = (Ok ?bs, advance (pad_size (length ?bs)) (advance 4 p))"
    by (rule read_aligned_data_padded [OF r2])
  have h: "slice_index ?bs 0 (?n * 2) = (Ok (u16_bytes ?us) :: byte list result)"
    by (simp add: slice_index_def slice_get_def mult.commute)
  have "from_utf16 (map (\<lambda>c. unat (of_le_bytes c :: u16)) (chunks_exact 2 (u16_bytes ?us))) = Some s"
    using encode_utf16_units [OF s] from_utf16_encode [OF s] by (simp add: chunks_u16_bytes)
  then show ?thesis
    using n d lay h by (simp add: deserialize_option_str_def i enc_str_def)
qed

interpretation option_str: parcel_codec serialize_option_str deserialize_option_str enc_option_str
    "pred_option (list_all is_scalar)" "\<lambda>_. 0"
proof
  fix v p assume "pred_option (list_all is_scalar) v" "ready p (enc_option_str v)"
  then show "deserialize_option_str p = (Ok v, advance (length (enc_option_str v)) p)"
    by (cases v) (auto simp: enc_option_str_def deserialize_option_str_Some,
        simp add: deserialize_option_str_def read_i32_enc)
qed (simp add: serialize_option_str_enc)

interpretation str: parcel_codec serialize_str deserialize_str enc_str "list_all is_scalar" "\<lambda>_. 0"
  by unfold_locales (simp_all add: serialize_str_def deserialize_str_def or_unexpected_null_def
      deserialize_option_str_Some serialize_option_str_enc [of _ "Some _", unfolded enc_option_str_def, simplified])

section \<open>Raw and character arrays\<close>

definition enc_raw :: "'a::len word list \<Rightarrow> byte list" where
  "enc_raw xs = enc_i32 (int (length xs)) @ padded (concat (map le_bytes xs))"

lemma length_concat_le_bytes [simp]:
  "length (concat (map le_bytes (xs :: 'a::len word list))) = LENGTH('a) div 8 * length xs"
  by (simp add: length_concat_const length_le_bytes)

lemma serialize_array_raw_enc:
  assumes "length xs \<le> i32_max" "at_end p" "plen p + length (enc_raw xs) \<le> i32_max"
  shows "serialize_array_raw xs p = (Ok (), emit (enc_raw xs) p)"
proof (cases "xs = []")
  case True
  then show ?thesis
    using assms by (simp add: serialize_array_raw_def write_array_def enc_raw_def write_i32_enc padded_def)
next
  case False
  have "write_i32 (int (length xs)) p = (Ok (), emit (enc_i32 (int (length xs))) p)"
    using assms by (simp add: write_i32_enc enc_raw_def)
  moreover have "write_aligned_data (concat (map le_bytes xs)) (emit (enc_i32 (int (length xs))) p) =
      (Ok (), emit (enc_raw xs) p)"
    using assms(3) by (subst write_aligned_data_emit) (simp_all add: enc_raw_def)
  ultimately show ?thesis
    using False assms(1) by (simp add: serialize_array_raw_def write_array_def Let_def)
qed

lemma deserialize_array_raw_enc:
  assumes n: "0 < LENGTH('a) div 8" "LENGTH('a) div 8 \<le> 2 ^ 16" "8 dvd LENGTH('a)"
    and len: "length (xs :: 'a::len word list) \<le> i32_max" and r: "ready p (enc_raw xs)"
  shows "deserialize_array_raw p = (Ok (Some xs), advance (length (enc_raw xs)) p)"
proof -
  let ?k = "LENGTH('a) div 8" let ?bs = "concat (map le_bytes xs)"
  have r1: "ready p (enc_i32 (int (length xs)))" and r2: "ready (advance 4 p) (padded ?bs)"
    using r by (simp_all add: enc_raw_def)
  have i: "read_i32 p = (Ok (int (length xs)), advance 4 p)"
    using r1 len by (intro read_i32_enc) auto
  show ?thesis
  proof (cases "xs = []")
    case True
    then show ?thesis using i by (simp add: deserialize_array_raw_def read_array_def enc_raw_def padded_def)
  next
    case False
    have "length xs * ?k \<le> i32_max * 2 ^ 16" using len n(2) by (intro mult_le_mono) auto
    then have lay: "checked_array_layout 64 (int (length xs)) ?k = Ok (length ?bs, pad_size (length ?bs))"
      using False len by (subst checked_array_layout_eq) (auto simp: mult.commute Suc_le_eq)
    have sl: "slice_get (pbytes p) (ppos p + 4) (ppos p + 4 + length ?bs) = Some ?bs"
    proof -
      have "take (length ?bs) (drop (ppos p + 4) (pbytes p)) =
          take (length ?bs) (take (length (padded ?bs)) (drop (ppos p + 4) (pbytes p)))"
        by (simp add: min_absorb1 pad_size_bounds(1))
      also have "\<dots> = ?bs" using r2 by (simp add: ready_def take_padded del: length_padded length_concat_le_bytes)
      finally show ?thesis
        using r2 pad_size_bounds(1) [of "length ?bs"]
        by (simp add: slice_get_def ready_def pd_len_def del: length_concat_le_bytes)
    qed
    have "chunks_exact ?k ?bs = map le_bytes xs"
      using n(1) by (intro chunks_exact_concat) (simp_all add: length_le_bytes)
    then have dec: "map of_le_bytes (chunks_exact ?k ?bs) = xs"
      using n(3) by (simp add: of_le_bytes_le_bytes o_def map_idI)
    have av: "data_avail (advance 4 p) = Ok (plen p - (ppos p + 4))" "pad_size (length ?bs) \<le> plen p - (ppos p + 4)"
      using ready_avail [OF r2] by (simp_all del: length_concat_le_bytes)
    show ?thesis
      using False sl dec av lay
      by (simp add: deserialize_array_raw_def read_array_def i enc_raw_def set_data_position_def
          advance_def del: length_concat_le_bytes)
  qed
qed

lemma raw_nullable_codec:
  assumes "0 < LENGTH('a::len) div 8" "LENGTH('a) div 8 \<le> 2 ^ 16" "8 dvd LENGTH('a)"
  shows "parcel_codec (serialize_option_array serialize_array_raw)
    (deserialize_array_raw :: parcel \<Rightarrow> 'a word list option result \<times> parcel)
    (enc_nullable enc_raw) (pred_option (\<lambda>xs. length xs \<le> i32_max)) (\<lambda>_. 0)"
proof
  fix v :: "'a word list option" and p
  assume "pred_option (\<lambda>xs. length xs \<le> i32_max) v" "at_end p"
    "plen p + length (enc_nullable enc_raw v) \<le> i32_max"
  then show "serialize_option_array serialize_array_raw v p = (Ok (), emit (enc_nullable enc_raw v) p)"
    by (cases v) (auto simp: serialize_option_array_def enc_nullable_def write_i32_enc serialize_array_raw_enc)
next
  fix v :: "'a word list option" and p
  assume "pred_option (\<lambda>xs. length xs \<le> i32_max) v" "ready p (enc_nullable enc_raw v)"
  then show "deserialize_array_raw p = (Ok v, advance (length (enc_nullable enc_raw v)) p)"
    using deserialize_array_raw_enc [OF assms]
    by (cases v) (auto simp: enc_nullable_def,
        simp add: deserialize_array_raw_def read_array_def read_i32_enc)
qed

interpretation raw8: parcel_codec "serialize_option_array serialize_array_raw"
    "deserialize_array_raw :: parcel \<Rightarrow> 8 word list option result \<times> parcel"
    "enc_nullable enc_raw" "pred_option (\<lambda>xs. length xs \<le> i32_max)" "\<lambda>_. 0"
  by (rule raw_nullable_codec) simp_all

interpretation raw32: parcel_codec "serialize_option_array serialize_array_raw"
    "deserialize_array_raw :: parcel \<Rightarrow> 32 word list option result \<times> parcel"
    "enc_nullable enc_raw" "pred_option (\<lambda>xs. length xs \<le> i32_max)" "\<lambda>_. 0"
  by (rule raw_nullable_codec) simp_all

interpretation raw64: parcel_codec "serialize_option_array serialize_array_raw"
    "deserialize_array_raw :: parcel \<Rightarrow> 64 word list option result \<times> parcel"
    "enc_nullable enc_raw" "pred_option (\<lambda>xs. length xs \<le> i32_max)" "\<lambda>_. 0"
  by (rule raw_nullable_codec) simp_all

definition enc_chars :: "('a \<Rightarrow> int) \<Rightarrow> 'a list \<Rightarrow> byte list" where
  "enc_chars as_i32 xs = enc_i32 (int (length xs)) @ concat (map (\<lambda>x. enc_i32 (as_i32 x)) xs)"

lemma length_concat_enc_i32 [simp]: "length (concat (map (\<lambda>x. enc_i32 (f x)) xs)) = 4 * length xs"
  by (simp add: length_concat_const)

lemma write_i32s_enc:
  "at_end p \<Longrightarrow> plen p + 4 * length is \<le> i32_max \<Longrightarrow>
    write_i32s is p = (Ok (), emit (concat (map enc_i32 is)) p)"
  by (induction "is" arbitrary: p) (simp_all add: emit_Nil write_i32_enc)

lemma write_array_char_enc:
  assumes "length xs \<le> i32_max" "at_end p" "plen p + length (enc_chars f xs) \<le> i32_max"
  shows "write_array_char f xs p = (Ok (), emit (enc_chars f xs) p)"
proof -
  let ?q = "emit (enc_i32 (int (length xs))) p"
  have "write_i32 (int (length xs)) p = (Ok (), ?q)"
    using assms by (simp add: write_i32_enc enc_chars_def)
  moreover have "write_i32s (map f xs) ?q = (Ok (), emit (enc_chars f xs) p)"
    using assms(3) by (subst write_i32s_enc) (simp_all add: enc_chars_def o_def)
  moreover have "is_vec (pdata ?q)" "ppos ?q = plen p + 4" by (simp_all add: emit_def)
  ultimately show ?thesis
    using assms(1,3) by (simp add: write_array_char_def Let_def enc_chars_def)
qed

lemma read_array_char_enc:
  assumes len: "length xs \<le> i32_max" and r: "ready p (enc_chars f xs)"
    and inv: "\<And>x. from (f x) = x" and rng: "\<And>x. - (2 ^ 31) \<le> f x \<and> f x < 2 ^ 31"
  shows "read_array_char from p = (Ok (Some xs), advance (length (enc_chars f xs)) p)"
proof -
  let ?bs = "concat (map (\<lambda>x. enc_i32 (f x)) xs)"
  have r1: "ready p (enc_i32 (int (length xs)))" and r2: "ready (advance 4 p) ?bs"
    using r by (simp_all add: enc_chars_def)
  have i: "read_i32 p = (Ok (int (length xs)), advance 4 p)"
    using r1 len by (intro read_i32_enc) auto
  show ?thesis
  proof (cases "xs = []")
    case True
    then show ?thesis using i by (simp add: read_array_char_def enc_chars_def)
  next
    case False
    have lay: "checked_array_layout 64 (int (length xs)) 4 = Ok (4 * length xs, 4 * length xs)"
      using False len by (subst checked_array_layout_eq) (auto simp: mult.commute Suc_le_eq)
    have sl: "slice_index (pbytes p) (ppos p + 4) (ppos p + 4 + 4 * length xs) = (Ok ?bs :: byte list result)"
      using r2 by (simp add: slice_index_def slice_get_def ready_def pd_len_def)
    have ch: "chunks_exact 4 ?bs = map (\<lambda>x. enc_i32 (f x)) xs"
      by (rule chunks_exact_concat) simp_all
    have "from (sint (of_le_bytes (enc_i32 (f x)) :: i32)) = x" for x
      using rng [of x] by (simp add: enc_i32_def signed_of_int signed_take_bit_int_eq_self inv)
    then have dec: "map (\<lambda>c. from (sint (of_le_bytes c :: i32))) (chunks_exact 4 ?bs) = xs"
      by (simp add: ch o_def)
    have av: "data_avail (advance 4 p) = Ok (plen p - (ppos p + 4))" "4 * length xs \<le> plen p - (ppos p + 4)"
      using ready_avail [OF r2] by simp_all
    show ?thesis
      using False lay av dec
      by (simp add: read_array_char_def i sl enc_chars_def set_data_position_def advance_def)
  qed
qed

lemma char_range: "- (2 ^ 31) \<le> sint (x :: 16 word) \<and> sint x < 2 ^ 31"
  "- (2 ^ 31) \<le> uint (x :: 16 word) \<and> uint x < 2 ^ 31"
proof -
  have "- (2 ^ 15) \<le> sint x" "sint x < 2 ^ 15"
    using sint_greater_eq [of x] sint_less [of x] by simp_all
  then show "- (2 ^ 31) \<le> sint x \<and> sint x < 2 ^ 31" by simp
  have "uint x < 2 ^ 16" "0 \<le> uint x" using unsigned_less [of x, where ?'a = int] by simp_all
  then show "- (2 ^ 31) \<le> uint x \<and> uint x < 2 ^ 31" by (auto intro: order_trans [of _ 0])
qed

lemma char_nullable_codec:
  assumes "\<And>x. word_of_int (f x) = x" "\<And>x. - (2 ^ 31) \<le> f x \<and> f x < 2 ^ 31"
  shows "parcel_codec (serialize_option_array (write_array_char f)) deserialize_array_16
    (enc_nullable (enc_chars f)) (pred_option (\<lambda>xs. length xs \<le> i32_max)) (\<lambda>_. 0)"
proof
  fix v :: "16 word list option" and p
  assume "pred_option (\<lambda>xs. length xs \<le> i32_max) v" "at_end p"
    "plen p + length (enc_nullable (enc_chars f) v) \<le> i32_max"
  then show "serialize_option_array (write_array_char f) v p = (Ok (), emit (enc_nullable (enc_chars f) v) p)"
    by (cases v) (auto simp: serialize_option_array_def enc_nullable_def write_i32_enc write_array_char_enc)
next
  fix v :: "16 word list option" and p
  assume v: "pred_option (\<lambda>xs. length xs \<le> i32_max) v" and r: "ready p (enc_nullable (enc_chars f) v)"
  show "deserialize_array_16 p = (Ok v, advance (length (enc_nullable (enc_chars f) v)) p)"
  proof (cases v)
    case None
    then show ?thesis
      using r by (simp add: enc_nullable_def deserialize_array_16_def read_array_char_def read_i32_enc)
  next
    case (Some xs)
    then show ?thesis
      using r v read_array_char_enc [of xs p f word_of_int, OF _ _ assms]
      by (simp add: enc_nullable_def deserialize_array_16_def)
  qed
qed

interpretation chars_i16: parcel_codec "serialize_option_array serialize_array_i16" deserialize_array_16
    "enc_nullable (enc_chars sint)" "pred_option (\<lambda>xs. length xs \<le> i32_max)" "\<lambda>_. 0"
  using char_nullable_codec [of sint] char_range(1)
  by (simp add: serialize_array_i16_def [abs_def])

interpretation chars_u16: parcel_codec "serialize_option_array serialize_array_u16" deserialize_array_16
    "enc_nullable (enc_chars uint)" "pred_option (\<lambda>xs. length xs \<le> i32_max)" "\<lambda>_. 0"
  using char_nullable_codec [of uint] char_range(2)
  by (simp add: serialize_array_u16_def [abs_def])

section \<open>Decoding arbitrary bytes\<close>

text \<open>\<open>safe_read d p\<close>: on parcel \<open>p\<close> the decoder \<open>d\<close> does not panic, leaves the bytes and the object
  table alone, and leaves the cursor between where it was and the end of the data.\<close>

definition safe_read :: "(parcel \<Rightarrow> 'a result \<times> parcel) \<Rightarrow> parcel \<Rightarrow> bool" where
  "safe_read d p \<longleftrightarrow> (case d p of (r, q) \<Rightarrow> r \<noteq> Panic \<and> pdata q = pdata p \<and> pobjects q = pobjects p \<and>
     ppos p \<le> ppos q \<and> (ppos q = ppos p \<or> ppos q \<le> plen p))"

lemma safe_read_andThen:
  assumes "safe_read d p"
    and "\<And>a q. d p = (Ok a, q) \<Longrightarrow> pdata q = pdata p \<Longrightarrow> pobjects q = pobjects p \<Longrightarrow> ppos p \<le> ppos q \<Longrightarrow>
      safe_read (f a) q"
  shows "safe_read (\<lambda>p. andThen (d p) f) p"
proof -
  obtain r q where dp: "d p = (r, q)" by fastforce
  have q: "r \<noteq> Panic" "pdata q = pdata p" "pobjects q = pobjects p" "ppos p \<le> ppos q"
    "ppos q = ppos p \<or> ppos q \<le> plen p"
    using assms(1) by (simp_all add: safe_read_def dp)
  show ?thesis
  proof (cases r)
    case (Ok a)
    then have "safe_read (f a) q" using assms(2) dp q by simp
    then show ?thesis using Ok q dp by (auto simp: safe_read_def)
  qed (use q dp in \<open>auto simp: safe_read_def\<close>)
qed

lemma safe_read_pure: "r \<noteq> Panic \<Longrightarrow> safe_read (\<lambda>p. (r, p)) p"
  by (simp add: safe_read_def)

lemma safe_read_if: "safe_read (\<lambda>p. if c then f p else g p) q = (if c then safe_read f q else safe_read g q)"
  by simp

lemma safe_read_aligned:
  assumes "0 < n" "plen p - ppos p < i32_max"
  shows "safe_read (read_aligned_data n) p"
  using assms pad_size_bounds(1) [of n]
  by (auto simp: safe_read_def read_aligned_data_def Let_def data_avail_def slice_index_def slice_get_def pd_len_def)

lemma safe_read_i32: "plen p - ppos p < i32_max \<Longrightarrow> safe_read read_i32 p"
  unfolding read_i32_def read_word_def
  by (intro safe_read_andThen safe_read_aligned safe_read_pure) simp_all

lemma safe_str_tail:
  assumes len: "0 \<le> len" "len < int i32_max" and avail: "plen q - ppos q < i32_max"
  shows "safe_read (\<lambda>p. andThen (checked_array_layout 64 (len + 1) 2, p) (\<lambda>(byte_count, _) p.
      andThen (read_aligned_data byte_count p) (\<lambda>data p.
        andThen (slice_index data 0 (nat len * 2), p) (\<lambda>head p.
          case from_utf16 (map (\<lambda>c. unat (of_le_bytes c :: u16)) (chunks_exact 2 head)) of
            Some res \<Rightarrow> (Ok (Some res), p) | None \<Rightarrow> (Err BadValue, p))))) q"
proof -
  let ?n = "nat (len + 1) * 2"
  have lay: "checked_array_layout 64 (len + 1) 2 = Ok (?n, pad_size ?n)"
    using len by (subst checked_array_layout_eq) auto
  have n: "nat len * 2 \<le> ?n" "0 < ?n" using len by auto
  show ?thesis
    unfolding lay andThen.simps prod.case
  proof (rule safe_read_andThen)
    show "safe_read (read_aligned_data ?n) q" using n avail by (intro safe_read_aligned) auto
  next
    fix data s assume "read_aligned_data ?n q = (Ok data, s)"
    then have "length data = ?n" using read_aligned_data_outcome by blast
    then have "slice_index data 0 (nat len * 2) = (Ok (take (nat len * 2) data) :: byte list result)"
      using n by (simp add: slice_index_def slice_get_def)
    then show "safe_read (\<lambda>p. andThen (slice_index data 0 (nat len * 2), p) (\<lambda>head p.
        case from_utf16 (map (\<lambda>c. unat (of_le_bytes c :: u16)) (chunks_exact 2 head)) of
          Some res \<Rightarrow> (Ok (Some res), p) | None \<Rightarrow> (Err BadValue, p))) s"
      by (simp add: safe_read_def split: option.split)
  qed
qed

lemma safe_deserialize_option_str:
  assumes "plen p - ppos p < i32_max"
  shows "safe_read deserialize_option_str p"
  unfolding deserialize_option_str_def [abs_def]
proof (rule safe_read_andThen [OF safe_read_i32 [OF assms]])
  fix len and q :: parcel assume "pdata q = pdata p" "ppos p \<le> ppos q"
  then have avail: "plen q - ppos q < i32_max" using assms by simp
  show "safe_read (\<lambda>p. if len = -1 then (Ok None, p)
      else if 0 \<le> len \<and> len < int i32_max then
        andThen (checked_array_layout 64 (len + 1) 2, p) (\<lambda>(byte_count, _) p.
          andThen (read_aligned_data byte_count p) (\<lambda>data p.
            andThen (slice_index data 0 (nat len * 2), p) (\<lambda>head p.
              case from_utf16 (map (\<lambda>c. unat (of_le_bytes c :: u16)) (chunks_exact 2 head)) of
                Some res \<Rightarrow> (Ok (Some res), p) | None \<Rightarrow> (Err BadValue, p))))
      else (Err UnexpectedNull, p)) q"
    unfolding safe_read_if using safe_str_tail [OF _ _ avail, of len] by (auto intro: safe_read_pure)
qed

lemma safe_array_tail:
  assumes "0 < len" "plen q - ppos q < i32_max"
  shows "safe_read (\<lambda>p. andThen (checked_array_layout 64 len n, p) (\<lambda>(size_b, padded) p.
        andThen (data_avail p, p) (\<lambda>avail p.
          if padded > avail then (Err NotEnoughData, p)
          else let pos = ppos p in
            case slice_get (pbytes p) pos (pos + size_b) of
              None \<Rightarrow> (Err NotEnoughData, p)
            | Some data_slice \<Rightarrow>
                (Ok (Some (map dec (chunks_exact n data_slice))), set_data_position (pos + padded) p)))) q"
proof (cases "checked_array_layout 64 len n")
  case (Ok lay)
  then show ?thesis
    using assms by (cases lay) (auto simp: safe_read_def data_avail_def set_data_position_def Let_def
        split: option.split)
next
  case Panic
  then show ?thesis by (simp add: checked_array_layout_def Let_def split: if_splits)
qed (simp add: safe_read_def)

lemma safe_read_array:
  assumes "plen p - ppos p < i32_max"
  shows "safe_read (read_array n dec) p"
  unfolding read_array_def [abs_def]
proof (rule safe_read_andThen [OF safe_read_i32 [OF assms]])
  fix len and q :: parcel assume "pdata q = pdata p" "ppos p \<le> ppos q"
  then have avail: "plen q - ppos q < i32_max" using assms by simp
  show "safe_read (\<lambda>p. if len < -1 then (Err UnexpectedNull, p)
      else if len = -1 then (Ok None, p)
      else if len = 0 then (Ok (Some []), p)
      else andThen (checked_array_layout 64 len n, p) (\<lambda>(size_b, padded) p.
        andThen (data_avail p, p) (\<lambda>avail p.
          if padded > avail then (Err NotEnoughData, p)
          else let pos = ppos p in
            case slice_get (pbytes p) pos (pos + size_b) of
              None \<Rightarrow> (Err NotEnoughData, p)
            | Some data_slice \<Rightarrow>
                (Ok (Some (map dec (chunks_exact n data_slice))), set_data_position (pos + padded) p)))) q"
    unfolding safe_read_if using safe_array_tail [of len q n dec, OF _ avail]
    by (auto intro: safe_read_pure)
qed

section \<open>Properties\<close>

text \<open>a string survives the trip through a parcel: every sequence of Unicode scalar values,
  written at the end of a parcel with room and read back from where the write started, is returned
  unchanged, and the reader stops exactly where the writer did.\<close>

theorem string_roundtrip:
  assumes "list_all is_scalar s" and "at_end p" and "plen p + length (enc_str s) < i32_max"
    and "nested_read_depth p \<le> MAX_NESTED_READ_DEPTH"
  shows "\<exists>q. serialize_str s p = (Ok (), q) \<and> deserialize_str (set_data_position (ppos p) q) = (Ok s, q) \<and>
    pbytes q = pbytes p @ enc_str s"
  using str.roundtrip [of s p] assms by (intro exI [of _ "emit (enc_str s) p"]) auto

theorem string_roundtrip_witness:
  "\<exists>q. serialize_str [65, 0x1F600] parcel_new = (Ok (), q) \<and>
     deserialize_str (set_data_position 0 q) = (Ok [65, 0x1F600], q)"
  using string_roundtrip [of "[65, 0x1F600]" parcel_new]
  by (auto simp: is_scalar_def at_end_def parcel_new_def pd_len_def enc_str_def encode_utf16_def
      pad_size_eq)

abbreviation ser_strings :: "scalar list option list option \<Rightarrow> parcel \<Rightarrow> unit result \<times> parcel" where
  "ser_strings \<equiv> serialize_option_array (serialize_array serialize_option_str)"

abbreviation de_strings :: "parcel \<Rightarrow> scalar list option list option result \<times> parcel" where
  "de_strings \<equiv> deserialize_array deserialize_option_str"

abbreviation enc_strings :: "scalar list option list option \<Rightarrow> byte list" where
  "enc_strings \<equiv> enc_nullable (enc_array enc_option_str)"

abbreviation valid_strings :: "scalar list option list option \<Rightarrow> bool" where
  "valid_strings \<equiv> pred_option (\<lambda>xs. list_all (pred_option (list_all is_scalar)) xs \<and> length xs \<le> i32_max)"

lemmas strings_codec = option_str.nullable_codec
lemmas records_codec = parcel_codec.nullable_codec [OF parcel_codec.sized_codec [OF strings_codec]]

lemma max_nesting_const_zero: "case_option 0 (max_nesting (\<lambda>_. 0)) v = 0"
  by (cases v) (simp_all add: max_nesting_def foldr_conv_fold fold_invariant [where P = "\<lambda>n. n = (0 :: nat)" and Q = "\<lambda>_. True"])

lemma max_nesting_one: "max_nesting (\<lambda>_. Suc 0) xs \<le> 1"
  by (induction xs) (auto simp: max_nesting_def)

text \<open>C30: structured values survive too. A nullable vector of sized parcelables, each holding a
  nullable vector of nullable strings, reads back as written; null, empty and absent elements stay
  distinct, and the nesting limit is respected.\<close>

theorem parcelable_vector_roundtrip:
  assumes "pred_option (\<lambda>rs. list_all (\<lambda>r. valid_strings r \<and> 4 + length (enc_strings r) \<le> i32_max) rs \<and>
      length rs \<le> i32_max) v"
    and "at_end p" and "plen p + length (enc_nullable (enc_array (enc_sized enc_strings)) v) < i32_max"
    and "nested_read_depth p < MAX_NESTED_READ_DEPTH"
  shows "\<exists>q. serialize_option_array (serialize_array (\<lambda>r. sized_write (ser_strings r))) v p = (Ok (), q) \<and>
    deserialize_array (sized_read de_strings) (set_data_position (ppos p) q) = (Ok v, q)"
proof -
  have n: "case_option 0 (max_nesting (\<lambda>r. Suc (case_option 0 (max_nesting (\<lambda>_. 0)) r))) v \<le> 1"
    using max_nesting_one by (cases v) (simp_all add: max_nesting_const_zero)
  then show ?thesis
    using parcel_codec.roundtrip [OF records_codec, of v p] assms by (intro exI) (auto simp: le_simps)
qed

theorem parcelable_vector_roundtrip_witness:
  "\<exists>q. serialize_option_array (serialize_array (\<lambda>r. sized_write (ser_strings r)))
       (Some [Some [Some [72, 105], None], None]) parcel_new = (Ok (), q) \<and>
     deserialize_array (sized_read de_strings) (set_data_position 0 q) =
       (Ok (Some [Some [Some [72, 105], None], None]), q)"
  using parcelable_vector_roundtrip [of "Some [Some [Some [72, 105], None], None]" parcel_new]
  by (auto simp: is_scalar_def at_end_def parcel_new_def pd_len_def enc_nullable_def enc_array_def
      enc_sized_def enc_option_str_def enc_str_def encode_utf16_def pad_size_eq MAX_NESTED_READ_DEPTH_def)



lemma update_header_frame [simp]:
  "pdata (update_work_source_request_header_pos p) = pdata p"
  "ppos (update_work_source_request_header_pos p) = ppos p"
  "nested_read_depth (update_work_source_request_header_pos p) = nested_read_depth p"
  "at_end (update_work_source_request_header_pos p) \<longleftrightarrow> at_end p"
  "ready (update_work_source_request_header_pos p) bs \<longleftrightarrow> ready p bs"
  by (simp_all add: update_work_source_request_header_pos_def at_end_def ready_def)

lemma nested_read_depth_emit [simp]: "nested_read_depth (emit bs p) = nested_read_depth p"
  by (simp add: emit_def)

definition enc_token :: "bool \<Rightarrow> token_state \<Rightarrow> scalar list \<Rightarrow> byte list" where
  "enc_token sdk30 ts d =
    le_bytes (strict_mode_policy ts OR STRICT_MODE_PENALTY_GATHER) @
    le_bytes (if should_propagate_work_source ts then calling_work_source_uid ts else UNSET_WORK_SOURCE) @
    (if sdk30 then le_bytes INTERFACE_HEADER else []) @ enc_str d"

lemma write_interface_token_enc:
  assumes "list_all is_scalar d" "at_end p" "plen p + length (enc_token sdk30 ts d) \<le> i32_max"
  shows "\<exists>q. write_interface_token sdk30 ts d p = (Ok (), q) \<and> at_end q \<and>
    pbytes q = pbytes p @ enc_token sdk30 ts d \<and> nested_read_depth q = nested_read_depth p"
  using assms
  by (cases sdk30)
    (auto simp: write_interface_token_def w32.ser_enc str.ser_enc enc_token_def Let_def)

lemma ready_update_advance [simp]:
  "ready (advance n (update_work_source_request_header_pos p)) bs \<longleftrightarrow> ready (advance n p) bs"
  by (simp add: ready_def)

lemma check_interface_enc:
  assumes d: "list_all is_scalar d" and r: "ready p (enc_token sdk30 ts d)"
    and n: "nested_read_depth p \<le> MAX_NESTED_READ_DEPTH"
  shows "\<exists>q. check_interface sdk30 oneway d' (p, ts0) = (Ok (d = d'), (q, ts0\<lparr>
      strict_mode_policy := (if oneway then 0 else strict_mode_policy ts OR STRICT_MODE_PENALTY_GATHER),
      calling_work_source_uid := (if should_propagate_work_source ts then calling_work_source_uid ts
        else UNSET_WORK_SOURCE)\<rparr>))"
  using r n
  by (cases sdk30) (auto simp: check_interface_def on_parcel_def enc_token_def w32.de_enc str.de_enc [OF d] Let_def)



end
