(* ===== verification/Status_Wire.thy ===== *)
theory Status_Wire
  imports Parcel_Codec
begin

text \<open>
  \<open>rsbinder/src/status.rs\<close>: exception codes, the \<open>Status\<close> a method returns, its conversions, and its
  encoding in a reply parcel with the optional reply headers. Exception constructors carry the
  prefix \<open>Ex\<close>, since \<open>ServiceSpecific\<close> is also a status code.
\<close>

section \<open>Definitions\<close>

datatype ExceptionCode =
    ExNone | ExSecurity | ExBadParcelable | ExIllegalArgument | ExNullPointer | ExIllegalState
  | ExNetworkMainThread | ExUnsupportedOperation | ExServiceSpecific | ExParcelable
  | ExHasNotedAppOpsReplyHeader | ExHasReplyHeader | ExTransactionFailed | ExJustError

fun ex_i32 :: "ExceptionCode \<Rightarrow> int" where
  "ex_i32 ExNone = 0" | "ex_i32 ExSecurity = -1" | "ex_i32 ExBadParcelable = -2"
| "ex_i32 ExIllegalArgument = -3" | "ex_i32 ExNullPointer = -4" | "ex_i32 ExIllegalState = -5"
| "ex_i32 ExNetworkMainThread = -6" | "ex_i32 ExUnsupportedOperation = -7"
| "ex_i32 ExServiceSpecific = -8" | "ex_i32 ExParcelable = -9"
| "ex_i32 ExHasNotedAppOpsReplyHeader = -127" | "ex_i32 ExHasReplyHeader = -128"
| "ex_i32 ExTransactionFailed = -129" | "ex_i32 ExJustError = -256"

definition serialize_exception :: "ExceptionCode \<Rightarrow> parcel \<Rightarrow> unit result \<times> parcel" where
  "serialize_exception e p = write_i32 (ex_i32 e) p"

definition exception_of_i32 :: "int \<Rightarrow> ExceptionCode" where
  "exception_of_i32 exception =
    (if exception = ex_i32 ExNone then ExNone
     else if exception = ex_i32 ExSecurity then ExSecurity
     else if exception = ex_i32 ExBadParcelable then ExBadParcelable
     else if exception = ex_i32 ExIllegalArgument then ExIllegalArgument
     else if exception = ex_i32 ExNullPointer then ExNullPointer
     else if exception = ex_i32 ExIllegalState then ExIllegalState
     else if exception = ex_i32 ExNetworkMainThread then ExNetworkMainThread
     else if exception = ex_i32 ExUnsupportedOperation then ExUnsupportedOperation
     else if exception = ex_i32 ExServiceSpecific then ExServiceSpecific
     else if exception = ex_i32 ExParcelable then ExParcelable
     else if exception = ex_i32 ExHasNotedAppOpsReplyHeader then ExHasNotedAppOpsReplyHeader
     else if exception = ex_i32 ExHasReplyHeader then ExHasReplyHeader
     else if exception = ex_i32 ExTransactionFailed then ExTransactionFailed
     else ExJustError)"

definition deserialize_exception :: "parcel \<Rightarrow> ExceptionCode result \<times> parcel" where
  "deserialize_exception p = andThen (read_i32 p) (\<lambda>i p. (Ok (exception_of_i32 i), p))"

record Status =
  st_code :: StatusCode
  st_exception :: ExceptionCode
  st_message :: "scalar list option"

text \<open>\<open>PartialEq\<close> ignores the message.\<close>

definition status_eq :: "Status \<Rightarrow> Status \<Rightarrow> bool" where
  "status_eq a b \<longleftrightarrow> st_code a = st_code b \<and> st_exception a = st_exception b"

definition status_new :: "ExceptionCode \<Rightarrow> StatusCode \<Rightarrow> scalar list option \<Rightarrow> Status" where
  "status_new exception status message = \<lparr>st_code = status, st_exception = exception, st_message = message\<rparr>"

definition new_service_specific_error :: "int \<Rightarrow> scalar list option \<Rightarrow> Status" where
  "new_service_specific_error err message = status_new ExServiceSpecific (ServiceSpecific err) message"

definition status_is_ok :: "Status \<Rightarrow> bool" where
  "status_is_ok s \<longleftrightarrow> st_exception s = ExNone"

definition transaction_error :: "Status \<Rightarrow> StatusCode" where
  "transaction_error s = (if st_exception s = ExTransactionFailed then st_code s else StatusOk)"

definition service_specific_error :: "Status \<Rightarrow> int" where
  "service_specific_error s = (case st_code s of ServiceSpecific err \<Rightarrow> err | _ \<Rightarrow> 0)"

fun StatusCode_of_exception :: "ExceptionCode \<Rightarrow> StatusCode" where
  "StatusCode_of_exception ExTransactionFailed = FailedTransaction"
| "StatusCode_of_exception _ = StatusOk"

definition StatusCode_of_Status :: "Status \<Rightarrow> StatusCode" where
  "StatusCode_of_Status s =
    (if st_code s = StatusOk \<and> st_exception s \<noteq> ExNone then FailedTransaction else st_code s)"

fun exception_of_StatusCode :: "StatusCode \<Rightarrow> ExceptionCode" where
  "exception_of_StatusCode StatusOk = ExNone"
| "exception_of_StatusCode UnexpectedNull = ExNullPointer"
| "exception_of_StatusCode (ServiceSpecific _) = ExServiceSpecific"
| "exception_of_StatusCode _ = ExTransactionFailed"

definition Status_of_exception :: "ExceptionCode \<Rightarrow> Status" where
  "Status_of_exception e = status_new e (StatusCode_of_exception e) None"

definition Status_of_exception_msg :: "ExceptionCode \<Rightarrow> scalar list \<Rightarrow> Status" where
  "Status_of_exception_msg e m = status_new e (StatusCode_of_exception e) (Some m)"

definition Status_of_StatusCode :: "StatusCode \<Rightarrow> Status" where
  "Status_of_StatusCode c = status_new (exception_of_StatusCode c) c None"

definition serialize_Status :: "(errno_name \<Rightarrow> int) \<Rightarrow> Status \<Rightarrow> parcel \<Rightarrow> unit result \<times> parcel" where
  "serialize_Status E s p =
    (if st_exception s = ExTransactionFailed then (Err (st_code s), p)
     else andThen (write_i32 (ex_i32 (st_exception s)) p) (\<lambda>_ p.
       if st_exception s = ExNone then (Ok (), p)
       else andThen (serialize_str (case st_message s of Some m \<Rightarrow> m | None \<Rightarrow> []) p) (\<lambda>_ p.
         andThen (write_i32 0 p) (\<lambda>_ p.
           if st_exception s = ExServiceSpecific then write_i32 (i32_of_StatusCode E (st_code s)) p
           else if st_exception s = ExParcelable then write_i32 0 p
           else (Ok (), p)))))"

definition read_check_header_size :: "parcel \<Rightarrow> unit result \<times> parcel" where
  "read_check_header_size p =
    (let header_start = ppos p in
     andThen (data_avail p, p) (\<lambda>header_avail p.
       andThen (read_i32 p) (\<lambda>header_size p.
         if header_size < 0 then (Err Unknown, p)
         else if nat header_size > header_avail then (Err Unknown, p)
         else if header_start + nat header_size \<ge> 2 ^ 64 then (Err Unknown, p)
         else (Ok (), set_data_position (header_start + nat header_size) p))))"

text \<open>The remote stack-trace header: its size counts its own four bytes, zero means empty.\<close>

definition skip_stack_trace :: "parcel \<Rightarrow> unit result \<times> parcel" where
  "skip_stack_trace p =
    (let header_start = ppos p in
     andThen (data_avail p, p) (\<lambda>header_avail p.
       andThen (read_i32 p) (\<lambda>trace_size p.
         if trace_size < 0 then (Err Unknown, p)
         else if nat trace_size > header_avail then (Err Unknown, p)
         else if trace_size \<noteq> 0 then
           (if header_start + nat trace_size \<ge> 2 ^ 64 then (Err Unknown, p)
            else (Ok (), set_data_position (header_start + nat trace_size) p))
         else (Ok (), p))))"

definition deserialize_Status :: "parcel \<Rightarrow> Status result \<times> parcel" where
  "deserialize_Status p =
    andThen (deserialize_exception p) (\<lambda>exception p.
      andThen (if exception = ExHasNotedAppOpsReplyHeader
               then andThen (read_check_header_size p) (\<lambda>_ p. deserialize_exception p)
               else (Ok exception, p)) (\<lambda>exception p.
        andThen (if exception = ExHasReplyHeader
                 then andThen (read_check_header_size p) (\<lambda>_ p. (Ok ExNone, p))
                 else (Ok exception, p)) (\<lambda>exception p.
          if exception = ExNone then (Ok (Status_of_exception exception), p)
          else andThen (deserialize_option_str p) (\<lambda>message p.
            andThen (skip_stack_trace p) (\<lambda>_ p.
              andThen (if exception = ExServiceSpecific
                       then andThen (read_i32 p) (\<lambda>code p. (Ok (ServiceSpecific code), p))
                       else if exception = ExParcelable
                       then andThen (read_check_header_size p) (\<lambda>_ p. (Ok StatusOk, p))
                       else (Ok StatusOk, p)) (\<lambda>code p.
                (Ok (status_new exception code message), p)))))))"

text \<open>What a peer learns of a status: the exception, the service's own code, and the message with an
  absent one read as empty.\<close>

definition wire_view :: "(errno_name \<Rightarrow> int) \<Rightarrow> Status \<Rightarrow> Status" where
  "wire_view E s =
    (if st_exception s = ExNone then Status_of_exception ExNone
     else status_new (st_exception s)
       (if st_exception s = ExServiceSpecific then ServiceSpecific (i32_of_StatusCode E (st_code s)) else StatusOk)
       (Some (case st_message s of Some m \<Rightarrow> m | None \<Rightarrow> [])))"

definition enc_Status :: "(errno_name \<Rightarrow> int) \<Rightarrow> Status \<Rightarrow> byte list" where
  "enc_Status E s =
    enc_i32 (ex_i32 (st_exception s)) @
    (if st_exception s = ExNone then []
     else enc_str (case st_message s of Some m \<Rightarrow> m | None \<Rightarrow> []) @ enc_i32 0 @
       (if st_exception s = ExServiceSpecific then enc_i32 (i32_of_StatusCode E (st_code s))
        else if st_exception s = ExParcelable then enc_i32 0 else []))"

section \<open>Lemmas\<close>

lemma ex_i32_range: "- (2 ^ 31) \<le> ex_i32 e \<and> ex_i32 e < 2 ^ 31"
  by (cases e) simp_all

lemma exception_of_ex_i32 [simp]: "exception_of_i32 (ex_i32 e) = e"
  by (cases e) (simp_all add: exception_of_i32_def)

lemma deserialize_exception_enc:
  "ready p (enc_i32 (ex_i32 e)) \<Longrightarrow> deserialize_exception p = (Ok e, advance 4 p)"
  using ex_i32_range [of e] by (simp add: deserialize_exception_def read_i32_enc)

lemma serialize_Status_enc:
  assumes "st_exception s \<noteq> ExTransactionFailed" "at_end p" "plen p + length (enc_Status E s) \<le> i32_max"
    "pred_option (list_all is_scalar) (st_message s)"
  shows "serialize_Status E s p = (Ok (), emit (enc_Status E s) p)"
proof -
  have "list_all is_scalar (case st_message s of Some m \<Rightarrow> m | None \<Rightarrow> [])"
    using assms(4) by (cases "st_message s") simp_all
  then show ?thesis
    using assms(1-3) by (auto simp: serialize_Status_def enc_Status_def write_i32_enc str.ser_enc)
qed

lemma skip_stack_trace_empty:
  "ready p (enc_i32 0) \<Longrightarrow> skip_stack_trace p = (Ok (), advance 4 p)"
  using ready_avail [of p "enc_i32 0"] by (auto simp: skip_stack_trace_def read_i32_enc)

text \<open>A zero size counts nothing, not even itself: the cursor returns to the size word.\<close>

lemma read_check_header_size_zero:
  "ready p (enc_i32 0) \<Longrightarrow> read_check_header_size p = (Ok (), p)"
  using ready_avail [of p "enc_i32 0"]
  by (auto simp: read_check_header_size_def read_i32_enc set_data_position_def advance_def ready_def)

lemma deserialize_Status_enc:
  assumes e: "st_exception s \<notin> {ExTransactionFailed, ExHasNotedAppOpsReplyHeader, ExHasReplyHeader}"
    and m: "pred_option (list_all is_scalar) (st_message s)"
    and c: "- (2 ^ 31) \<le> i32_of_StatusCode E (st_code s)" "i32_of_StatusCode E (st_code s) < 2 ^ 31"
    and r: "ready p (enc_Status E s)" and d: "nested_read_depth p \<le> MAX_NESTED_READ_DEPTH"
  shows "deserialize_Status p = (Ok (wire_view E s),
    advance (length (enc_Status E s) - (if st_exception s = ExParcelable then 4 else 0)) p)"
proof -
  let ?e = "st_exception s" and ?m = "case st_message s of Some m \<Rightarrow> m | None \<Rightarrow> []"
  have r0: "ready p (enc_i32 (ex_i32 ?e))" using r by (simp add: enc_Status_def)
  have x: "deserialize_exception p = (Ok ?e, advance 4 p)" by (rule deserialize_exception_enc [OF r0])
  show ?thesis
  proof (cases "?e = ExNone")
    case True
    then show ?thesis using x by (simp add: deserialize_Status_def wire_view_def enc_Status_def)
  next
    case False
    let ?n = "length (enc_str ?m)"
    have r1: "ready (advance 4 p) (enc_str ?m)" "ready (advance (4 + ?n) p) (enc_i32 0)"
      using r False by (simp_all add: enc_Status_def)
    have sc: "list_all is_scalar ?m" using m by (cases "st_message s") simp_all
    have msg: "deserialize_option_str (advance 4 p) = (Ok (Some ?m), advance (4 + ?n) p)"
      using deserialize_option_str_Some [OF sc r1(1)] by simp
    have st: "skip_stack_trace (advance (4 + ?n) p) = (Ok (), advance (8 + ?n) p)"
      using skip_stack_trace_empty [OF r1(2)] by (simp add: add.commute)
    consider "?e = ExServiceSpecific" | "?e = ExParcelable" | "?e \<noteq> ExServiceSpecific" "?e \<noteq> ExParcelable"
      by blast
    then show ?thesis
    proof cases
      case 1
      then have "ready (advance (8 + ?n) p) (enc_i32 (i32_of_StatusCode E (st_code s)))"
        using r by (simp add: enc_Status_def add.commute)
      then have "read_i32 (advance (8 + ?n) p) = (Ok (i32_of_StatusCode E (st_code s)), advance (12 + ?n) p)"
        using c by (simp add: read_i32_enc add.commute)
      then show ?thesis
        using 1 x msg st by (simp add: deserialize_Status_def wire_view_def enc_Status_def)
    next
      case 2
      then have "ready (advance (8 + ?n) p) (enc_i32 0)"
        using r by (simp add: enc_Status_def add.commute)
      then show ?thesis
        using 2 x msg st read_check_header_size_zero [of "advance (8 + ?n) p"]
        by (simp add: deserialize_Status_def wire_view_def enc_Status_def)
    next
      case 3
      then show ?thesis
        using e False x msg st by (simp add: deserialize_Status_def wire_view_def enc_Status_def)
    qed
  qed
qed

section \<open>Properties\<close>

text \<open>C35: a method's failure crosses the wire intact. Every status except a low-level transaction
  failure or one that names a reply header is written, read back with the same exception, the
  service's own error code and the message (an absent message as the empty one). The reader ends
  where the writer did, except for a parcelable exception, whose empty header is not consumed: there
  the cursor stays on the header word, four bytes short.\<close>

theorem status_roundtrip:
  assumes "st_exception s \<notin> {ExTransactionFailed, ExHasNotedAppOpsReplyHeader, ExHasReplyHeader}"
    and "pred_option (list_all is_scalar) (st_message s)"
    and "- (2 ^ 31) \<le> i32_of_StatusCode E (st_code s)" and "i32_of_StatusCode E (st_code s) < 2 ^ 31"
    and "at_end p" and "plen p + length (enc_Status E s) < i32_max"
    and "nested_read_depth p \<le> MAX_NESTED_READ_DEPTH"
  shows "\<exists>q. serialize_Status E s p = (Ok (), q) \<and>
    deserialize_Status (set_data_position (ppos p) q) = (Ok (wire_view E s),
      set_data_position (if st_exception s = ExParcelable then ppos q - 4 else ppos q) q)"
proof -
  let ?q = "emit (enc_Status E s) p"
  have w: "serialize_Status E s p = (Ok (), ?q)" using assms by (intro serialize_Status_enc) auto
  have r: "ready (set_data_position (plen p) ?q) (enc_Status E s)"
    using assms(6) by (intro ready_emit) simp_all
  have "deserialize_Status (set_data_position (plen p) ?q) = (Ok (wire_view E s),
      advance (length (enc_Status E s) - (if st_exception s = ExParcelable then 4 else 0))
        (set_data_position (plen p) ?q))"
    using deserialize_Status_enc [OF assms(1-4) r] assms(7) by (simp add: set_data_position_def emit_def)
  moreover have "4 \<le> length (enc_Status E s)" by (simp add: enc_Status_def)
  ultimately show ?thesis
    using w assms(5) by (auto simp: at_end_def set_data_position_def advance_def emit_def)
qed

theorem status_roundtrip_witness:
  "\<exists>q r. serialize_Status linux_errno (new_service_specific_error (-3) (Some [98, 97, 100])) parcel_new = (Ok (), q) \<and>
     deserialize_Status (set_data_position 0 q) = (Ok (new_service_specific_error (-3) (Some [98, 97, 100])), r)"
  using status_roundtrip [of "new_service_specific_error (-3) (Some [98, 97, 100])" linux_errno parcel_new]
  by (auto simp: new_service_specific_error_def status_new_def is_scalar_def at_end_def parcel_new_def
      pd_len_def enc_Status_def enc_str_def encode_utf16_def pad_size_eq wire_view_def)

text \<open>a status never loses its failure on the way to a status code: converting to a status code gives
  \<open>Ok\<close> only for a status without an exception, and converting a code to a status and back is the
  identity.\<close>

theorem status_conversions:
  "(StatusCode_of_Status s = StatusOk \<longrightarrow> status_is_ok s) \<and>
   StatusCode_of_Status (Status_of_StatusCode c) = c \<and>
   (status_is_ok (Status_of_StatusCode c) \<longleftrightarrow> c = StatusOk)"
  by (cases c) (auto simp: StatusCode_of_Status_def status_is_ok_def Status_of_StatusCode_def status_new_def
      split: if_splits)

theorem status_conversions_witness:
  "StatusCode_of_Status (Status_of_exception ExNone) = StatusOk \<and> status_is_ok (Status_of_exception ExNone)"
  using status_conversions [of "Status_of_exception ExNone"]
  by (simp add: StatusCode_of_Status_def Status_of_exception_def status_new_def)

end
