(* ===== verification/Parcel_Objects.thy ===== *)
theory Parcel_Objects
  imports Parcel_Codec
begin

text \<open>
  Objects in parcels: \<open>write_object\<close>, \<open>append_from\<close>, \<open>release_objects\<close>, \<open>close_file_descriptors\<close> and
  \<open>Drop\<close> of \<open>rsbinder/src/parcel.rs\<close>, and the (de)serialization of object references in
  \<open>parcelable.rs\<close>. The receiver is the parcel together with the process state \<open>obj_env\<close>.
\<close>

section \<open>Definitions\<close>

type_synonym 'p pstate = "parcel \<times> 'p obj_env"

definition on_env :: "('p obj_env \<Rightarrow> 'a result \<times> 'p obj_env) \<Rightarrow> 'p pstate \<Rightarrow> 'a result \<times> 'p pstate" where
  "on_env f s = (case f (snd s) of (r, e) \<Rightarrow> (r, (fst s, e)))"

definition push_object :: "nat \<Rightarrow> 'p pstate \<Rightarrow> unit result \<times> 'p pstate" where
  "push_object off s =
    (case pd_push (pobjects (fst s)) off of
       Some os \<Rightarrow> (Ok (), ((fst s)\<lparr>pobjects := os\<rparr>, snd s))
     | None \<Rightarrow> (Panic, s))"

definition write_object ::
    "'p kernel_ops \<Rightarrow> flat_binder_object \<Rightarrow> bool \<Rightarrow> 'p pstate \<Rightarrow> unit result \<times> 'p pstate" where
  "write_object K obj null_meta s =
    (if is_for_rpc (fst s) then on_parcel (write_aligned_data (flat_bytes obj)) s
     else let data_pos = ppos (fst s) in
       andThen (on_parcel (write_aligned_data (flat_bytes obj)) s) (\<lambda>_ s.
         if null_meta \<or> fbo_pointer obj \<noteq> 0
         then andThen (on_env (fbo_acquire K obj) s) (\<lambda>_ s. push_object data_pos s)
         else (Ok (), s)))"

text \<open>\<open>release_objects\<close>: objects that cannot be read and errors of \<open>release\<close> are logged and skipped.\<close>

fun release_each ::
    "'p kernel_ops \<Rightarrow> byte list \<Rightarrow> nat list \<Rightarrow> 'p obj_env \<Rightarrow> 'p obj_env" where
  "release_each K data [] env = env"
| "release_each K data (pos # ps) env =
    release_each K data ps
      (case read_flat_binder data pos of Ok obj \<Rightarrow> snd (fbo_release K obj env) | _ \<Rightarrow> env)"

definition release_objects :: "'p kernel_ops \<Rightarrow> 'p pstate \<Rightarrow> 'p obj_env" where
  "release_objects K s =
    (if is_for_rpc (fst s) then snd s
     else if pd_len (pobjects (fst s)) = 0 then snd s
     else release_each K (pbytes (fst s)) (as_slice (pobjects (fst s))) (snd s))"

text \<open>\<open>Drop\<close>: a driver-owned buffer goes back to the driver by \<open>free\<close>, whose failure is logged.\<close>

definition parcel_drop ::
    "'p kernel_ops \<Rightarrow> (nat \<Rightarrow> parcel \<Rightarrow> 'p obj_env \<Rightarrow> unit result \<times> 'p obj_env) \<Rightarrow> 'p pstate \<Rightarrow> 'p obj_env" where
  "parcel_drop K free s =
    (case free_buffer (fst s) of
       Some fb \<Rightarrow> snd (free fb (fst s) (snd s))
     | None \<Rightarrow> release_objects K s)"

fun close_each :: "byte list \<Rightarrow> nat list \<Rightarrow> 'p obj_env \<Rightarrow> 'p obj_env" where
  "close_each data [] env = env"
| "close_each data (off # os) env =
    close_each data os
      (case read_flat_binder data off of
         Ok obj \<Rightarrow> if hdr_type obj = BINDER_TYPE_FD
                   then env\<lparr>env_closed := fbo_handle obj # env_closed env\<rparr> else env
       | _ \<Rightarrow> env)"

definition close_file_descriptors :: "'p pstate \<Rightarrow> 'p obj_env" where
  "close_file_descriptors s =
    (if is_for_rpc (fst s) then snd s
     else close_each (pbytes (fst s)) (as_slice (pobjects (fst s))) (snd s))"

text \<open>The scan of the source's object table in \<open>append_from\<close>: first and last index of an object that
  lies inside \<open>[offset, offset + n)\<close>, from \<open>-1\<close> and \<open>-2\<close>. Offsets are \<open>u64\<close>.\<close>

fun scan_objects :: "nat list \<Rightarrow> nat \<Rightarrow> nat \<Rightarrow> int \<Rightarrow> int \<Rightarrow> int \<Rightarrow> int \<times> int" where
  "scan_objects [] offset n i first_idx last_idx = (first_idx, last_idx)"
| "scan_objects (off # os) offset n i first_idx last_idx =
    (if off \<ge> offset \<and> (off + FLAT_SIZE) mod 2 ^ 64 \<le> offset + n
     then scan_objects os offset n (i + 1) (if first_idx = -1 then i else first_idx) i
     else scan_objects os offset n (i + 1) first_idx last_idx)"

text \<open>One object of the copied range: acquire it, give a descriptor its own duplicate, and only then
  commit the relocated offset.\<close>

definition dup_fd :: "'p kernel_ops \<Rightarrow> flat_binder_object \<Rightarrow> 'p obj_env \<Rightarrow> u32 result \<times> 'p obj_env" where
  "dup_fd K flat e = (case kx_dupfd K (fbo_handle flat) (env_kernel e) of (r, k) \<Rightarrow> (r, e\<lparr>env_kernel := k\<rparr>))"

definition patch_object :: "nat \<Rightarrow> flat_binder_object \<Rightarrow> 'p pstate \<Rightarrow> unit result \<times> 'p pstate" where
  "patch_object off flat s =
    (case write_flat_binder (pbytes (fst s)) off flat of
       (r, data) \<Rightarrow>
         (r, ((fst s)\<lparr>pdata := (case pdata (fst s) of Vec _ \<Rightarrow> Vec data | Slice _ \<Rightarrow> Slice data)\<rparr>, snd s)))"

definition acquire_object ::
    "'p kernel_ops \<Rightarrow> nat \<Rightarrow> 'p pstate \<Rightarrow> unit result \<times> 'p pstate" where
  "acquire_object K off s =
    andThen (read_flat_binder (pbytes (fst s)) off, s) (\<lambda>flat s.
      andThen (on_env (fbo_acquire K flat) s) (\<lambda>_ s.
        if hdr_type flat = BINDER_TYPE_FD then
          andThen (on_env (dup_fd K flat) s) (\<lambda>newfd s.
            patch_object off (set_cookie 1 (set_handle newfd flat)) s)
        else (Ok (), s)))"

definition adopt_object ::
    "'p kernel_ops \<Rightarrow> nat \<Rightarrow> 'p pstate \<Rightarrow> unit result \<times> 'p pstate" where
  "adopt_object K off s = andThen (acquire_object K off s) (\<lambda>_ s. push_object off s)"

fun adopt_each :: "'p kernel_ops \<Rightarrow> nat list \<Rightarrow> 'p pstate \<Rightarrow> unit result \<times> 'p pstate" where
  "adopt_each K [] s = (Ok (), s)"
| "adopt_each K (off # os) s = andThen (adopt_object K off s) (\<lambda>_ s. adopt_each K os s)"

text \<open>\<open>src - offset + start_pos\<close> in \<open>usize\<close> arithmetic.\<close>

definition relocate :: "usize \<Rightarrow> usize \<Rightarrow> nat \<Rightarrow> usize" where
  "relocate offset start_pos off = (off + 2 ^ 64 - offset + start_pos) mod 2 ^ 64"

definition append_from ::
    "'p kernel_ops \<Rightarrow> parcel \<Rightarrow> usize \<Rightarrow> usize \<Rightarrow> 'p pstate \<Rightarrow> unit result \<times> 'p pstate" where
  "append_from K other offset n s =
    (let p = fst s; other_len = plen other in
     if n = 0 then (Ok (), s)
     else if n > i32_max then (Err BadValue, s)
     else if offset > other_len \<or> n > other_len \<or> offset + n > other_len then (Err BadValue, s)
     else let start_pos = ppos p;
              (first_idx, last_idx) = scan_objects (as_slice (pobjects other)) offset n 0 (-1) (-2);
              num_objects = last_idx - first_idx + 1;
              end_pos = ppos p + n
       in if end_pos > i32_max then (Err BadValue, s)
          else case pdata p of
            Slice _ \<Rightarrow> (Panic, s)
          | Vec v \<Rightarrow>
              (let p1 = set_data_position end_pos
                     (p\<lparr>pdata := Vec (splice v (ppos p) (take n (drop offset (pbytes other))))\<rparr>);
                   s1 = (p1, snd s)
               in if num_objects > 0 \<and> \<not> is_for_rpc p1 then
                    (if is_vec (pobjects p1)
                     then adopt_each K
                       (map (relocate offset start_pos)
                         (take (nat num_objects) (drop (nat first_idx) (as_slice (pobjects other))))) s1
                     else (Panic, s1))
                  else (Ok (), s1)))"

definition append_all_from :: "'p kernel_ops \<Rightarrow> parcel \<Rightarrow> 'p pstate \<Rightarrow> unit result \<times> 'p pstate" where
  "append_all_from K other s = append_from K other 0 (data_size other) s"

subsection \<open>Object references\<close>

text \<open>The session hooks \<open>RpcParcelOps\<close>, by the session that is attached.\<close>

record 'p rpc_hooks =
  hook_write_binder :: "nat \<Rightarrow> SIBinder option \<Rightarrow> 'p pstate \<Rightarrow> unit result \<times> 'p pstate"
  hook_read_binder :: "nat \<Rightarrow> 'p pstate \<Rightarrow> SIBinder option result \<times> 'p pstate"

definition set_parceled :: "SIBinder \<Rightarrow> 'p obj_env \<Rightarrow> 'p obj_env" where
  "set_parceled b env =
    (case b of NativeBinder arc _ \<Rightarrow> env\<lparr>env_parceled := arc # env_parceled env\<rparr> | ProxyBinder _ \<Rightarrow> env)"

definition serialize_option_SIBinder ::
    "'p kernel_ops \<Rightarrow> 'p rpc_hooks \<Rightarrow> nat option \<Rightarrow> bool \<Rightarrow> bool \<Rightarrow> (SIBinder \<Rightarrow> Stability) \<Rightarrow>
     SIBinder option \<Rightarrow> 'p pstate \<Rightarrow> unit result \<times> 'p pstate" where
  "serialize_option_SIBinder K H sdk sdk_at_least_30 bg_disabled stability this s =
    (if is_for_rpc (fst s) then
       (case prpc (fst s) of
          Some r \<Rightarrow> (case rf_ops r of Some ops \<Rightarrow> hook_write_binder H ops this s | None \<Rightarrow> (Err BadType, s))
        | None \<Rightarrow> (Err BadType, s))
     else case this of
       Some b \<Rightarrow>
         (let (flat, nt) = flat_of_SIBinder bg_disabled b (env_natives (snd s));
              s = (fst s, (snd s)\<lparr>env_natives := nt\<rparr>)
          in andThen (write_object K flat False s) (\<lambda>_ s.
               andThen (if sdk_at_least_30
                        then on_parcel (write_word (i32_of_Stability sdk (stability b))) s else (Ok (), s)) (\<lambda>_ s.
                 (Ok (), (fst s, set_parceled b (snd s))))))
     | None \<Rightarrow>
         andThen (write_object K flat_default False s) (\<lambda>_ s.
           if sdk_at_least_30 then on_parcel (write_word (i32_of_Stability sdk Local)) s else (Ok (), s)))"

text \<open>\<open>arc_flags\<close> gives the local flags of a published native, which the \<open>SIBinder\<close> made from its
  \<open>Arc\<close> shows.\<close>

definition deserialize_option_SIBinder ::
    "'p kernel_ops \<Rightarrow> 'p rpc_hooks \<Rightarrow> nat option \<Rightarrow> bool \<Rightarrow> (arc \<Rightarrow> u32) \<Rightarrow>
     'p pstate \<Rightarrow> SIBinder option result \<times> 'p pstate" where
  "deserialize_option_SIBinder K H sdk sdk_at_least_30 arc_flags s =
    (if is_for_rpc (fst s) then
       (case prpc (fst s) of
          Some r \<Rightarrow> (case rf_ops r of Some ops \<Rightarrow> hook_read_binder H ops s | None \<Rightarrow> (Err BadType, s))
        | None \<Rightarrow> (Err BadType, s))
     else andThen (on_parcel (read_object False) s) (\<lambda>flat s.
       andThen (if sdk_at_least_30 then on_parcel read_word s else (Ok (i32_of_Stability sdk Local), s)) (\<lambda>stability s.
         if hdr_type flat = BINDER_TYPE_BINDER then
           (if fbo_pointer flat \<noteq> 0 then
              (case lookup_native (fbo_pointer flat) (env_natives (snd s)) of
                 Some arc \<Rightarrow> (Ok (Some (NativeBinder arc (arc_flags arc))), s)
               | None \<Rightarrow> (Err DeadObject, s))
            else (Ok None, s))
         else if hdr_type flat = BINDER_TYPE_HANDLE then
           andThen (Stability_of_i32 stability, s) (\<lambda>st s.
             andThen (on_env (\<lambda>e. case kx_proxy K (fbo_handle flat) st (env_kernel e) of
                                    (r, k) \<Rightarrow> (r, e\<lparr>env_kernel := k\<rparr>)) s) (\<lambda>_ s.
               (Ok (Some (ProxyBinder (fbo_handle flat))), s)))
         else (Err BadType, s))))"

definition deserialize_SIBinder ::
    "'p kernel_ops \<Rightarrow> 'p rpc_hooks \<Rightarrow> nat option \<Rightarrow> bool \<Rightarrow> (arc \<Rightarrow> u32) \<Rightarrow>
     'p pstate \<Rightarrow> SIBinder result \<times> 'p pstate" where
  "deserialize_SIBinder K H sdk sdk_at_least_30 arc_flags s =
    andThen (deserialize_option_SIBinder K H sdk sdk_at_least_30 arc_flags s) (\<lambda>b s.
      case b of Some b \<Rightarrow> (Ok b, s) | None \<Rightarrow> (Err UnexpectedNull, s))"

section \<open>Lemmas\<close>

lemma on_parcel_simp [simp]: "f p = (r, q) \<Longrightarrow> on_parcel f (p, e) = (r, (q, e))"
  by (simp add: on_parcel_def)

lemma on_env_simp [simp]: "f e = (r, e') \<Longrightarrow> on_env f (p, e) = (r, (p, e'))"
  by (simp add: on_env_def)

lemma write_flat_emit:
  "at_end p \<Longrightarrow> plen p + FLAT_SIZE \<le> i32_max \<Longrightarrow>
    write_aligned_data (flat_bytes obj) p = (Ok (), emit (flat_bytes obj) p)"
  using write_aligned_data_emit [of p "flat_bytes obj"] by (simp add: FLAT_SIZE_def)

lemma emit_frame [simp]:
  "pobjects (emit bs p) = pobjects p" "prpc (emit bs p) = prpc p" "free_buffer (emit bs p) = free_buffer p"
  by (simp_all add: emit_def)

text \<open>Writing a native object into a kernel parcel.\<close>

lemma write_object_native:
  assumes "\<not> is_for_rpc p" "at_end p" "plen p + FLAT_SIZE \<le> i32_max" "pobjects p = Vec os"
    "hdr_type obj = BINDER_TYPE_BINDER" "fbo_pointer obj \<noteq> 0"
  shows "write_object K obj null_meta (p, env) =
    (Ok (), ((emit (flat_bytes obj) p)\<lparr>pobjects := Vec (os @ [plen p])\<rparr>,
      env\<lparr>env_natives := snd (incref_publish (fbo_pointer obj) (env_natives env))\<rparr>))"
proof -
  have "ppos p = plen p" using assms(2) by (simp add: at_end_def)
  then show ?thesis
    using assms write_flat_emit [OF assms(2,3), of obj]
    by (simp add: write_object_def fbo_acquire_def push_object_def)
qed

lemma release_each_append:
  "release_each K data (os @ ps) env = release_each K data ps (release_each K data os env)"
  by (induction os arbitrary: env) auto

definition objects_in_range :: "parcel \<Rightarrow> usize \<Rightarrow> usize \<Rightarrow> nat list" where
  "objects_in_range other offset n =
    (case scan_objects (as_slice (pobjects other)) offset n 0 (-1) (-2) of
       (first_idx, last_idx) \<Rightarrow>
         take (nat (last_idx - first_idx + 1)) (drop (nat first_idx) (as_slice (pobjects other))))"

subsection \<open>The scan finds the objects of the range\<close>

definition in_range :: "usize \<Rightarrow> usize \<Rightarrow> nat \<Rightarrow> bool" where
  "in_range offset n off \<longleftrightarrow> offset \<le> off \<and> (off + FLAT_SIZE) mod 2 ^ 64 \<le> offset + n"

definition hits :: "usize \<Rightarrow> usize \<Rightarrow> nat list \<Rightarrow> nat list" where
  "hits offset n os = filter (\<lambda>j. in_range offset n (os ! j)) [0..<length os]"

lemma hits_Cons:
  "hits offset n (x # xs) = (if in_range offset n x then [0] else []) @ map Suc (hits offset n xs)"
proof -
  have "[0..<length (x # xs)] = 0 # map Suc [0..<length xs]"
    by (simp add: map_Suc_upt upt_conv_Cons del: upt_Suc)
  then show ?thesis by (simp add: hits_def filter_map o_def)
qed

lemma scan_objects_hits:
  assumes "0 \<le> i"
  shows "scan_objects os offset n i f l =
    (let h = hits offset n os in
     (if f = -1 \<and> h \<noteq> [] then i + int (hd h) else f, if h = [] then l else i + int (last h)))"
  using assms
proof (induction os arbitrary: i f l)
  case (Cons x xs)
  show ?case
  proof (cases "in_range offset n x")
    case True
    then show ?thesis
      using Cons.IH [of "i + 1" "if f = -1 then i else f" i] Cons.prems
      by (auto simp: hits_Cons in_range_def Let_def last_map)
  next
    case False
    then show ?thesis
      using Cons.IH [of "i + 1" f l] Cons.prems
      by (auto simp: hits_Cons in_range_def Let_def last_map hd_map)
  qed
qed (simp add: hits_def)

lemma set_hits: "j \<in> set (hits offset n os) \<longleftrightarrow> j < length os \<and> in_range offset n (os ! j)"
  by (auto simp: hits_def)

lemma sorted_hits: "sorted (hits offset n os)"
  by (simp add: hits_def sorted_wrt_filter)

text \<open>A table whose offsets are increasing by at least an object and lie inside the data, as the driver
  delivers it and as \<open>write_object\<close> builds it.\<close>

definition well_placed :: "parcel \<Rightarrow> bool" where
  "well_placed p \<longleftrightarrow> sorted_wrt (\<lambda>a b. a + FLAT_SIZE \<le> b) (as_slice (pobjects p)) \<and>
    (\<forall>off \<in> set (as_slice (pobjects p)). off + FLAT_SIZE \<le> plen p) \<and> plen p < 2 ^ 64"

lemma filter_slice:
  assumes "a \<le> b" "b < length xs" "\<And>j. a \<le> j \<Longrightarrow> j \<le> b \<Longrightarrow> P (xs ! j)"
    "\<And>j. j < length xs \<Longrightarrow> j < a \<or> b < j \<Longrightarrow> \<not> P (xs ! j)"
  shows "filter P xs = take (b - a + 1) (drop a xs)"
proof -
  let ?mid = "take (b - a + 1) (drop a xs)"
  have "drop (b + 1) xs = drop (b - a + 1) (drop a xs)" using assms(1) by simp
  then have split: "xs = take a xs @ ?mid @ drop (b + 1) xs" by (simp only: append_take_drop_id)
  have "\<forall>j < length (take a xs). \<not> P (take a xs ! j)" using assms(4) by simp
  then have 1: "filter P (take a xs) = []" by (simp add: filter_empty_conv all_set_conv_all_nth)
  have "\<forall>j < length ?mid. P (?mid ! j)" using assms(1,2,3) by simp
  then have 2: "filter P ?mid = ?mid" by (simp only: filter_id_conv all_set_conv_all_nth)
  have "\<forall>j < length (drop (b + 1) xs). \<not> P (drop (b + 1) xs ! j)" using assms(4) by simp
  then have 3: "filter P (drop (b + 1) xs) = []" by (simp only: filter_empty_conv all_set_conv_all_nth)
  show ?thesis by (subst split) (simp only: filter_append 1 2 3 append_Nil append_Nil2)
qed

lemma hits_between:
  assumes "j \<in> set (hits offset n os)"
  shows "hd (hits offset n os) \<le> j" "j \<le> last (hits offset n os)"
proof -
  let ?h = "hits offset n os"
  obtain k where k: "k < length ?h" "?h ! k = j" using assms unfolding in_set_conv_nth by blast
  then have "?h \<noteq> []" by auto
  then show "hd ?h \<le> j" "j \<le> last ?h"
    using sorted_nth_mono [OF sorted_hits [of offset n os], of 0 k] k
      sorted_nth_mono [OF sorted_hits [of offset n os], of k "length ?h - 1"]
    by (simp_all add: hd_conv_nth last_conv_nth)
qed

text \<open>In such a table the slice between the first and the last object found is exactly the objects that
  lie inside the range.\<close>

lemma objects_in_range_filter:
  assumes "well_placed other"
  shows "objects_in_range other offset n =
    filter (\<lambda>off. offset \<le> off \<and> off + FLAT_SIZE \<le> offset + n) (as_slice (pobjects other))"
proof -
  let ?os = "as_slice (pobjects other)" and ?h = "hits offset n (as_slice (pobjects other))"
  let ?P = "\<lambda>off. offset \<le> off \<and> off + FLAT_SIZE \<le> offset + n"
  have mono: "?os ! i \<le> ?os ! j" if "i \<le> j" "j < length ?os" for i j
    using assms that sorted_wrt_nth_less [of "\<lambda>a b. a + FLAT_SIZE \<le> b" ?os i j]
    by (cases "i = j") (auto simp: well_placed_def)
  have P: "in_range offset n off \<longleftrightarrow> ?P off" if "off \<in> set ?os" for off
    using assms that by (force simp: well_placed_def in_range_def)
  have scan: "scan_objects ?os offset n 0 (-1) (-2) =
      (if ?h = [] then (-1, -2) else (int (hd ?h), int (last ?h)))"
    using scan_objects_hits [of 0 ?os offset n "-1" "-2"] by (simp add: Let_def)
  show ?thesis
  proof (cases "?h = []")
    case True
    have "\<not> in_range offset n off" if "off \<in> set ?os" for off
      using that True set_hits [of _ offset n ?os] by (metis in_set_conv_nth list.set(1) empty_iff)
    then have "filter ?P ?os = []" using P by (auto simp: filter_empty_conv)
    then show ?thesis using True scan by (simp add: objects_in_range_def)
  next
    case False
    define a b where "a = hd ?h" and "b = last ?h"
    have mem: "a \<in> set ?h" "b \<in> set ?h" using False by (simp_all add: a_def b_def)
    then have ab: "a < length ?os" "?P (?os ! a)" "b < length ?os" "?P (?os ! b)"
      using P [of "?os ! a"] P [of "?os ! b"] by (simp_all add: set_hits)
    have le: "a \<le> b" using hits_between(1) [OF mem(2)] by (simp add: a_def)
    have "filter ?P ?os = take (b - a + 1) (drop a ?os)"
    proof (rule filter_slice [OF le ab(3)])
      fix j assume "a \<le> j" "j \<le> b"
      then show "?P (?os ! j)" using mono [of a j] mono [of j b] ab by auto
    next
      fix j assume j: "j < length ?os" "j < a \<or> b < j"
      then have "j \<notin> set ?h" using hits_between [of j offset n ?os] by (auto simp: a_def b_def)
      then show "\<not> ?P (?os ! j)" using j P [of "?os ! j"] by (simp add: set_hits)
    qed
    moreover have "nat (int b - int a + 1) = b - a + 1" using le by simp
    ultimately show ?thesis using False scan by (simp add: objects_in_range_def a_def b_def)
  qed
qed

subsection \<open>What adopting an object does\<close>

text \<open>Adoption seen from outside the parcel: the reference is taken, and a descriptor is replaced by
  the destination's own duplicate, marked as owned. Only the state outside the parcel is threaded.\<close>

definition adopted ::
    "'p kernel_ops \<Rightarrow> flat_binder_object \<Rightarrow> 'p obj_env \<Rightarrow> flat_binder_object result \<times> 'p obj_env" where
  "adopted K flat e =
    andThen (fbo_acquire K flat e) (\<lambda>_ e.
      if hdr_type flat = BINDER_TYPE_FD
      then andThen (dup_fd K flat e) (\<lambda>newfd e. (Ok (set_cookie 1 (set_handle newfd flat)), e))
      else (Ok flat, e))"

fun adopted_all ::
    "'p kernel_ops \<Rightarrow> flat_binder_object list \<Rightarrow> 'p obj_env \<Rightarrow> flat_binder_object list result \<times> 'p obj_env" where
  "adopted_all K [] e = (Ok [], e)"
| "adopted_all K (f # fs) e =
    andThen (adopted K f e) (\<lambda>obj e. andThen (adopted_all K fs e) (\<lambda>objs e. (Ok (obj # objs), e)))"

definition apart :: "nat \<Rightarrow> nat \<Rightarrow> bool" where
  "apart a b \<longleftrightarrow> a + FLAT_SIZE \<le> b \<or> b + FLAT_SIZE \<le> a"

lemma read_flat_binder_patch:
  assumes "off + FLAT_SIZE \<le> length data"
  shows "read_flat_binder (splice data off (flat_bytes obj)) off = Ok obj"
    and "apart off j \<Longrightarrow> read_flat_binder (splice data off (flat_bytes obj)) j = read_flat_binder data j"
proof -
  have s: "splice data off (flat_bytes obj) = take off data @ flat_bytes obj @ drop (off + FLAT_SIZE) data"
    using assms by (simp add: splice_def)
  show "read_flat_binder (splice data off (flat_bytes obj)) off = Ok obj"
    unfolding s by (rule read_flat_binder_at) (use assms in simp)
  assume ap: "apart off j"
  have "take FLAT_SIZE (drop j (splice data off (flat_bytes obj))) = take FLAT_SIZE (drop j data)"
  proof (cases "j + FLAT_SIZE \<le> off")
    case True
    then show ?thesis using assms unfolding s by (simp add: drop_take)
  next
    case False
    then have "off + FLAT_SIZE \<le> j" using ap by (simp add: apart_def)
    then show ?thesis using assms unfolding s by (simp add: min_def)
  qed
  then show "read_flat_binder (splice data off (flat_bytes obj)) j = read_flat_binder data j"
    using assms by (simp add: read_flat_binder_def slice_get_def)
qed

lemma adopt_object_adopted:
  assumes rd: "read_flat_binder b off = Ok flat" and p: "pdata p = Vec b" "pobjects p = Vec os"
  shows "case adopted K flat e of
      (Ok obj, e') \<Rightarrow> \<exists>q b'. adopt_object K off (p, e) = (Ok (), (q, e')) \<and> pdata q = Vec b' \<and>
        pobjects q = Vec (os @ [off]) \<and> prpc q = prpc p \<and> read_flat_binder b' off = Ok obj \<and>
        (\<forall>j. apart off j \<longrightarrow> read_flat_binder b' j = read_flat_binder b j)
    | (Err x, e') \<Rightarrow> adopt_object K off (p, e) = (Err x, (p, e'))
    | (Panic, e') \<Rightarrow> fst (adopt_object K off (p, e)) = Panic"
proof -
  obtain r1 e1 where a: "fbo_acquire K flat e = (r1, e1)" by (meson surj_pair)
  obtain r2 e2 where d: "dup_fd K flat e1 = (r2, e2)" by (meson surj_pair)
  have len: "off + FLAT_SIZE \<le> length b" using rd by (simp add: read_flat_binder_Ok)
  note defs = adopted_def adopt_object_def acquire_object_def
  show ?thesis
  proof (cases r1)
    case (Ok u)
    show ?thesis
    proof (cases "hdr_type flat = BINDER_TYPE_FD")
      case True
      have w: "write_flat_binder b off obj = (Ok (), splice b off (flat_bytes obj))" for obj
        using len by (simp add: write_flat_binder_def slice_get_def)
      show ?thesis
        using a d Ok True rd p w read_flat_binder_patch [OF len]
        by (cases r2) (simp_all add: defs patch_object_def push_object_def)
    next
      case False
      then show ?thesis using a Ok rd p by (simp add: defs push_object_def)
    qed
  qed (use a rd p in \<open>simp_all add: defs\<close>)
qed

lemma adopt_each_adopted:
  assumes "adopt_each K offs (p, e) = (r, (q, e'))" "r \<noteq> Panic" "pdata p = Vec b" "pobjects p = Vec os"
    "sorted_wrt (\<lambda>a b. a + FLAT_SIZE \<le> b) offs"
    "list_all2 (\<lambda>off flat. read_flat_binder b off = Ok flat) offs flats"
  shows "\<exists>k objs e1 b'. k \<le> length offs \<and> adopted_all K (take k flats) e = (Ok objs, e1) \<and>
    pdata q = Vec b' \<and> pobjects q = Vec (os @ take k offs) \<and> prpc q = prpc p \<and>
    list_all2 (\<lambda>off obj. read_flat_binder b' off = Ok obj) (take k offs) objs \<and>
    (\<forall>j. (\<forall>off \<in> set offs. apart off j) \<longrightarrow> read_flat_binder b' j = read_flat_binder b j) \<and>
    (r = Ok () \<and> k = length offs \<and> e' = e1 \<or>
     (\<exists>x. r = Err x \<and> k < length offs \<and> adopted K (flats ! k) e1 = (Err x, e')))"
  using assms
proof (induction offs arbitrary: p e b os flats)
  case Nil
  then show ?case by (intro exI [of _ 0]) auto
next
  case (Cons off offs)
  obtain flat fs where f: "flats = flat # fs" "read_flat_binder b off = Ok flat"
    "list_all2 (\<lambda>off flat. read_flat_binder b off = Ok flat) offs fs"
    using Cons.prems(6) by (auto simp: list_all2_Cons1)
  have ap: "apart off o'" if "o' \<in> set offs" for o' using Cons.prems(5) that by (simp add: apart_def)
  obtain r1 e1 where a: "adopted K flat e = (r1, e1)" by (meson surj_pair)
  note ad = adopt_object_adopted [OF f(2) Cons.prems(3,4), of K e, unfolded a]
  show ?case
  proof (cases r1)
    case (Ok obj)
    obtain p1 b1 where p1: "adopt_object K off (p, e) = (Ok (), (p1, e1))" "pdata p1 = Vec b1"
      "pobjects p1 = Vec (os @ [off])" "prpc p1 = prpc p" "read_flat_binder b1 off = Ok obj"
      "\<And>j. apart off j \<Longrightarrow> read_flat_binder b1 j = read_flat_binder b j"
      using ad Ok by auto
    have rest: "adopt_each K offs (p1, e1) = (r, (q, e'))" using Cons.prems(1) p1(1) by simp
    have rd1: "list_all2 (\<lambda>off flat. read_flat_binder b1 off = Ok flat) offs fs"
      by (rule list.rel_mono_strong [OF f(3)]) (simp add: p1(6) ap)
    obtain k objs e2 b2 where k: "k \<le> length offs" "adopted_all K (take k fs) e1 = (Ok objs, e2)"
      "pdata q = Vec b2" "pobjects q = Vec ((os @ [off]) @ take k offs)" "prpc q = prpc p1"
      "list_all2 (\<lambda>off obj. read_flat_binder b2 off = Ok obj) (take k offs) objs"
      "\<forall>j. (\<forall>off \<in> set offs. apart off j) \<longrightarrow> read_flat_binder b2 j = read_flat_binder b1 j"
      "r = Ok () \<and> k = length offs \<and> e' = e2 \<or>
       (\<exists>x. r = Err x \<and> k < length offs \<and> adopted K (fs ! k) e2 = (Err x, e'))"
      using Cons.IH [OF rest Cons.prems(2) p1(2,3) _ rd1] Cons.prems(5) by auto
    have "read_flat_binder b2 off = Ok obj"
    proof -
      have "\<forall>o' \<in> set offs. apart o' off" using ap by (auto simp: apart_def)
      then show ?thesis using k(7) p1(5) by simp
    qed
    then show ?thesis
      using k a Ok f(1) p1(4,6)
      by (intro exI [of _ "Suc k"] exI [of _ "obj # objs"] exI [of _ e2] exI [of _ b2]) auto
  next
    case (Err x)
    then have "r = Err x" "q = p" "e' = e1" using ad Cons.prems(1) by auto
    then show ?thesis
      using a Err f(1) Cons.prems(3,4)
      by (intro exI [of _ 0] exI [of _ "[]"] exI [of _ e] exI [of _ b]) auto
  next
    case Panic
    then have "fst (adopt_object K off (p, e)) = Panic" using ad by simp
    then have "r = Panic" using Cons.prems(1) by (cases "adopt_object K off (p, e)") auto
    then show ?thesis using Cons.prems(2) by simp
  qed
qed

lemma read_flat_binder_copied:
  assumes "i + FLAT_SIZE \<le> length bs"
  shows "read_flat_binder (splice v pos bs) (i + pos) = Ok (flat_of_bytes (take FLAT_SIZE (drop i bs)))"
proof -
  have "splice v pos bs = take pos (v @ replicate (pos - length v) 0) @ bs @ drop (pos + length bs) v"
    by (simp add: splice_def)
  moreover have "length (take pos (v @ replicate (pos - length v) 0)) = pos" by simp
  ultimately show ?thesis using assms by (simp add: read_flat_binder_Ok)
qed

lemma release_each_reads:
  "list_all2 (\<lambda>off obj. read_flat_binder data off = Ok obj) offs objs \<Longrightarrow>
    release_each K data offs e = fold (\<lambda>obj e. snd (fbo_release K obj e)) objs e"
  by (induction offs arbitrary: objs e) (auto simp: list_all2_Cons1)

definition objects_between :: "parcel \<Rightarrow> usize \<Rightarrow> usize \<Rightarrow> nat list" where
  "objects_between other offset n =
    filter (\<lambda>off. offset \<le> off \<and> off + FLAT_SIZE \<le> offset + n) (as_slice (pobjects other))"

definition object_at :: "parcel \<Rightarrow> nat \<Rightarrow> flat_binder_object" where
  "object_at p off = flat_of_bytes (take FLAT_SIZE (drop off (pbytes p)))"

lemma relocate_in_range:
  assumes "offset \<le> off" "off + FLAT_SIZE \<le> offset + n" "pos + n \<le> i32_max"
  shows "relocate offset pos off = off - offset + pos"
proof -
  have "off - offset + pos < 2 ^ 64" using assms by (simp add: FLAT_SIZE_def)
  moreover have "off + 2 ^ 64 - offset + pos = (off - offset + pos) + 2 ^ 64" using assms(1) by simp
  ultimately show ?thesis unfolding relocate_def by (simp only: mod_add_self2 mod_less)
qed

lemma append_from_cases:
  assumes app: "append_from K other offset n (p, env) = (r, (q, env'))" and "r \<noteq> Panic"
    and "\<not> is_for_rpc p" and wp: "well_placed other"
  obtains (refused) "r = Err BadValue" "q = p" "env' = env"
    | (none) "objects_between other offset n = []" "r = Ok ()" "pobjects q = pobjects p" "env' = env"
    | (adopts) p1 v os where
      "adopt_each K (map (\<lambda>off. off - offset + ppos p) (objects_between other offset n)) (p1, env) = (r, (q, env'))"
      "pdata p1 = Vec (splice v (ppos p) (take n (drop offset (pbytes other))))" "pobjects p1 = Vec os"
      "pobjects p = Vec os" "offset + n \<le> plen other" "prpc p1 = prpc p"
proof -
  let ?offs = "objects_between other offset n"
  obtain fi li where sc: "scan_objects (as_slice (pobjects other)) offset n 0 (-1) (-2) = (fi, li)"
    by (meson surj_pair)
  have os: "take (nat (li - fi + 1)) (drop (nat fi) (as_slice (pobjects other))) = ?offs"
    using objects_in_range_filter [OF wp, of offset n] by (simp add: objects_in_range_def sc objects_between_def)
  have reloc: "map (relocate offset (ppos p)) ?offs = map (\<lambda>off. off - offset + ppos p) ?offs"
    if "ppos p + n \<le> i32_max"
    using that relocate_in_range by (auto simp: objects_between_def)
  have empty: "?offs = []" if "li - fi + 1 \<le> 0" using that os by simp
  have none0: "?offs = []" if "n = 0"
    using that by (auto simp: objects_between_def FLAT_SIZE_def filter_empty_conv)
  show ?thesis
  proof (cases "n = 0 \<or> n > i32_max \<or> offset > plen other \<or> n > plen other \<or> offset + n > plen other \<or> ppos p + n > i32_max")
    case True
    then show ?thesis using app none none0 refused by (auto simp: append_from_def Let_def sc split: if_splits)
  next
    case False
    then obtain v where v: "pdata p = Vec v"
      using app assms(2) by (cases "pdata p") (auto simp: append_from_def Let_def sc)
    let ?p1 = "set_data_position (ppos p + n) (p\<lparr>pdata := Vec (splice v (ppos p) (take n (drop offset (pbytes other))))\<rparr>)"
    show ?thesis
    proof (cases "li - fi + 1 > 0")
      case True
      have room: "ppos p + n \<le> i32_max" using False by simp
      have vec: "is_vec (pobjects p)" and ad: "adopt_each K (map (relocate offset (ppos p)) ?offs) (?p1, env) = (r, (q, env'))"
        using app assms(2,3) False v True
        by (auto simp: append_from_def Let_def sc os set_data_position_def is_for_rpc_def split: if_splits)
      then obtain os' where "pobjects p = Vec os'" by (cases "pobjects p") auto
      then show ?thesis
        using adopts [of ?p1 v os', OF ad [unfolded reloc [OF room]]] False by (simp add: set_data_position_def)
    next
      case no: False
      then have "(r, (q, env')) = (Ok (), (?p1, env))"
        using app False v by (simp add: append_from_def Let_def sc)
      then show ?thesis using none empty no by (simp add: set_data_position_def)
    qed
  qed
qed

section \<open>Properties\<close>

text \<open>C0: copying a range between parcels never leaves a half-adopted object behind. Unless the request
  is refused outright, some number k of the objects lying in the range has been adopted, in order: a
  reference taken for each, and for a descriptor a duplicate of its own; the destination's table has
  grown by the relocated offsets of exactly those k objects, and at those offsets it holds the adopted
  objects, with the duplicated descriptors. On success k is all of them; on an error the object after
  them is the one that could not be acquired or duplicated, and it is not in the table. So dropping a
  destination that listed nothing before releases exactly the k adopted objects, never a descriptor
  of the source and never a reference that was not taken. The source's objects lie inside its data
  and do not overlap, and the destination is a kernel parcel.\<close>

theorem append_from_commits_prefix:
  assumes "append_from K other offset n (p, env) = (r, (q, env'))" and "r \<noteq> Panic"
    and "\<not> is_for_rpc p" and "well_placed other" and "offs = objects_between other offset n"
  shows "r = Err BadValue \<and> (q, env') = (p, env) \<or>
    (\<exists>k objs env1. k \<le> length offs \<and>
      adopted_all K (take k (map (object_at other) offs)) env = (Ok objs, env1) \<and>
      (r = Ok () \<and> k = length offs \<and> env' = env1 \<or>
       (\<exists>x. r = Err x \<and> k < length offs \<and> adopted K (object_at other (offs ! k)) env1 = (Err x, env'))) \<and>
      as_slice (pobjects q) = as_slice (pobjects p) @ map (\<lambda>off. off - offset + ppos p) (take k offs) \<and>
      list_all2 (\<lambda>off obj. read_flat_binder (pbytes q) (off - offset + ppos p) = Ok obj) (take k offs) objs \<and>
      (as_slice (pobjects p) = [] \<longrightarrow>
        release_objects K (q, env') = fold (\<lambda>obj e. snd (fbo_release K obj e)) objs env'))"
  using assms(1-4)
proof (cases rule: append_from_cases)
  case refused
  then show ?thesis by simp
next
  case none
  then have "offs = []" using assms(5) by simp
  then show ?thesis
    using none assms(3) by (intro disjI2 exI [of _ 0] exI [of _ "[]"]) (auto simp: release_objects_def pd_len_def)
next
  case (adopts p1 v os)
  let ?b = "splice v (ppos p) (take n (drop offset (pbytes other)))"
  let ?dst = "map (\<lambda>off. off - offset + ppos p) offs"
  have offs: "offset \<le> off" "off + FLAT_SIZE \<le> offset + n" if "off \<in> set offs" for off
    using that assms(5) by (auto simp: objects_between_def)
  have spaced: "sorted_wrt (\<lambda>a b. a + FLAT_SIZE \<le> b) ?dst"
  proof -
    have "sorted_wrt (\<lambda>a b. a + FLAT_SIZE \<le> b) offs"
      using assms(4,5) by (simp add: well_placed_def objects_between_def sorted_wrt_filter)
    then show ?thesis unfolding sorted_wrt_map
      by (rule sorted_wrt_mono_rel [rotated]) (use offs in fastforce)
  qed
  have rd: "list_all2 (\<lambda>off flat. read_flat_binder ?b off = Ok flat) ?dst (map (object_at other) offs)"
  proof -
    have "read_flat_binder ?b (off - offset + ppos p) = Ok (object_at other off)" if "off \<in> set offs" for off
    proof -
      have "off - offset + FLAT_SIZE \<le> length (take n (drop offset (pbytes other)))"
        using offs [OF that] adopts(5) by (simp add: pd_len_def)
      moreover have "take FLAT_SIZE (drop (off - offset) (take n (drop offset (pbytes other)))) =
          take FLAT_SIZE (drop off (pbytes other))"
        using offs [OF that] by (simp add: drop_take)
      ultimately show ?thesis by (simp add: read_flat_binder_copied object_at_def)
    qed
    then show ?thesis by (simp add: list_all2_map1 list_all2_map2 list_all2_same)
  qed
  obtain k objs e1 b' where k: "k \<le> length ?dst" "adopted_all K (take k (map (object_at other) offs)) env = (Ok objs, e1)"
    "pdata q = Vec b'" "pobjects q = Vec (os @ take k ?dst)" "prpc q = prpc p1"
    "list_all2 (\<lambda>off obj. read_flat_binder b' off = Ok obj) (take k ?dst) objs"
    "r = Ok () \<and> k = length ?dst \<and> env' = e1 \<or>
     (\<exists>x. r = Err x \<and> k < length ?dst \<and> adopted K (map (object_at other) offs ! k) e1 = (Err x, env'))"
    using adopt_each_adopted [OF adopts(1) [folded assms(5)] assms(2) adopts(2,3) spaced rd] by blast
  have "\<not> is_for_rpc q" using k(5) adopts(6) assms(3) by (simp add: is_for_rpc_def)
  moreover have "list_all2 (\<lambda>off obj. read_flat_binder b' (off - offset + ppos p) = Ok obj) (take k offs) objs"
    using k(6) by (simp add: take_map list_all2_map1)
  ultimately show ?thesis
    using k adopts(4) release_each_reads [OF k(6), of K env']
    by (intro disjI2 exI [of _ k] exI [of _ objs] exI [of _ e1])
      (auto simp: take_map release_objects_def pd_len_def)
qed

definition null_kernel :: "unit kernel_ops" where
  "null_kernel = \<lparr>kx_increase = (\<lambda>_ k. (Ok (), k)), kx_decrease = (\<lambda>_ k. (Ok (), k)),
     kx_dupfd = (\<lambda>_ k. (Err BadFd, k)), kx_proxy = (\<lambda>_ _ k. (Ok (), k))\<rparr>"

definition demo_env :: "unit obj_env" where
  "demo_env = \<lparr>env_natives = snd (publish_native 7 native_init), env_kernel = (), env_closed = [], env_parceled = []\<rparr>"

definition demo_native_obj :: flat_binder_object where
  "demo_native_obj = (new_binder_with_flags 0)\<lparr>fbo_binder := 1\<rparr>"

definition demo_pair_parcel :: parcel where
  "demo_pair_parcel = (from_vec (flat_bytes demo_native_obj @ flat_bytes (new_with_fd 5 True)))\<lparr>pobjects := Vec [0, 24]\<rparr>"

lemma demo_pair:
  "well_placed demo_pair_parcel" "objects_between demo_pair_parcel 0 48 = [0, 24]"
  "object_at demo_pair_parcel 0 = demo_native_obj" "object_at demo_pair_parcel 24 = new_with_fd 5 True"
  "adopted null_kernel demo_native_obj e =
     (Ok demo_native_obj, e\<lparr>env_natives := snd (incref_publish 1 (env_natives e))\<rparr>)"
  "adopted null_kernel (new_with_fd 5 True) e = (Err BadFd, e)"
  by (simp_all add: well_placed_def demo_pair_parcel_def from_vec_def parcel_new_def FLAT_SIZE_def pd_len_def
      objects_between_def object_at_def adopted_def fbo_acquire_def dup_fd_def null_kernel_def new_with_fd_def
      demo_native_obj_def new_binder_with_flags_def fbo_pointer_def BINDER_TYPE_FD_def BINDER_TYPE_BINDER_def
      BINDER_TYPE_HANDLE_def)

theorem append_from_commits_prefix_witness:
  "\<exists>q env'. append_from null_kernel demo_pair_parcel 0 48 (parcel_new, demo_env) = (Err BadFd, (q, env')) \<and>
     as_slice (pobjects q) = [0] \<and>
     release_objects null_kernel (q, env') = snd (fbo_release null_kernel demo_native_obj env')"
proof -
  let ?s = "append_from null_kernel demo_pair_parcel 0 48 (parcel_new, demo_env)"
  have f: "fst ?s = Err BadFd"
    by (simp add: append_from_def demo_pair_parcel_def from_vec_def parcel_new_def pd_len_def FLAT_SIZE_def
        set_data_position_def is_for_rpc_def relocate_def adopt_object_def acquire_object_def splice_def
        read_flat_binder_def slice_get_def new_with_fd_def fbo_acquire_def on_env_def BINDER_TYPE_FD_def
        BINDER_TYPE_BINDER_def BINDER_TYPE_HANDLE_def dup_fd_def null_kernel_def demo_native_obj_def
        new_binder_with_flags_def fbo_pointer_def push_object_def)
  then obtain q env' where s: "?s = (Err BadFd, (q, env'))" by (metis prod.collapse)
  have "\<not> is_for_rpc parcel_new" by (simp add: is_for_rpc_def parcel_new_def)
  then obtain k objs env1 where k: "k \<le> 2"
      "adopted_all null_kernel (take k [demo_native_obj, new_with_fd 5 True]) demo_env = (Ok objs, env1)"
      "k < 2 \<and> adopted null_kernel (object_at demo_pair_parcel ([0, 24] ! k)) env1 = (Err BadFd, env')"
      "as_slice (pobjects q) = take k [0, 24]"
      "release_objects null_kernel (q, env') = fold (\<lambda>obj e. snd (fbo_release null_kernel obj e)) objs env'"
    using append_from_commits_prefix [OF s _ _ demo_pair(1) demo_pair(2) [symmetric]]
    by (auto simp: demo_pair parcel_new_def)
  have "k = 1" using k(3) by (cases k) (auto simp: demo_pair)
  then show ?thesis using s k by (auto simp: demo_pair)
qed

text \<open>C4: an outgoing parcel returns what it took. Writing a native object into a caller-owned kernel
  parcel and later dropping the parcel leaves every other table entry alone and gives this one its
  parcel count back, with the publishing reservation consumed; if nothing else refers to it the entry
  is removed, so nothing leaks.\<close>

theorem write_object_drop_balanced:
  assumes "\<not> is_for_rpc p" and "at_end p" and "plen p + FLAT_SIZE \<le> i32_max" and "pobjects p = Vec []"
    and "free_buffer p = None" and "hdr_type obj = BINDER_TYPE_BINDER" and "fbo_pointer obj = nid" and "nid \<noteq> 0"
    and "get_native (env_natives env) nid = Some e" and "publish_count e < u32_max"
  shows "\<exists>s. write_object K obj null_meta (p, env) = (Ok (), s) \<and>
    get_native (env_natives (parcel_drop K free s)) =
      (if publish_count e = 0 \<and> kernel_refs e = 0 \<and> pending_reservations e \<le> 1
       then (get_native (env_natives env))(nid := None)
       else (get_native (env_natives env))(nid \<mapsto> e\<lparr>pending_reservations := pending_reservations e - 1\<rparr>))"
proof -
  let ?q = "(emit (flat_bytes obj) p)\<lparr>pobjects := Vec [plen p]\<rparr>"
  let ?env = "env\<lparr>env_natives := snd (incref_publish nid (env_natives env))\<rparr>"
  have w: "write_object K obj null_meta (p, env) = (Ok (), (?q, ?env))"
    using write_object_native [of p "[]" obj K null_meta env] assms by simp
  have rd: "read_flat_binder (pbytes ?q) (plen p) = Ok obj"
    using read_flat_binder_at [of "pbytes p" "plen p" obj "[]"] by (simp add: pd_len_def)
  have "\<not> is_for_rpc ?q" "free_buffer ?q = None" using assms(1,5) by (simp_all add: is_for_rpc_def)
  then have d: "env_natives (parcel_drop K free (?q, ?env)) =
      snd (decref_publish nid (snd (incref_publish nid (env_natives env))))"
    using rd assms(6-8) by (simp add: parcel_drop_def release_objects_def pd_len_def fbo_release_def)
  let ?e = "e\<lparr>publish_count := publish_count e + 1, pending_reservations := pending_reservations e - 1\<rparr>"
  have i: "get_native (snd (incref_publish nid (env_natives env))) = (get_native (env_natives env))(nid \<mapsto> ?e)"
    using assms(9,10) by (simp add: incref_publish_def u32_wrapping_add_def)
  have "get_native (snd (decref_publish nid (snd (incref_publish nid (env_natives env))))) =
      (if publish_count e = 0 \<and> kernel_refs e = 0 \<and> pending_reservations e \<le> 1
       then (get_native (env_natives env))(nid := None)
       else (get_native (env_natives env))(nid \<mapsto> e\<lparr>pending_reservations := pending_reservations e - 1\<rparr>))"
    by (auto simp: decref_publish_def decref_publish_locked_def i get_remove_entry entry_is_zero_def)
  then show ?thesis using w d by auto
qed

theorem write_object_drop_balanced_witness:
  "\<exists>s. write_object null_kernel ((new_binder_with_flags 0)\<lparr>fbo_binder := 1\<rparr>) False (parcel_new, demo_env) = (Ok (), s) \<and>
     get_native (env_natives (parcel_drop null_kernel (\<lambda>_ _ e. (Ok (), e)) s)) 1 = None"
proof -
  have "get_native (env_natives demo_env) 1 =
      Some \<lparr>binder_pin = 7, publish_count = 0, kernel_refs = 0, pending_reservations = 0\<rparr>"
    by (simp add: demo_env_def publish_native_def native_init_def get_native_def put_native_def)
  then show ?thesis
    using write_object_drop_balanced [of parcel_new "(new_binder_with_flags 0)\<lparr>fbo_binder := 1\<rparr>" 1 demo_env
      "\<lparr>binder_pin = 7, publish_count = 0, kernel_refs = 0, pending_reservations = 0\<rparr>" null_kernel False
      "\<lambda>_ _ e. (Ok (), e)"]
    by (auto simp: parcel_new_def is_for_rpc_def at_end_def pd_len_def FLAT_SIZE_def new_binder_with_flags_def
        fbo_pointer_def)
qed

lemma publish_native_id_nonzero:
  assumes "native_wf s" "publish_native arc s = (nid, s')"
  shows "nid \<noteq> 0"
proof (cases "find (\<lambda>(_, e). binder_pin e = arc) (published_natives s)")
  case None
  then show ?thesis
    using assms native_wfD(4) [OF assms(1)] by (auto simp: publish_native_def Let_def)
next
  case (Some x)
  obtain i e where x: "x = (i, e)" by (cases x)
  then have "get_native s i = Some e"
    using find_native_Some [OF Some [unfolded x]] native_wfD(1) [OF assms(1)] by simp
  from native_wfD(3) [OF assms(1) this] show ?thesis
    using assms Some x by (auto simp: publish_native_def)
qed

lemma incref_lookup:
  "get_native s nid = Some e \<Longrightarrow> lookup_native nid (snd (incref_publish nid s)) = Some (binder_pin e)"
  by (simp add: incref_publish_def lookup_native_def)

text \<open>C2: an object reference finds its object again. A native object flattened into a fresh kernel
  parcel, delivered back to the process that published it and unflattened there, is the same
  object, at every platform version, while the writer's parcel is alive.\<close>

theorem native_reference_roundtrip:
  assumes "native_wf (env_natives env)" and "b = NativeBinder arc local"
  shows "\<exists>q env'. serialize_option_SIBinder K H sdk sdk30 bg stab (Some b) (parcel_new, env) = (Ok (), (q, env')) \<and>
    fst (deserialize_option_SIBinder K H sdk sdk30 (\<lambda>_. local)
      (from_ipc_parts (pbytes q) (as_slice (pobjects q)) fb, env')) = Ok (Some b)"
proof -
  obtain nid nt where pub: "publish_native arc (env_natives env) = (nid, nt)" by (meson surj_pair)
  obtain flags where fl: "flat_of_SIBinder bg b (env_natives env) =
      (\<lparr>hdr_type = BINDER_TYPE_BINDER, fbo_flags = flags, fbo_binder = nid, cookie = 0\<rparr>, nt)"
    using assms(2) pub by (simp add: flat_of_SIBinder_def Let_def)
  let ?obj = "\<lparr>hdr_type = BINDER_TYPE_BINDER, fbo_flags = flags, fbo_binder = nid, cookie = 0\<rparr>"
  let ?st = "le_bytes (i32_of_Stability sdk (stab b))"
  let ?p1 = "(emit (flat_bytes ?obj) parcel_new)\<lparr>pobjects := Vec [0]\<rparr>"
  let ?env1 = "env\<lparr>env_natives := snd (incref_publish nid nt)\<rparr>"
  have nz: "nid \<noteq> 0" by (rule publish_native_id_nonzero [OF assms(1) pub])
  have new: "at_end parcel_new" "\<not> is_for_rpc parcel_new" "pobjects parcel_new = Vec []" "plen parcel_new = 0"
    by (simp_all add: parcel_new_def at_end_def is_for_rpc_def pd_len_def)
  have w: "write_object K ?obj False (parcel_new, env\<lparr>env_natives := nt\<rparr>) = (Ok (), (?p1, ?env1))"
    using write_object_native [of parcel_new "[]" ?obj K False "env\<lparr>env_natives := nt\<rparr>"] new nz by (simp add: FLAT_SIZE_def fbo_pointer_def)
  have ae: "at_end ?p1" by (simp add: at_end_def emit_def pd_len_def)
  obtain q where q: "pbytes q = flat_bytes ?obj @ (if sdk30 then ?st else [])" "as_slice (pobjects q) = [0]"
    "serialize_option_SIBinder K H sdk sdk30 bg stab (Some b) (parcel_new, env) = (Ok (), (q, set_parceled b ?env1))"
  proof (cases sdk30)
    case True
    then have "write_word (i32_of_Stability sdk (stab b)) ?p1 = (Ok (), emit ?st ?p1)"
      using ae by (intro w32.ser_enc) (simp_all add: emit_def pd_len_def FLAT_SIZE_def parcel_new_def)
    then show ?thesis
      using that [of "emit ?st ?p1"] True w fl new by (simp add: serialize_option_SIBinder_def parcel_new_def)
  next
    case False
    then show ?thesis
      using that [of ?p1] w fl new by (simp add: serialize_option_SIBinder_def parcel_new_def)
  qed
  obtain e where e: "get_native nt nid = Some e" "binder_pin e = arc"
    using publish_native_get [OF assms(1) pub] by auto
  have lk: "lookup_native nid (env_natives (set_parceled b ?env1)) = Some arc"
    using incref_lookup [OF e(1)] e(2) assms(2) by (simp add: set_parceled_def)
  let ?r = "from_ipc_parts (pbytes q) (as_slice (pobjects q)) fb"
  have rd: "read_object False ?r = (Ok ?obj, (advance FLAT_SIZE ?r)\<lparr>next_object_hint := 1\<rparr>)"
    using read_aligned_data_ready [of ?r "flat_bytes ?obj" FLAT_SIZE] nz
      read_flat_binder_at [of "[]" 0 ?obj "[]"]
    by (simp add: read_object_def is_for_rpc_def from_ipc_parts_def parcel_new_def q ready_def pd_len_def
        FLAT_SIZE_def fbo_pointer_def find_object_def scan_forward.simps)
  have st: "sdk30 \<Longrightarrow> read_word ((advance FLAT_SIZE ?r)\<lparr>next_object_hint := 1\<rparr>) =
      (Ok (i32_of_Stability sdk (stab b)), advance 4 ((advance FLAT_SIZE ?r)\<lparr>next_object_hint := 1\<rparr>))"
    using read_word_ready [of "(advance FLAT_SIZE ?r)\<lparr>next_object_hint := 1\<rparr>" "i32_of_Stability sdk (stab b)"]
    by (simp add: ready_def from_ipc_parts_def parcel_new_def q pd_len_def FLAT_SIZE_def advance_def)
  have "\<not> is_for_rpc ?r" by (simp add: is_for_rpc_def from_ipc_parts_def parcel_new_def)
  then have "fst (deserialize_option_SIBinder K H sdk sdk30 (\<lambda>_. local) (?r, set_parceled b ?env1)) = Ok (Some b)"
    using rd st lk nz assms(2) by (cases sdk30) (simp_all add: deserialize_option_SIBinder_def fbo_pointer_def)
  then show ?thesis using q(3) by blast
qed

theorem native_reference_roundtrip_witness:
  "\<exists>q env'. serialize_option_SIBinder null_kernel \<lparr>hook_write_binder = (\<lambda>_ _ s. (Ok (), s)),
       hook_read_binder = (\<lambda>_ s. (Ok None, s))\<rparr> None True False (\<lambda>_. System) (Some (NativeBinder 9 0))
       (parcel_new, demo_env) = (Ok (), (q, env')) \<and>
     fst (deserialize_option_SIBinder null_kernel \<lparr>hook_write_binder = (\<lambda>_ _ s. (Ok (), s)),
       hook_read_binder = (\<lambda>_ s. (Ok None, s))\<rparr> None True (\<lambda>_. 0)
       (from_ipc_parts (pbytes q) (as_slice (pobjects q)) 1, env')) = Ok (Some (NativeBinder 9 0))"
proof -
  have "native_wf (env_natives demo_env)"
    by (auto simp: native_wf_def demo_env_def publish_native_def native_init_def get_native_def put_native_def
        split: if_splits)
  from native_reference_roundtrip [OF this refl] show ?thesis by blast
qed

end
