(* ===== verification/Rpc_Stream.thy ===== *)
theory Rpc_Stream
  imports Status_Code
begin

text \<open>
  Errors of the RPC stack (\<open>rsbinder/src/rpc/mod.rs\<close>), peer identities and the length-prefixed
  framing over a byte stream (\<open>rpc/transport/mod.rs\<close>). A readable stream is the list of what
  successive \<open>read\<close> calls find: chunks of bytes of any size, of which a call takes at most what it
  asked for, and errors; the end of the list is end of file, and so is an empty chunk. A writable
  stream is what was written and, if it breaks, how many more bytes it takes and the error after that.
\<close>

section \<open>Errors\<close>

datatype ErrorKind =
    UnexpectedEof | BrokenPipe | ConnectionReset | ConnectionAborted | KWouldBlock | KTimedOut
  | Interrupted | OtherKind

record io_error =
  io_kind :: ErrorKind
  io_raw_os_error :: "int option"

datatype RpcErr =
    PeerClosed
  | Truncated
  | FrameTooLarge (declared: usize) (max_len: usize)
  | Io io_error
  | Protocol string
  | Timeout

type_synonym 'a rpc_result = "(RpcErr, 'a) outcome"

definition RpcErr_of_io :: "io_error \<Rightarrow> RpcErr" where
  "RpcErr_of_io e =
    (if io_kind e \<in> {UnexpectedEof, BrokenPipe, ConnectionReset, ConnectionAborted}
     then PeerClosed else Io e)"

fun StatusCode_of_RpcErr :: "(errno_name \<Rightarrow> int) \<Rightarrow> RpcErr \<Rightarrow> StatusCode" where
  "StatusCode_of_RpcErr E PeerClosed = DeadObject"
| "StatusCode_of_RpcErr E Truncated = NotEnoughData"
| "StatusCode_of_RpcErr E (FrameTooLarge _ _) = BadValue"
| "StatusCode_of_RpcErr E (Io e) = StatusCode_of_io_error E (io_raw_os_error e)"
| "StatusCode_of_RpcErr E (Protocol _) = RpcError"
| "StatusCode_of_RpcErr E Timeout = TimedOut"

section \<open>Peer identities\<close>

record CertId =
  cert_subject :: string
  cert_fingerprint :: "byte list"

datatype PeerIdentity =
    PeerLocal (local_uid: u32) (local_pid: int)
  | Vsock (cid: u32)
  | Certificate CertId
  | Anonymous

fun is_local :: "PeerIdentity \<Rightarrow> bool" where
  "is_local (PeerLocal _ _) = True"
| "is_local _ = False"

fun peer_uid :: "PeerIdentity \<Rightarrow> u32 option" where
  "peer_uid (PeerLocal u _) = Some u"
| "peer_uid _ = None"

fun peer_pid :: "PeerIdentity \<Rightarrow> int option" where
  "peer_pid (PeerLocal _ p) = (if p \<ge> 0 then Some p else None)"
| "peer_pid _ = None"

section \<open>Streams\<close>

datatype read_event = Chunk "byte list" | ReadErr io_error

record sink =
  sent :: "byte list"
  broken :: "(nat \<times> io_error) option"

definition write_all :: "byte list \<Rightarrow> sink \<Rightarrow> (io_error, unit) outcome \<times> sink" where
  "write_all bs w =
    (case broken w of
       None \<Rightarrow> (Ok (), w\<lparr>sent := sent w @ bs\<rparr>)
     | Some (room, e) \<Rightarrow>
         if length bs \<le> room
         then (Ok (), w\<lparr>sent := sent w @ bs, broken := Some (room - length bs, e)\<rparr>)
         else (Err e, w\<lparr>sent := sent w @ take room bs, broken := Some (0, e)\<rparr>))"

definition MAX_FRAME_LEN :: usize where
  "MAX_FRAME_LEN = 64 * 1024 * 1024"

definition write_frame :: "byte list \<Rightarrow> sink \<Rightarrow> unit rpc_result \<times> sink" where
  "write_frame buf w =
    (if length buf > MAX_FRAME_LEN then (Err (FrameTooLarge (length buf) MAX_FRAME_LEN), w)
     else case write_all (le_bytes (word_of_nat (length buf) :: u32) @ buf) w of
       (Ok u, w') \<Rightarrow> (Ok u, w')
     | (Err e, w') \<Rightarrow> (Err (RpcErr_of_io e), w')
     | (Panic, w') \<Rightarrow> (Panic, w'))"

definition is_timeout :: "io_error \<Rightarrow> bool" where
  "is_timeout e \<longleftrightarrow> io_kind e \<in> {KWouldBlock, KTimedOut}"

text \<open>The read loops. \<open>need\<close> bytes are still missing and \<open>acc\<close> is what the buffer holds so far.\<close>

fun read_header :: "nat \<Rightarrow> byte list \<Rightarrow> read_event list \<Rightarrow> byte list rpc_result \<times> read_event list" where
  "read_header need acc [] =
    (if need = 0 then (Ok acc, []) else (Err (if acc = [] then PeerClosed else Truncated), []))"
| "read_header need acc (Chunk bs # es) =
    (if need = 0 then (Ok acc, Chunk bs # es)
     else if bs = [] then (Err (if acc = [] then PeerClosed else Truncated), es)
     else if length bs \<le> need then read_header (need - length bs) (acc @ bs) es
     else (Ok (acc @ take need bs), Chunk (drop need bs) # es))"
| "read_header need acc (ReadErr e # es) =
    (if need = 0 then (Ok acc, ReadErr e # es)
     else if io_kind e = Interrupted then read_header need acc es
     else if is_timeout e then (Err (if acc = [] then Timeout else Truncated), es)
     else (Err (RpcErr_of_io e), es))"

fun read_body :: "nat \<Rightarrow> byte list \<Rightarrow> read_event list \<Rightarrow> byte list rpc_result \<times> read_event list" where
  "read_body need acc [] = (if need = 0 then (Ok acc, []) else (Err Truncated, []))"
| "read_body need acc (Chunk bs # es) =
    (if need = 0 then (Ok acc, Chunk bs # es)
     else if bs = [] then (Err Truncated, es)
     else if length bs \<le> need then read_body (need - length bs) (acc @ bs) es
     else (Ok (acc @ take need bs), Chunk (drop need bs) # es))"
| "read_body need acc (ReadErr e # es) =
    (if need = 0 then (Ok acc, ReadErr e # es)
     else if io_kind e = Interrupted then read_body need acc es
     else if is_timeout e then (Err Truncated, es)
     else (Err (RpcErr_of_io e), es))"

definition read_frame :: "read_event list \<Rightarrow> byte list rpc_result \<times> read_event list" where
  "read_frame es =
    andThen (read_header 4 [] es) (\<lambda>len_buf es.
      let len = unat (of_le_bytes len_buf :: u32) in
      if len > MAX_FRAME_LEN then (Err (FrameTooLarge len MAX_FRAME_LEN), es)
      else read_body len [] es)"

text \<open>\<open>read_exact_raw\<close> of \<open>rpc/wire_android13.rs\<close>: no retry on interruption.\<close>

fun read_exact_loop :: "nat \<Rightarrow> byte list \<Rightarrow> read_event list \<Rightarrow> byte list rpc_result \<times> read_event list" where
  "read_exact_loop need acc [] =
    (if need = 0 then (Ok acc, []) else (Err (if acc = [] then PeerClosed else Truncated), []))"
| "read_exact_loop need acc (Chunk bs # es) =
    (if need = 0 then (Ok acc, Chunk bs # es)
     else if bs = [] then (Err (if acc = [] then PeerClosed else Truncated), es)
     else if length bs \<le> need then read_exact_loop (need - length bs) (acc @ bs) es
     else (Ok (acc @ take need bs), Chunk (drop need bs) # es))"
| "read_exact_loop need acc (ReadErr e # es) =
    (if need = 0 then (Ok acc, ReadErr e # es)
     else if io_kind e = KTimedOut then (Err (if acc = [] then Timeout else Truncated), es)
     else (Err (RpcErr_of_io e), es))"

definition read_exact_raw :: "nat \<Rightarrow> read_event list \<Rightarrow> byte list rpc_result \<times> read_event list" where
  "read_exact_raw n es = read_exact_loop n [] es"

section \<open>Fragmentation\<close>

text \<open>On a clean stream (no error but interruptions, no early end) each read loop delivers exactly the
  next bytes of the payload, however they are cut into chunks.\<close>

fun payload :: "read_event list \<Rightarrow> byte list" where
  "payload [] = []"
| "payload (Chunk bs # es) = bs @ payload es"
| "payload (ReadErr e # es) = payload es"

fun clean :: "read_event \<Rightarrow> bool" where
  "clean (Chunk bs) \<longleftrightarrow> bs \<noteq> []"
| "clean (ReadErr e) \<longleftrightarrow> io_kind e = Interrupted"

fun chunk_only :: "read_event \<Rightarrow> bool" where
  "chunk_only (Chunk bs) \<longleftrightarrow> bs \<noteq> []"
| "chunk_only (ReadErr e) \<longleftrightarrow> False"

lemma chunk_only_clean: "list_all chunk_only es \<Longrightarrow> list_all clean es"
  by (induction es) (auto elim: chunk_only.elims)

lemma read_header_clean:
  assumes "list_all clean es" "need \<le> length (payload es)"
  shows "\<exists>es'. read_header need acc es = (Ok (acc @ take need (payload es)), es') \<and>
    list_all clean es' \<and> payload es' = drop need (payload es)"
  using assms
proof (induction need acc es rule: read_header.induct)
  case (2 need acc bs es)
  show ?case
  proof (cases "need = 0 \<or> need < length bs")
    case True
    then show ?thesis using 2(2,3) by auto
  next
    case False
    then have le: "need \<noteq> 0" "bs \<noteq> []" "length bs \<le> need"
      and rest: "list_all clean es" "need - length bs \<le> length (payload es)"
      using 2(2,3) by auto
    show ?thesis using 2(1) [OF le rest] le by auto
  qed
qed auto

lemma read_body_clean:
  assumes "list_all clean es" "need \<le> length (payload es)"
  shows "\<exists>es'. read_body need acc es = (Ok (acc @ take need (payload es)), es') \<and>
    list_all clean es' \<and> payload es' = drop need (payload es)"
  using assms
proof (induction need acc es rule: read_body.induct)
  case (2 need acc bs es)
  show ?case
  proof (cases "need = 0 \<or> need < length bs")
    case True
    then show ?thesis using 2(2,3) by auto
  next
    case False
    then have le: "need \<noteq> 0" "bs \<noteq> []" "length bs \<le> need"
      and rest: "list_all clean es" "need - length bs \<le> length (payload es)"
      using 2(2,3) by auto
    show ?thesis using 2(1) [OF le rest] le by auto
  qed
qed auto

lemma read_exact_clean:
  assumes "list_all chunk_only es" "need \<le> length (payload es)"
  shows "\<exists>es'. read_exact_loop need acc es = (Ok (acc @ take need (payload es)), es') \<and>
    list_all chunk_only es' \<and> payload es' = drop need (payload es)"
  using assms
proof (induction need acc es rule: read_exact_loop.induct)
  case (2 need acc bs es)
  show ?case
  proof (cases "need = 0 \<or> need < length bs")
    case True
    then show ?thesis using 2(2,3) by auto
  next
    case False
    then have le: "need \<noteq> 0" "bs \<noteq> []" "length bs \<le> need"
      and rest: "list_all chunk_only es" "need - length bs \<le> length (payload es)"
      using 2(2,3) by auto
    show ?thesis using 2(1) [OF le rest] le by auto
  qed
qed auto

lemma read_header_short:
  assumes "list_all clean es" "length (payload es) < need"
  shows "fst (read_header need acc es) =
    Err (if acc = [] \<and> payload es = [] then PeerClosed else Truncated)"
  using assms by (induction need acc es rule: read_header.induct) auto

lemma read_body_short:
  assumes "list_all clean es" "length (payload es) < need"
  shows "fst (read_body need acc es) = Err Truncated"
  using assms by (induction need acc es rule: read_body.induct) auto

lemma write_all_open:
  assumes "broken w = None"
  shows "write_all bs w = (Ok (), w\<lparr>sent := sent w @ bs\<rparr>)"
  using assms by (simp add: write_all_def)

lemma le_bytes_u32_bytes:
  "le_bytes (w :: u32) = le_nat (Suc (Suc (Suc (Suc 0)))) (unat w)"
proof -
  have "LENGTH(32) div 8 = Suc (Suc (Suc (Suc 0)))" by simp
  then show ?thesis by (simp only: le_bytes_def)
qed

definition framed :: "byte list \<Rightarrow> byte list" where
  "framed buf = le_bytes (word_of_nat (length buf) :: u32) @ buf"

lemma write_frame_open:
  assumes "broken w = None" "length buf \<le> MAX_FRAME_LEN"
  shows "write_frame buf w = (Ok (), w\<lparr>sent := sent w @ framed buf\<rparr>)"
  using assms by (simp add: write_frame_def write_all_open framed_def)

lemma unat_frame_len: "n \<le> MAX_FRAME_LEN \<Longrightarrow> unat (word_of_nat n :: u32) = n"
  by (simp add: unat_of_nat MAX_FRAME_LEN_def)

lemma read_frame_framed:
  assumes "list_all clean es" "payload es = framed buf @ rest" "length buf \<le> MAX_FRAME_LEN"
  shows "\<exists>es'. read_frame es = (Ok buf, es') \<and> list_all clean es' \<and> payload es' = rest"
proof -
  obtain es1 where h: "read_header 4 [] es = (Ok (le_bytes (word_of_nat (length buf) :: u32)), es1)"
    and c1: "list_all clean es1" and p1: "payload es1 = buf @ rest"
    using read_header_clean [OF assms(1), of 4 "[]"] assms(2) by (auto simp: framed_def)
  obtain es2 where "read_body (length buf) [] es1 = (Ok buf, es2)"
    "list_all clean es2" "payload es2 = rest"
    using read_body_clean [OF c1, of "length buf" "[]"] p1 by auto
  then show ?thesis
    using h assms(3) by (simp add: read_frame_def unat_frame_len)
qed

lemma read_frame_cut:
  assumes "list_all clean es" "payload es = take n (framed buf)" "n < length (framed buf)"
    and "length buf \<le> MAX_FRAME_LEN"
  shows "fst (read_frame es) = Err (if n = 0 then PeerClosed else Truncated)"
proof (cases "n < 4")
  case True
  then have "length (payload es) < 4" using assms(2) by simp
  from read_header_short [OF assms(1) this, of "[]"]
  have "fst (read_header 4 [] es) = Err (if n = 0 then PeerClosed else Truncated)"
    using assms(2,3) by auto
  then show ?thesis
    by (cases "read_header 4 [] es") (simp add: read_frame_def)
next
  case False
  then have p: "payload es = le_bytes (word_of_nat (length buf) :: u32) @ take (n - 4) buf"
    using assms(2) by (simp add: framed_def)
  then obtain es1 where h: "read_header 4 [] es = (Ok (le_bytes (word_of_nat (length buf) :: u32)), es1)"
    and c1: "list_all clean es1" and p1: "payload es1 = take (n - 4) buf"
    using read_header_clean [OF assms(1), of 4 "[]"] by auto
  have "length (payload es1) < length buf"
    using p1 assms(3) False by (auto simp: framed_def)
  with read_body_short [OF c1 this] h False assms(4) show ?thesis
    by (simp add: read_frame_def unat_frame_len)
qed

section \<open>Properties\<close>

text \<open>Frames survive any fragmentation. A frame of at most \<open>MAX_FRAME_LEN\<close> bytes written by
  \<open>write_frame\<close> on an open stream is read back by \<open>read_frame\<close> as exactly that frame, however the
  stream cuts the bytes into chunks and whatever interruptions it reports, and the reader is left at
  the first byte after the frame; a longer frame is refused before a byte is written.\<close>

theorem frame_roundtrip:
  assumes "broken w = None"
    and "length buf \<le> MAX_FRAME_LEN \<longrightarrow>
      list_all clean es \<and> payload es = drop (length (sent w)) (sent (snd (write_frame buf w))) @ rest"
  shows "if length buf \<le> MAX_FRAME_LEN
    then fst (write_frame buf w) = Ok () \<and>
      (\<exists>es'. read_frame es = (Ok buf, es') \<and> list_all clean es' \<and> payload es' = rest)
    else write_frame buf w = (Err (FrameTooLarge (length buf) MAX_FRAME_LEN), w)"
proof (cases "length buf \<le> MAX_FRAME_LEN")
  case True
  then have "payload es = framed buf @ rest" "list_all clean es"
    using assms by (simp_all add: write_frame_open)
  from read_frame_framed [OF this(2,1) True] True show ?thesis
    by (simp add: write_frame_open [OF assms(1) True])
qed (simp add: write_frame_def)

theorem frame_roundtrip_witness:
  "\<exists>es'. read_frame [Chunk [2, 0], ReadErr \<lparr>io_kind = Interrupted, io_raw_os_error = None\<rparr>,
      Chunk [0, 0, 7], Chunk [8, 9]] = (Ok [7, 8], es') \<and> list_all clean es' \<and> payload es' = [9]"
  using frame_roundtrip [of "\<lparr>sent = [], broken = None\<rparr>" "[7, 8]"
      "[Chunk [2, 0], ReadErr \<lparr>io_kind = Interrupted, io_raw_os_error = None\<rparr>, Chunk [0, 0, 7],
        Chunk [8, 9]]" "[9]"]
  by (simp add: write_frame_def write_all_def MAX_FRAME_LEN_def le_bytes_u32_bytes)

text \<open>A reader tells a clean close from a broken frame. If the stream ends after \<open>n\<close> bytes of a
  frame, \<open>read_frame\<close> answers \<open>PeerClosed\<close> exactly when no byte of it had arrived and \<open>Truncated\<close>
  otherwise, for every cut point and every fragmentation.\<close>

theorem frame_cut_classified:
  assumes "list_all clean es" "payload es = take n (framed buf)"
    and "n < length (framed buf)" "length buf \<le> MAX_FRAME_LEN"
  shows "fst (read_frame es) = Err (if n = 0 then PeerClosed else Truncated)"
  using assms by (rule read_frame_cut)

theorem frame_cut_classified_witness:
  "fst (read_frame []) = Err PeerClosed \<and> fst (read_frame [Chunk [2, 0, 0], Chunk [0, 7]]) = Err Truncated"
  using frame_cut_classified [of "[]" 0 "[7, 8]"]
    frame_cut_classified [of "[Chunk [2, 0, 0], Chunk [0, 7]]" 5 "[7, 8]"]
  by (simp add: framed_def MAX_FRAME_LEN_def le_bytes_u32_bytes)

end
