(* ===== verification/Calling_Identity.thy ===== *)
theory Calling_Identity
  imports Rpc_Stream
begin

text \<open>
  Who is calling: the calling identity of \<open>rsbinder/src/thread_state.rs\<close>. \<open>CallingState\<close> is the part of
  the two thread-locals \<open>RPC_CALLING\<close> and \<open>THREAD_STATE\<close> that the accessors read, with the answers of
  \<open>ProcessState::is_initialized\<close>, \<open>getuid\<close> and \<open>getpid\<close>; the thread state of \<open>Thread_State\<close> extends
  it. A \<open>pid_t\<close> is a 32-bit word read as signed; \<open>calling_sid\<close> is the C string behind the pointer,
  \<open>None\<close> for the null pointer.
\<close>

section \<open>Definitions\<close>

type_synonym pid_t = "32 word"
type_synonym uid_t = "32 word"

record TransactionState =
  calling_pid :: pid_t
  calling_sid :: "string option"
  calling_uid :: uid_t
  last_transaction_binder_flags :: u32
  work_source :: uid_t
  propagate_work_source :: bool
  explicit_identity :: bool

record CallingState =
  RPC_CALLING :: "PeerIdentity option"
  is_initialized :: bool
  transaction :: "TransactionState option"
  getuid :: uid_t
  getpid :: pid_t

subsection \<open>RPC callers\<close>

definition RPC_UNKNOWN_CALLING_UID :: uid_t where
  "RPC_UNKNOWN_CALLING_UID = 0xFFFFFFFF"

text \<open>\<open>RpcCallingGuard\<close> is the identity it saved.\<close>

definition calling_guard_install ::
    "PeerIdentity \<Rightarrow> 'a CallingState_scheme \<Rightarrow> PeerIdentity option \<times> 'a CallingState_scheme" where
  "calling_guard_install peer s = (RPC_CALLING s, s\<lparr>RPC_CALLING := Some peer\<rparr>)"

definition calling_guard_drop :: "PeerIdentity option \<Rightarrow> 'a CallingState_scheme \<Rightarrow> 'a CallingState_scheme" where
  "calling_guard_drop previous s = s\<lparr>RPC_CALLING := previous\<rparr>"

fun peer_uid_pid :: "PeerIdentity \<Rightarrow> uid_t \<times> pid_t" where
  "peer_uid_pid (PeerLocal uid pid) = (uid, word_of_int pid)"
| "peer_uid_pid _ = (RPC_UNKNOWN_CALLING_UID, - 1)"

definition rpc_calling :: "'a CallingState_scheme \<Rightarrow> (uid_t \<times> pid_t) option" where
  "rpc_calling s = map_option peer_uid_pid (RPC_CALLING s)"

datatype Caller = KernelCaller uid_t pid_t "string option" | RpcCaller PeerIdentity

definition calling_caller :: "'a CallingState_scheme \<Rightarrow> Caller option" where
  "calling_caller s =
    (case RPC_CALLING s of
       Some peer \<Rightarrow> Some (RpcCaller peer)
     | None \<Rightarrow>
         if \<not> is_initialized s then None
         else map_option (\<lambda>tr. KernelCaller (calling_uid tr) (calling_pid tr) (calling_sid tr)) (transaction s))"

subsection \<open>The identity token\<close>

text \<open>\<open>1 << n\<close>.\<close>

definition one_shl :: "nat \<Rightarrow> 32 word" where
  "one_shl n = push_bit n 1"

definition pack_calling_identity :: "bool \<Rightarrow> uid_t \<Rightarrow> pid_t \<Rightarrow> u64" where
  "pack_calling_identity has_explicit uid pid =
    (let pid_low = (if has_explicit then pid OR one_shl 30 else pid AND NOT (one_shl 30))
     in push_bit 32 (ucast uid) OR ucast pid_low)"

definition unpack_has_explicit_identity :: "u64 \<Rightarrow> bool" where
  "unpack_has_explicit_identity token \<longleftrightarrow> (ucast token :: i32) AND one_shl 30 \<noteq> 0"

definition unpack_calling_uid :: "u64 \<Rightarrow> uid_t" where
  "unpack_calling_uid token = ucast (signed_drop_bit 32 token)"

definition unpack_calling_pid :: "u64 \<Rightarrow> pid_t" where
  "unpack_calling_pid token =
    (let encoded = (ucast token :: i32)
     in if encoded AND one_shl 31 \<noteq> 0 then encoded OR one_shl 30
        else encoded AND NOT (one_shl 30))"

definition clear_calling_identity :: "'a CallingState_scheme \<Rightarrow> u64 \<times> 'a CallingState_scheme" where
  "clear_calling_identity s =
    (if \<not> is_initialized s then (0, s)
     else case transaction s of
       None \<Rightarrow> (0, s)
     | Some tr \<Rightarrow>
         (pack_calling_identity (explicit_identity tr) (calling_uid tr) (calling_pid tr),
          s\<lparr>transaction := Some (tr\<lparr>calling_uid := getuid s, calling_pid := getpid s,
               calling_sid := None, explicit_identity := True\<rparr>)\<rparr>))"

definition restore_calling_identity :: "u64 \<Rightarrow> 'a CallingState_scheme \<Rightarrow> 'a CallingState_scheme" where
  "restore_calling_identity token s =
    (if \<not> is_initialized s then s
     else case transaction s of
       None \<Rightarrow> s
     | Some tr \<Rightarrow>
         s\<lparr>transaction := Some (tr\<lparr>calling_uid := unpack_calling_uid token,
              calling_pid := unpack_calling_pid token,
              explicit_identity := unpack_has_explicit_identity token, calling_sid := None\<rparr>)\<rparr>)"

definition has_explicit_identity :: "'a CallingState_scheme \<Rightarrow> bool" where
  "has_explicit_identity s \<longleftrightarrow>
    is_initialized s \<and> (case transaction s of Some tr \<Rightarrow> explicit_identity tr | None \<Rightarrow> False)"

subsection \<open>Accessors\<close>

record CallingContext =
  ctx_pid :: pid_t
  ctx_uid :: uid_t
  ctx_sid :: "string option"

definition calling_context :: "'a CallingState_scheme \<Rightarrow> CallingContext" where
  "calling_context s =
    (case rpc_calling s of
       Some (uid, pid) \<Rightarrow> \<lparr>ctx_pid = pid, ctx_uid = uid, ctx_sid = None\<rparr>
     | None \<Rightarrow>
         if \<not> is_initialized s then \<lparr>ctx_pid = getpid s, ctx_uid = getuid s, ctx_sid = None\<rparr>
         else case transaction s of
           Some tr \<Rightarrow> \<lparr>ctx_pid = calling_pid tr, ctx_uid = calling_uid tr, ctx_sid = calling_sid tr\<rparr>
         | None \<Rightarrow> \<lparr>ctx_pid = getpid s, ctx_uid = getuid s, ctx_sid = None\<rparr>)"

definition is_handling_transaction :: "'a CallingState_scheme \<Rightarrow> bool" where
  "is_handling_transaction s \<longleftrightarrow> rpc_calling s \<noteq> None \<or> is_initialized s \<and> transaction s \<noteq> None"

definition get_calling_sid :: "'a CallingState_scheme \<Rightarrow> string option" where
  "get_calling_sid s =
    (if rpc_calling s \<noteq> None \<or> \<not> is_initialized s then None
     else Option.bind (transaction s) calling_sid)"

definition get_calling_pid :: "'a CallingState_scheme \<Rightarrow> pid_t" where
  "get_calling_pid s =
    (case rpc_calling s of
       Some (_, pid) \<Rightarrow> pid
     | None \<Rightarrow> if \<not> is_initialized s then 0
               else case transaction s of Some tr \<Rightarrow> calling_pid tr | None \<Rightarrow> 0)"

definition get_calling_uid :: "'a CallingState_scheme \<Rightarrow> uid_t" where
  "get_calling_uid s =
    (case rpc_calling s of
       Some (uid, _) \<Rightarrow> uid
     | None \<Rightarrow> if \<not> is_initialized s then 0
               else case transaction s of Some tr \<Rightarrow> calling_uid tr | None \<Rightarrow> 0)"

definition get_calling_uid_or_self :: "'a CallingState_scheme \<Rightarrow> uid_t" where
  "get_calling_uid_or_self s =
    (case rpc_calling s of
       Some (uid, _) \<Rightarrow> uid
     | None \<Rightarrow> if \<not> is_initialized s then getuid s
               else case transaction s of Some tr \<Rightarrow> calling_uid tr | None \<Rightarrow> getuid s)"

subsection \<open>Work source\<close>

definition WORK_SOURCE_PROPAGATED_BIT_INDEX :: nat where
  "WORK_SOURCE_PROPAGATED_BIT_INDEX = 32"

definition clear_propagate_work_source :: "'a CallingState_scheme \<Rightarrow> 'a CallingState_scheme" where
  "clear_propagate_work_source s =
    s\<lparr>transaction := map_option (\<lambda>tr. tr\<lparr>propagate_work_source := False\<rparr>) (transaction s)\<rparr>"

definition set_calling_work_source_uid_without_propagation ::
    "uid_t \<Rightarrow> 'a CallingState_scheme \<Rightarrow> u64 \<times> 'a CallingState_scheme" where
  "set_calling_work_source_uid_without_propagation uid s =
    (case transaction s of
       Some tr \<Rightarrow>
         (push_bit WORK_SOURCE_PROPAGATED_BIT_INDEX (if propagate_work_source tr then 1 else 0)
            OR ucast (work_source tr),
          s\<lparr>transaction := Some (tr\<lparr>work_source := uid\<rparr>)\<rparr>)
     | None \<Rightarrow> (0, s))"

definition set_calling_work_source_uid ::
    "uid_t \<Rightarrow> 'a CallingState_scheme \<Rightarrow> u64 \<times> 'a CallingState_scheme" where
  "set_calling_work_source_uid uid s =
    (let (token, s) = set_calling_work_source_uid_without_propagation uid s
     in (token, s\<lparr>transaction := map_option (\<lambda>tr. tr\<lparr>propagate_work_source := True\<rparr>) (transaction s)\<rparr>))"

definition clear_calling_work_source :: "'a CallingState_scheme \<Rightarrow> 'a CallingState_scheme" where
  "clear_calling_work_source s = snd (set_calling_work_source_uid (- 1) s)"

subsection \<open>Nested identity scopes\<close>

text \<open>The documented use of the operations: a clear paired with the restore of its token, and the guard
  of an RPC dispatch, each around further scopes.\<close>

datatype scope = Cleared "scope list" | Dispatching PeerIdentity "scope list"

fun run_scope :: "scope \<Rightarrow> 'a CallingState_scheme \<Rightarrow> 'a CallingState_scheme" where
  "run_scope (Cleared ss) s =
    (let (token, s) = clear_calling_identity s
     in restore_calling_identity token (fold run_scope ss s))"
| "run_scope (Dispatching peer ss) s =
    (let (previous, s) = calling_guard_install peer s
     in calling_guard_drop previous (fold run_scope ss s))"

section \<open>The token\<close>

definition pid_fits :: "pid_t \<Rightarrow> bool" where
  "pid_fits p \<longleftrightarrow> bit p 30 = bit p 31"

lemma bit_one_shl [simp]: "bit (one_shl n) m \<longleftrightarrow> m = n \<and> n < 32"
  by (auto simp: one_shl_def bit_simps)

lemma bit_test: "(w AND one_shl n \<noteq> 0) \<longleftrightarrow> bit w n"
  by (simp add: one_shl_def bit_iff_and_push_bit_not_eq_0)

lemma bit_32_word: "bit (w :: 32 word) n \<Longrightarrow> n < 32"
  using bit_imp_le_length [of w n] by simp

lemma unpack_uid_pack [simp]: "unpack_calling_uid (pack_calling_identity h u p) = u"
  by (rule bit_word_eqI)
    (auto simp: unpack_calling_uid_def pack_calling_identity_def bit_simps Let_def dest: bit_32_word)

lemma low_half_pack: "n < 32 \<Longrightarrow> bit (ucast (pack_calling_identity h u p) :: 32 word) n \<longleftrightarrow> (if n = 30 then h else bit p n)"
  by (auto simp: pack_calling_identity_def bit_simps Let_def)

lemma unpack_explicit_pack [simp]: "unpack_has_explicit_identity (pack_calling_identity h u p) = h"
  by (simp add: unpack_has_explicit_identity_def bit_test low_half_pack)

lemma bit_unpack_pid_pack:
  "n < 32 \<Longrightarrow> bit (unpack_calling_pid (pack_calling_identity h u p)) n \<longleftrightarrow> (if n = 30 then bit p 31 else bit p n)"
  using low_half_pack [of n h u p] low_half_pack [of 31 h u p]
  by (auto simp: unpack_calling_pid_def bit_test bit_or_iff bit_and_iff bit_not_iff_eq Let_def simp del: bit_ucast_iff)

lemma unpack_pid_pack: "unpack_calling_pid (pack_calling_identity h u p) = p \<longleftrightarrow> pid_fits p"
proof
  assume "unpack_calling_pid (pack_calling_identity h u p) = p"
  then show "pid_fits p" using bit_unpack_pid_pack [of 30 h u p] by (simp add: pid_fits_def)
next
  assume "pid_fits p"
  then show "unpack_calling_pid (pack_calling_identity h u p) = p"
    by (intro bit_word_eqI) (auto simp: bit_unpack_pid_pack pid_fits_def)
qed

text \<open>the 64-bit identity token keeps the uid and the explicit-identity flag of every caller, and it
  keeps the pid exactly when bits 30 and 31 of the pid agree, which the pids of the platform do.\<close>

theorem identity_token_roundtrip:
  "unpack_calling_uid (pack_calling_identity h u p) = u \<and>
   unpack_has_explicit_identity (pack_calling_identity h u p) = h \<and>
   (unpack_calling_pid (pack_calling_identity h u p) = p \<longleftrightarrow> bit p 30 = bit p 31)"
  using unpack_pid_pack [of h u p] by (simp add: pid_fits_def)

section \<open>Scopes\<close>

text \<open>What a scope may change: only the SELinux context, which the token has no room for.\<close>

definition forget_sid :: "'a CallingState_scheme \<Rightarrow> 'a CallingState_scheme" where
  "forget_sid s = s\<lparr>transaction := map_option (\<lambda>tr. tr\<lparr>calling_sid := None\<rparr>) (transaction s)\<rparr>"

definition pids_fit :: "'a CallingState_scheme \<Rightarrow> bool" where
  "pids_fit s \<longleftrightarrow> pid_fits (getpid s) \<and> (\<forall>tr. transaction s = Some tr \<longrightarrow> pid_fits (calling_pid tr))"

lemma forget_sid_eqD:
  assumes "forget_sid s = forget_sid t"
  shows "is_initialized s = is_initialized t" "RPC_CALLING s = RPC_CALLING t" "getuid s = getuid t"
    "getpid s = getpid t" "(transaction s = None) = (transaction t = None)"
    "s\<lparr>transaction := x\<rparr> = t\<lparr>transaction := x\<rparr>"
proof -
  have "(forget_sid s)\<lparr>transaction := x\<rparr> = (forget_sid t)\<lparr>transaction := x\<rparr>" using assms by simp
  then show "s\<lparr>transaction := x\<rparr> = t\<lparr>transaction := x\<rparr>" by (simp add: forget_sid_def)
  show "(transaction s = None) = (transaction t = None)"
    using arg_cong [OF assms, of transaction] by (auto simp: forget_sid_def)
qed (use arg_cong [OF assms, of is_initialized] arg_cong [OF assms, of RPC_CALLING]
       arg_cong [OF assms, of getuid] arg_cong [OF assms, of getpid] in \<open>auto simp: forget_sid_def\<close>)

lemma pids_fit_forget_sid [simp]: "pids_fit (forget_sid s) = pids_fit s"
  by (auto simp: pids_fit_def forget_sid_def)

lemma fold_scopes:
  fixes s :: "'a CallingState_scheme"
  assumes "\<And>sc (t :: 'a CallingState_scheme). sc \<in> set ss \<Longrightarrow> pids_fit t \<Longrightarrow> forget_sid (run_scope sc t) = forget_sid t"
    and "pids_fit s"
  shows "forget_sid (fold run_scope ss s) = forget_sid s"
  using assms
proof (induction ss arbitrary: s)
  case (Cons sc ss)
  have eq: "forget_sid (run_scope sc s) = forget_sid s"
    using Cons.prems(2) by (intro Cons.prems(1)) simp_all
  then have "pids_fit (run_scope sc s)" using Cons.prems(2) by (metis pids_fit_forget_sid)
  then have "forget_sid (fold run_scope ss (run_scope sc s)) = forget_sid (run_scope sc s)"
    using Cons.prems(1) by (intro Cons.IH) simp_all
  then show ?case using eq by simp
qed simp

lemma sid_eqD:
  assumes "tr\<lparr>calling_sid := None\<rparr> = tr'\<lparr>calling_sid := None\<rparr>"
  shows "tr\<lparr>calling_uid := u, calling_pid := p, explicit_identity := h, calling_sid := None\<rparr> =
    tr'\<lparr>calling_uid := u, calling_pid := p, explicit_identity := h, calling_sid := None\<rparr>"
  using assms by (cases tr, cases tr') simp

lemma restore_after_clear:
  assumes "pids_fit s" "clear_calling_identity s = (token, c)" "forget_sid t = forget_sid c"
  shows "forget_sid (restore_calling_identity token t) = forget_sid s"
proof (cases "is_initialized s \<and> transaction s \<noteq> None")
  case True
  then obtain tr where tr: "is_initialized s" "transaction s = Some tr" by auto
  define cleared where "cleared = tr\<lparr>calling_uid := getuid s, calling_pid := getpid s, calling_sid := None,
    explicit_identity := True\<rparr>"
  from tr assms(2) have token: "token = pack_calling_identity (explicit_identity tr) (calling_uid tr) (calling_pid tr)"
    and c: "c = s\<lparr>transaction := Some cleared\<rparr>"
    by (auto simp: clear_calling_identity_def cleared_def)
  obtain tt where tt: "transaction t = Some tt" "is_initialized t"
    using forget_sid_eqD [OF assms(3)] c tr by auto
  have eq: "tt\<lparr>calling_sid := None\<rparr> = cleared\<lparr>calling_sid := None\<rparr>"
    using arg_cong [OF assms(3), of transaction] c tt by (simp add: forget_sid_def)
  have "unpack_calling_pid token = calling_pid tr"
    using assms(1) tr token by (simp add: unpack_pid_pack pids_fit_def)
  then have "tt\<lparr>calling_uid := unpack_calling_uid token, calling_pid := unpack_calling_pid token,
      explicit_identity := unpack_has_explicit_identity token, calling_sid := None\<rparr> = tr\<lparr>calling_sid := None\<rparr>"
    unfolding sid_eqD [OF eq] by (simp add: token cleared_def)
  then show ?thesis
    using tt tr forget_sid_eqD(6) [OF assms(3)] c by (simp add: restore_calling_identity_def forget_sid_def)
next
  case False
  then show ?thesis
    using assms(2,3) forget_sid_eqD [OF assms(3)]
    by (auto simp: clear_calling_identity_def restore_calling_identity_def split: option.splits if_splits)
qed

lemma forget_sid_guard: "forget_sid (s\<lparr>RPC_CALLING := x\<rparr>) = (forget_sid s)\<lparr>RPC_CALLING := x\<rparr>"
  by (simp add: forget_sid_def)

lemma run_scope_restores: "pids_fit s \<Longrightarrow> forget_sid (run_scope sc s) = forget_sid s"
proof (induction sc s rule: run_scope.induct)
  case (1 ss s)
  obtain token c where c: "clear_calling_identity s = (token, c)" by fastforce
  then have "pids_fit c"
    using "1.prems" by (auto simp: clear_calling_identity_def pids_fit_def split: if_splits option.splits)
  then have "forget_sid (fold run_scope ss c) = forget_sid c"
    using "1.IH" [OF c [symmetric] refl] by (intro fold_scopes)
  then show ?case
    using restore_after_clear [OF "1.prems" c] c by simp
next
  case (2 peer ss s)
  define i where "i = s\<lparr>RPC_CALLING := Some peer\<rparr>"
  have g: "(RPC_CALLING s, i) = calling_guard_install peer s" by (simp add: calling_guard_install_def i_def)
  have "pids_fit i" using "2.prems" by (simp add: i_def pids_fit_def)
  then have "forget_sid (fold run_scope ss i) = forget_sid i"
    using "2.IH" [OF g refl] by (intro fold_scopes)
  then show ?case
    by (simp add: g [symmetric] calling_guard_drop_def forget_sid_guard) (simp add: i_def forget_sid_def)
qed

text \<open>C18: identity scopes nest. Whatever clears with their restores and RPC dispatches are nested inside
  each other and run in sequence, afterwards the thread has the caller it had before: the RPC
  identity, the uid, the pid and the explicit flag; only the SELinux context is lost.\<close>

theorem identity_scopes_nest:
  assumes "pid_fits (getpid s)" and "\<forall>tr. transaction s = Some tr \<longrightarrow> pid_fits (calling_pid tr)"
  shows "forget_sid (fold run_scope ss s) = forget_sid s"
  using assms by (intro fold_scopes run_scope_restores) (simp_all add: pids_fit_def)

theorem identity_scopes_nest_witness:
  "forget_sid (fold run_scope [Cleared [Dispatching Anonymous [], Cleared []], Dispatching (PeerLocal 1000 7) [Cleared []]]
     \<lparr>RPC_CALLING = None, is_initialized = True,
      transaction = Some \<lparr>calling_pid = 4, calling_sid = None, calling_uid = 0, last_transaction_binder_flags = 0,
        work_source = 0, propagate_work_source = False, explicit_identity = False\<rparr>,
      getuid = 1001, getpid = 9\<rparr>) =
   forget_sid \<lparr>RPC_CALLING = None, is_initialized = True,
      transaction = Some \<lparr>calling_pid = 4, calling_sid = None, calling_uid = 0, last_transaction_binder_flags = 0,
        work_source = 0, propagate_work_source = False, explicit_identity = False\<rparr>,
      getuid = 1001, getpid = 9\<rparr>"
  by (rule identity_scopes_nest) (simp_all add: pid_fits_def bit_iff_odd)

section \<open>The accessors\<close>

text \<open>C19: inside a transaction of either transport the accessors, the calling context and the tagged
  caller agree; a peer without a uid is reported as the sentinel, which is neither root nor 0, also
  while a kernel transaction is in progress on the same thread; and outside every transaction
  \<open>get_calling_uid\<close> is 0 where the calling context holds the process's own uid.\<close>

theorem calling_accessors:
  "(is_handling_transaction s \<longrightarrow>
      ctx_uid (calling_context s) = get_calling_uid s \<and> ctx_pid (calling_context s) = get_calling_pid s \<and>
      ctx_sid (calling_context s) = get_calling_sid s \<and> get_calling_uid_or_self s = get_calling_uid s \<and>
      (calling_caller s = Some (KernelCaller (get_calling_uid s) (get_calling_pid s) (get_calling_sid s)) \<or>
       (\<exists>peer. calling_caller s = Some (RpcCaller peer) \<and> (get_calling_uid s, get_calling_pid s) = peer_uid_pid peer \<and>
          get_calling_sid s = None))) \<and>
   (\<forall>peer. RPC_CALLING s = Some peer \<and> \<not> is_local peer \<longrightarrow>
      get_calling_uid s = RPC_UNKNOWN_CALLING_UID \<and> get_calling_uid s \<noteq> 0) \<and>
   (\<not> is_handling_transaction s \<longrightarrow>
      calling_caller s = None \<and> get_calling_uid s = 0 \<and> get_calling_pid s = 0 \<and>
      ctx_uid (calling_context s) = getuid s \<and> get_calling_uid_or_self s = getuid s)"
proof (cases "RPC_CALLING s")
  case None
  then show ?thesis
    by (cases "is_initialized s"; cases "transaction s")
      (simp_all add: is_handling_transaction_def calling_context_def get_calling_uid_def get_calling_pid_def
        get_calling_sid_def get_calling_uid_or_self_def calling_caller_def rpc_calling_def)
next
  case (Some peer)
  then show ?thesis
    by (cases peer)
      (simp_all add: is_handling_transaction_def calling_context_def get_calling_uid_def get_calling_pid_def
        get_calling_sid_def get_calling_uid_or_self_def calling_caller_def rpc_calling_def RPC_UNKNOWN_CALLING_UID_def)
qed

theorem calling_accessors_witness:
  "get_calling_uid \<lparr>RPC_CALLING = Some Anonymous, is_initialized = True,
     transaction = Some \<lparr>calling_pid = 4, calling_sid = None, calling_uid = 0, last_transaction_binder_flags = 0,
       work_source = 0, propagate_work_source = False, explicit_identity = False\<rparr>, getuid = 1001, getpid = 9\<rparr> \<noteq> 0"
  using calling_accessors [of "\<lparr>RPC_CALLING = Some Anonymous, is_initialized = True,
     transaction = Some \<lparr>calling_pid = 4, calling_sid = None, calling_uid = 0, last_transaction_binder_flags = 0,
       work_source = 0, propagate_work_source = False, explicit_identity = False\<rparr>, getuid = 1001, getpid = 9\<rparr>"]
  by (simp add: RPC_UNKNOWN_CALLING_UID_def)

end
