(* ===== verification/Thread_State.thy ===== *)
theory Thread_State
  imports Calling_Identity Parcel_Objects
begin

text \<open>
  The per-thread engine of \<open>rsbinder/src/thread_state.rs\<close>: the command and return queues, the ioctl
  round trip, the commands the kernel driver sends, nested transactions, replies, the deferred
  dereferences, outgoing calls and the looper.

  The kernel driver is not part of the sources; the state holds what it will do. \<open>inbox\<close> is the batches
  of returns it will deliver, one per reading ioctl, and \<open>ioctl_results\<close> is how the next ioctls end:
  an error may come after some commands of the write buffer were taken, and once the list is used up
  the driver takes all that is left. A reading ioctl with an empty
  inbox never returns: the value \<open>None\<close>. \<open>in_parcel\<close> and \<open>out_parcel\<close> are sequences of commands with
  their payloads, as the code reads and writes them; the buffer of a \<open>binder_transaction_data\<close> is its
  contents, and a received one comes with its address. Writes into \<open>out_parcel\<close> do not fail.
\<close>

section \<open>Definitions\<close>

subsection \<open>Commands\<close>

record binder_transaction_data =
  target :: u64
  tcode :: u32
  tflags :: u32
  sender_pid :: pid_t
  sender_euid :: uid_t
  tdata :: "byte list"
  toffsets :: "nat list"

datatype br =
    BR_ERROR i32 | BR_OK
  | BR_TRANSACTION_SEC_CTX binder_transaction_data string nat
  | BR_TRANSACTION binder_transaction_data nat
  | BR_REPLY binder_transaction_data nat
  | BR_ACQUIRE_RESULT i32 | BR_DEAD_REPLY | BR_TRANSACTION_COMPLETE
  | BR_INCREFS u64 u64 | BR_ACQUIRE u64 u64 | BR_RELEASE u64 u64 | BR_DECREFS u64 u64
  | BR_ATTEMPT_ACQUIRE u64 u64 | BR_NOOP | BR_SPAWN_LOOPER | BR_FINISHED
  | BR_DEAD_BINDER u64 | BR_CLEAR_DEATH_NOTIFICATION_DONE u64
  | BR_FAILED_REPLY | BR_FROZEN_REPLY | BR_ONEWAY_SPAM_SUSPECT | BR_TRANSACTION_PENDING_FROZEN
  | BR_UNKNOWN u32

datatype bc =
    BC_TRANSACTION binder_transaction_data | BC_REPLY binder_transaction_data
  | BC_FREE_BUFFER nat
  | BC_ACQUIRE u32 | BC_RELEASE u32 | BC_INCREFS u32 | BC_DECREFS u32
  | BC_INCREFS_DONE u64 u64 | BC_ACQUIRE_DONE u64 u64 | BC_ACQUIRE_RESULT i32
  | BC_REGISTER_LOOPER | BC_ENTER_LOOPER | BC_EXIT_LOOPER
  | BC_REQUEST_DEATH_NOTIFICATION u32 u64 | BC_CLEAR_DEATH_NOTIFICATION u32 u64
  | BC_DEAD_BINDER_DONE u64

definition TF_ONE_WAY :: u32 where "TF_ONE_WAY = 1"
definition TF_STATUS_CODE :: u32 where "TF_STATUS_CODE = 8"
definition TF_ACCEPT_FDS :: u32 where "TF_ACCEPT_FDS = 16"
definition TF_CLEAR_BUF :: u32 where "TF_CLEAR_BUF = 32"

datatype CallRestriction = NoRestriction | ErrorIfNotOneway | FatalIfNotOneway

datatype ioctl_result = IoctlErrno int nat | Consumed nat

subsection \<open>State and environment\<close>

record 'p ThreadState = CallingState +
  in_parcel :: "br list"
  out_parcel :: "bc list"
  thread_strict_mode_policy :: i32
  is_looper :: bool
  is_flushing :: bool
  call_restriction :: CallRestriction
  pending_strong_derefs :: "u64 list"
  pending_weak_derefs :: "u64 list"
  process :: "'p obj_env"
  current_threads :: nat
  thread_pool_started :: bool
  kernel_started_threads :: nat
  main_thread_spawned :: nat
  ioctl_results :: "ioctl_result list"
  inbox :: "br list list"
  bc_sent :: "bc list"

type_synonym ('p, 'a) tact = "'p ThreadState \<Rightarrow> ('a result \<times> 'p ThreadState) option"

text \<open>What the thread relies on: the platform's errno values, the build profile, the services
  (\<open>as_transactable\<close>, with the \<open>transact\<close> of a service as a function of code, reader, reply and
  state, \<open>Panic\<close> for a handler that unwinds), the reference counts of native objects, the
  destructor that runs when the table drops an object, the death recipients (\<open>te_binder_died\<close>, user
  code whose unwinding is contained), and whether the platform can start a thread. The cache of
  proxies is the subject of \<open>Proxy_Cache\<close>; here \<open>te_obituary\<close> is what an obituary finds there
  (the recipients of a live proxy that had no obituary yet), and \<open>te_last_reference\<close> whether
  the obituary held the last reference to that proxy.\<close>

record 'p thread_env =
  te_errno :: "errno_name \<Rightarrow> int"
  te_eintr :: int
  te_debug_assertions :: bool
  te_kernel :: "'p kernel_ops"
  te_transactable :: "arc \<Rightarrow> (u32 \<Rightarrow> parcel \<times> parcel \<Rightarrow> 'p ThreadState \<Rightarrow>
      (unit result \<times> (parcel \<times> parcel) \<times> 'p ThreadState) option) option"
  te_context_manager :: "arc option"
  te_attempt_increase :: "arc \<Rightarrow> bool"
  te_decrease :: "arc \<Rightarrow> unit result"
  te_destroy :: "arc \<Rightarrow> 'p ThreadState \<Rightarrow> 'p ThreadState option"
  te_obituary :: "u32 \<Rightarrow> 'p obj_env \<Rightarrow> nat list option \<times> 'p obj_env"
  te_binder_died :: "nat \<Rightarrow> 'p ThreadState \<Rightarrow> 'p ThreadState option"
  te_last_reference :: "u32 \<Rightarrow> 'p obj_env \<Rightarrow> bool"
  te_spawn_succeeds :: bool

definition from_transaction_data :: "binder_transaction_data \<Rightarrow> string option \<Rightarrow> TransactionState" where
  "from_transaction_data tr secctx =
    \<lparr>calling_pid = sender_pid tr, calling_sid = secctx, calling_uid = sender_euid tr,
     last_transaction_binder_flags = tflags tr, work_source = 0, propagate_work_source = False,
     explicit_identity = False\<rparr>"

definition queue :: "bc \<Rightarrow> 'p ThreadState \<Rightarrow> 'p ThreadState" where
  "queue c s = s\<lparr>out_parcel := out_parcel s @ [c]\<rparr>"

definition update_natives :: "native_state \<Rightarrow> 'p ThreadState \<Rightarrow> 'p ThreadState" where
  "update_natives n s = s\<lparr>process := (process s)\<lparr>env_natives := n\<rparr>\<rparr>"

definition set_strict_mode_policy :: "i32 \<Rightarrow> 'p ThreadState \<Rightarrow> 'p ThreadState" where
  "set_strict_mode_policy policy s =
    (if \<not> is_initialized s then s else s\<lparr>thread_strict_mode_policy := policy\<rparr>)"

definition get_strict_mode_policy :: "'p ThreadState \<Rightarrow> i32" where
  "get_strict_mode_policy s = (if \<not> is_initialized s then 0 else thread_strict_mode_policy s)"

definition set_call_restriction :: "CallRestriction \<Rightarrow> 'p ThreadState \<Rightarrow> 'p ThreadState" where
  "set_call_restriction r s = s\<lparr>call_restriction := r\<rparr>"

subsection \<open>The ioctl round trip\<close>

text \<open>The \<open>write_read\<close> loop over the one \<open>binder_write_read\<close>, of whose \<open>n\<close> commands \<open>c\<close> have been consumed:
  an interrupted call is repeated from there, another error ends the loop. The result comes with
  what the driver has consumed in the end.\<close>

fun write_read_loop ::
    "'p thread_env \<Rightarrow> nat \<Rightarrow> nat \<Rightarrow> ioctl_result list \<Rightarrow> unit result \<times> nat \<times> ioctl_result list" where
  "write_read_loop E n c [] = (Ok (), n, [])"
| "write_read_loop E n c (IoctlErrno e k # rs) =
    (if e \<noteq> te_eintr E then (Err (StatusCode_of_errno (te_errno E) e), min n (c + k), rs)
     else write_read_loop E n (min n (c + k)) rs)"
| "write_read_loop E n c (Consumed k # rs) = (Ok (), min n (c + k), rs)"

text \<open>The part of \<open>talk_with_driver\<close> after the ioctl, with \<open>k\<close> commands consumed and \<open>batch\<close> read.\<close>

definition after_write_read :: "nat \<Rightarrow> br list \<Rightarrow> ('p, unit) tact" where
  "after_write_read k batch s =
    (if k > 0 \<and> k < length (out_parcel s) then Some (Panic, s)
     else let s = (if k > 0 then s\<lparr>out_parcel := []\<rparr> else s)
          in Some (Ok (), if batch \<noteq> [] then s\<lparr>in_parcel := batch\<rparr> else s))"

text \<open>\<open>bc_sent\<close> records what the driver takes; on an error the code does not look at it and \<open>out_parcel\<close>
  stays as it is.\<close>

definition talk_with_driver :: "'p thread_env \<Rightarrow> bool \<Rightarrow> ('p, unit) tact" where
  "talk_with_driver E do_receive s =
    (let need_read = (in_parcel s = []);
         out_avail = (if \<not> do_receive \<or> need_read then length (out_parcel s) else 0);
         reads = (do_receive \<and> need_read)
     in if out_avail = 0 \<and> \<not> reads then Some (Ok (), s)
        else case write_read_loop E out_avail 0 (ioctl_results s) of
          (r, k, rs) \<Rightarrow>
            (let s = s\<lparr>ioctl_results := rs, bc_sent := bc_sent s @ take k (out_parcel s)\<rparr>
             in case r of
                  Ok _ \<Rightarrow>
                    (if reads
                     then (case inbox s of
                             [] \<Rightarrow> None
                           | batch # bs \<Rightarrow> after_write_read k batch (s\<lparr>inbox := bs\<rparr>))
                     else after_write_read k [] s)
                | Err e \<Rightarrow> Some (Err e, s)
                | Panic \<Rightarrow> Some (Panic, s)))"

definition flush_commands :: "'p thread_env \<Rightarrow> ('p, unit) tact" where
  "flush_commands E s =
    seq_act (talk_with_driver E False s) (\<lambda>_ s.
      if out_parcel s \<noteq> [] then talk_with_driver E False s else Some (Ok (), s))"

text \<open>\<open>FlushGuard\<close> resets \<open>is_flushing\<close> on every exit.\<close>

definition flush_if_needed :: "'p thread_env \<Rightarrow> ('p, bool) tact" where
  "flush_if_needed E s =
    (if is_looper s \<or> is_flushing s then Some (Ok False, s)
     else map_option (\<lambda>(r, s). (bind_out r (\<lambda>_. Ok True), s\<lparr>is_flushing := False\<rparr>))
            (flush_commands E (s\<lparr>is_flushing := True\<rparr>)))"

definition queue_and_flush :: "'p thread_env \<Rightarrow> bc \<Rightarrow> ('p, unit) tact" where
  "queue_and_flush E c s = seq_act (flush_if_needed E (queue c s)) (\<lambda>_ s. Some (Ok (), s))"

definition inc_strong_handle :: "'p thread_env \<Rightarrow> u32 \<Rightarrow> ('p, unit) tact" where
  "inc_strong_handle E handle = queue_and_flush E (BC_ACQUIRE handle)"

definition dec_strong_handle :: "'p thread_env \<Rightarrow> u32 \<Rightarrow> ('p, unit) tact" where
  "dec_strong_handle E handle = queue_and_flush E (BC_RELEASE handle)"

definition inc_weak_handle :: "'p thread_env \<Rightarrow> u32 \<Rightarrow> ('p, unit) tact" where
  "inc_weak_handle E handle = queue_and_flush E (BC_INCREFS handle)"

definition dec_weak_handle :: "'p thread_env \<Rightarrow> u32 \<Rightarrow> ('p, unit) tact" where
  "dec_weak_handle E handle = queue_and_flush E (BC_DECREFS handle)"

definition request_death_notification :: "u32 \<Rightarrow> 'p ThreadState \<Rightarrow> 'p ThreadState" where
  "request_death_notification handle = queue (BC_REQUEST_DEATH_NOTIFICATION handle (ucast handle))"

definition clear_death_notification :: "u32 \<Rightarrow> 'p ThreadState \<Rightarrow> 'p ThreadState" where
  "clear_death_notification handle = queue (BC_CLEAR_DEATH_NOTIFICATION handle (ucast handle))"

text \<open>\<open>free_buffer\<close>, and \<open>Drop\<close> of a parcel: a failed free is logged, the command stays queued.\<close>

definition thread_free_buffer :: "'p thread_env \<Rightarrow> parcel option \<Rightarrow> nat \<Rightarrow> ('p, unit) tact" where
  "thread_free_buffer E parcel data s =
    (let s = (case parcel of
                Some p \<Rightarrow> s\<lparr>process := close_file_descriptors (p, process s)\<rparr>
              | None \<Rightarrow> s)
     in queue_and_flush E (BC_FREE_BUFFER data) s)"

definition thread_parcel_drop :: "'p thread_env \<Rightarrow> parcel \<Rightarrow> ('p, unit) tact" where
  "thread_parcel_drop E p s =
    (case free_buffer p of
       Some data \<Rightarrow>
         map_option (\<lambda>(r, s). (case r of Ok _ \<Rightarrow> Ok () | Err _ \<Rightarrow> Ok () | Panic \<Rightarrow> Panic, s)) (thread_free_buffer E (Some p) data s)
     | None \<Rightarrow> Some (Ok (), s\<lparr>process := release_objects (te_kernel E) (p, process s)\<rparr>))"

subsection \<open>Deferred dereferences\<close>

text \<open>\<open>deref_native_kernel\<close> with the destructor the removal of an entry may run.\<close>

definition deref_id :: "'p thread_env \<Rightarrow> u64 \<Rightarrow> 'p ThreadState \<Rightarrow> 'p ThreadState option" where
  "deref_id E nid s =
    (case deref_native_kernel nid (env_natives (process s)) of
       (found, n) \<Rightarrow>
         let s = update_natives n s
         in case found of
              Some arc \<Rightarrow> if lookup_native nid n = None then te_destroy E arc s else Some s
            | None \<Rightarrow> Some s)"

fun deref_each :: "'p thread_env \<Rightarrow> u64 list \<Rightarrow> 'p ThreadState \<Rightarrow> 'p ThreadState option" where
  "deref_each E [] s = Some s"
| "deref_each E (nid # ids) s = Option.bind (deref_id E nid s) (deref_each E ids)"

text \<open>The inner loop of \<open>process_pending_derefs\<close> takes the weak queue whole until it stays empty; the
  outer loop then takes one strong id.\<close>

primrec drain_weak :: "nat \<Rightarrow> 'p thread_env \<Rightarrow> 'p ThreadState \<Rightarrow> 'p ThreadState option" where
  "drain_weak 0 E s = None"
| "drain_weak (Suc n) E s =
    (if pending_weak_derefs s = [] then Some s
     else Option.bind (deref_each E (pending_weak_derefs s) (s\<lparr>pending_weak_derefs := []\<rparr>)) (drain_weak n E))"

primrec process_pending_derefs :: "nat \<Rightarrow> 'p thread_env \<Rightarrow> ('p, unit) tact" where
  "process_pending_derefs 0 E s = None"
| "process_pending_derefs (Suc n) E s =
    Option.bind (drain_weak (Suc n) E s) (\<lambda>s.
      case pending_strong_derefs s of
        [] \<Rightarrow> Some (Ok (), s)
      | nid # ids \<Rightarrow> Option.bind (deref_id E nid (s\<lparr>pending_strong_derefs := ids\<rparr>)) (process_pending_derefs n E))"

subsection \<open>Transactions from the driver\<close>

definition write_transaction_data ::
    "'p thread_env \<Rightarrow> (binder_transaction_data \<Rightarrow> bc) \<Rightarrow> u32 \<Rightarrow> u32 \<Rightarrow> u32 \<Rightarrow> parcel \<Rightarrow> i32 \<Rightarrow>
      'p ThreadState \<Rightarrow> 'p ThreadState" where
  "write_transaction_data E cmd flags handle code data status s =
    (let tr = (if status = 0
               then \<lparr>target = ucast handle, tcode = code, tflags = flags, sender_pid = 0, sender_euid = 0,
                     tdata = pbytes data, toffsets = as_slice (pobjects data)\<rparr>
               else \<lparr>target = ucast handle, tcode = code, tflags = flags OR TF_STATUS_CODE, sender_pid = 0,
                     sender_euid = 0, tdata = le_bytes status, toffsets = []\<rparr>)
     in queue (cmd tr) s)"

text \<open>A handler that unwinds: the partly written reply is replaced by a new parcel, which drops it.\<close>

definition dispatch_transact_caught ::
    "'p thread_env \<Rightarrow>
      (u32 \<Rightarrow> parcel \<times> parcel \<Rightarrow> 'p ThreadState \<Rightarrow> (unit result \<times> (parcel \<times> parcel) \<times> 'p ThreadState) option) \<Rightarrow>
      u32 \<Rightarrow> parcel \<times> parcel \<Rightarrow> 'p ThreadState \<Rightarrow> (unit result \<times> (parcel \<times> parcel) \<times> 'p ThreadState) option" where
  "dispatch_transact_caught E transact code ps s =
    Option.bind (transact code ps s) (\<lambda>(r, (reader, reply), s).
      case r of
        Panic \<Rightarrow> map_option (\<lambda>(_, s). (Err Unknown, (reader, parcel_new), s)) (thread_parcel_drop E reply s)
      | _ \<Rightarrow> Some (r, (reader, reply), s))"

text \<open>The block that computes \<open>result\<close>. The first component is \<open>Some e\<close> when \<open>strong.decrease()?\<close>
  leaves the whole command with \<open>e\<close>.\<close>

definition dispatch_target ::
    "'p thread_env \<Rightarrow> binder_transaction_data \<Rightarrow> parcel \<times> parcel \<Rightarrow> 'p ThreadState \<Rightarrow>
      (StatusCode option \<times> unit result \<times> (parcel \<times> parcel) \<times> 'p ThreadState) option" where
  "dispatch_target E tr ps s =
    (if target tr \<noteq> 0 then
       (case lookup_native (target tr) (env_natives (process s)) of
          Some arc \<Rightarrow>
            if te_attempt_increase E arc then
              Option.bind
                (case te_transactable E arc of
                   Some t \<Rightarrow> dispatch_transact_caught E t (tcode tr) ps s
                 | None \<Rightarrow> Some (Err UnknownTransaction, ps, s))
                (\<lambda>(result, ps, s).
                   Some (case te_decrease E arc of Err e \<Rightarrow> Some e | _ \<Rightarrow> None, result, ps, s))
            else Some (None, Err UnknownTransaction, ps, s)
        | None \<Rightarrow> Some (None, Err DeadObject, ps, s))
     else
       (case te_context_manager E of
          Some context \<Rightarrow>
            (case te_transactable E context of
               Some t \<Rightarrow> map_option (Pair None) (dispatch_transact_caught E t (tcode tr) ps s)
             | None \<Rightarrow> Some (None, Err UnknownTransaction, ps, s))
        | None \<Rightarrow> Some (None, Err DeadObject, ps, s)))"

datatype UntilResponse = UntilReply | UntilTransactionComplete | UntilAcquireResult

text \<open>The closure of \<open>reply_result\<close>; \<open>wait\<close> is \<open>wait_for_response\<close>.\<close>

definition send_reply_to_driver ::
    "'p thread_env \<Rightarrow> (UntilResponse \<Rightarrow> ('p, parcel option) tact) \<Rightarrow> u32 \<Rightarrow> unit result \<Rightarrow> parcel \<Rightarrow>
      ('p, unit) tact" where
  "send_reply_to_driver E wait flags result reply s =
    (if flags AND TF_ONE_WAY = 0 then
       (let status = (case result of Err err \<Rightarrow> word_of_int (i32_of_StatusCode (te_errno E) err) | _ \<Rightarrow> 0)
        in seq_act (wait UntilTransactionComplete
             (write_transaction_data E BC_REPLY (flags AND TF_CLEAR_BUF) (- 1) 0 reply status s))
             (\<lambda>_ s. Some (Ok (), s)))
     else Some (Ok (), s))"

text \<open>The end of the arm: \<open>reply\<close> is dropped, then \<open>reader\<close>.\<close>

definition drop_both :: "'p thread_env \<Rightarrow> parcel \<Rightarrow> parcel \<Rightarrow> unit result \<Rightarrow> ('p, unit) tact" where
  "drop_both E reply reader r s =
    seq_act (thread_parcel_drop E reply s) (\<lambda>_ s.
      seq_act (thread_parcel_drop E reader s) (\<lambda>_ s. Some (r, s)))"

definition br_transaction ::
    "'p thread_env \<Rightarrow> (UntilResponse \<Rightarrow> ('p, parcel option) tact) \<Rightarrow> binder_transaction_data \<Rightarrow> string option \<Rightarrow>
      nat \<Rightarrow> ('p, unit) tact" where
  "br_transaction E wait tr secctx buffer s =
    (let reader = from_ipc_parts (tdata tr) (toffsets tr) buffer;
         transaction_old = transaction s;
         s = clear_propagate_work_source (clear_calling_work_source s);
         s = s\<lparr>transaction := Some (from_transaction_data tr secctx)\<rparr>
     in Option.bind (dispatch_target E tr (reader, parcel_new) s) (\<lambda>(early, result, (reader, reply), s).
       case early of
         Some e \<Rightarrow> drop_both E reply reader (Err e) s
       | None \<Rightarrow>
           Option.bind (send_reply_to_driver E wait (tflags tr) result reply s) (\<lambda>(reply_result, s).
             let s = s\<lparr>transaction := transaction_old\<rparr>
             in case reply_result of
                  Panic \<Rightarrow> drop_both E reply reader (Err Unknown) (s\<lparr>out_parcel := []\<rparr>)
                | r \<Rightarrow> drop_both E reply reader r s)))"

text \<open>\<open>drive_dead_binder_handshake\<close>, over its three closures.\<close>

definition drive_dead_binder_handshake ::
    "('p, unit) tact \<Rightarrow> ('p, unit) tact \<Rightarrow> ('p, unit) tact \<Rightarrow> ('p, unit) tact" where
  "drive_dead_binder_handshake obituary queue_done pin_release s =
    Option.bind (obituary s) (\<lambda>(obituary_result, s).
      if obituary_result = Panic then Some (Panic, s) else
      seq_act (queue_done s) (\<lambda>_ s.
        Option.bind (pin_release s) (\<lambda>(pin_result, s).
          if pin_result = Panic then Some (Panic, s) else
          Some (case obituary_result of Ok _ \<Rightarrow> pin_result | Err e \<Rightarrow> Err e | Panic \<Rightarrow> Panic, s))))"

text \<open>The obituary as the thread runs it: \<open>send_obituary_for_handle\<close> with \<open>ProxyHandle::send_obituary\<close>
  and \<open>dispatch_obituary_callbacks\<close>, the drop of the proxy it kept, and \<open>release_obituary_pin\<close>.\<close>

fun callbacks_on_thread :: "'p thread_env \<Rightarrow> nat list \<Rightarrow> 'p ThreadState \<Rightarrow> 'p ThreadState option" where
  "callbacks_on_thread E [] s = Some s"
| "callbacks_on_thread E (r # rs) s = Option.bind (te_binder_died E r s) (callbacks_on_thread E rs)"

definition drop_kept_proxy :: "'p thread_env \<Rightarrow> u32 \<Rightarrow> unit result \<Rightarrow> ('p, unit) tact" where
  "drop_kept_proxy E handle r s =
    (if te_last_reference E handle (process s)
     then map_option (\<lambda>(d, s). (if d = Panic then Panic else r, s)) (dec_strong_handle E handle s)
     else Some (r, s))"

definition obituary_on_thread :: "'p thread_env \<Rightarrow> u32 \<Rightarrow> ('p, unit) tact" where
  "obituary_on_thread E handle s =
    (case te_obituary E handle (process s) of
       (None, env) \<Rightarrow> Some (Ok (), s\<lparr>process := env\<rparr>)
     | (Some snapshot, env) \<Rightarrow>
         let s = s\<lparr>process := env\<rparr>;
             s = (if snapshot \<noteq> [] then clear_death_notification handle s else s)
         in Option.bind (callbacks_on_thread E snapshot s) (\<lambda>s.
              Option.bind (if snapshot \<noteq> [] then flush_commands E s else Some (Ok (), s)) (\<lambda>(r, s).
                drop_kept_proxy E handle r s)))"

definition release_pin_on_thread :: "'p thread_env \<Rightarrow> u32 \<Rightarrow> ('p, unit) tact" where
  "release_pin_on_thread E handle s =
    seq_act (flush_commands E s) (\<lambda>_ s.
      seq_act (dec_weak_handle E handle s) (\<lambda>_ s. flush_commands E s))"

definition spawn_pooled_thread :: "'p thread_env \<Rightarrow> bool \<Rightarrow> 'p ThreadState \<Rightarrow> 'p ThreadState" where
  "spawn_pooled_thread E is_main s =
    (if thread_pool_started s \<and> te_spawn_succeeds E then
       (if is_main then s\<lparr>main_thread_spawned := main_thread_spawned s + 1\<rparr>
        else s\<lparr>kernel_started_threads := kernel_started_threads s + 1\<rparr>)
     else s)"

text \<open>\<open>BR_INCREFS\<close> and \<open>BR_ACQUIRE\<close>: \<open>done\<close> is the command that answers them.\<close>

definition br_take_ref :: "'p thread_env \<Rightarrow> bc \<Rightarrow> u64 \<Rightarrow> ('p, unit) tact" where
  "br_take_ref E answer nid s =
    (case ref_native_kernel nid (env_natives (process s)) of
       (found, n) \<Rightarrow>
         let s = update_natives n s
         in if found = None \<and> te_debug_assertions E then Some (Panic, s) else Some (Ok (), queue answer s))"

fun execute_command ::
    "'p thread_env \<Rightarrow> (UntilResponse \<Rightarrow> ('p, parcel option) tact) \<Rightarrow> br \<Rightarrow> ('p, unit) tact" where
  "execute_command E wait (BR_ERROR e) s = Some (Err (StatusCode_of_i32 (te_errno E) (sint e)), s)"
| "execute_command E wait BR_OK s = Some (Ok (), s)"
| "execute_command E wait (BR_TRANSACTION_SEC_CTX tr secctx buffer) s = br_transaction E wait tr (Some secctx) buffer s"
| "execute_command E wait (BR_TRANSACTION tr buffer) s = br_transaction E wait tr None buffer s"
| "execute_command E wait (BR_INCREFS nid ck) s = br_take_ref E (BC_INCREFS_DONE nid ck) nid s"
| "execute_command E wait (BR_ACQUIRE nid ck) s = br_take_ref E (BC_ACQUIRE_DONE nid ck) nid s"
| "execute_command E wait (BR_RELEASE nid ck) s =
    Some (Ok (), s\<lparr>pending_strong_derefs := pending_strong_derefs s @ [nid]\<rparr>)"
| "execute_command E wait (BR_DECREFS nid ck) s =
    Some (Ok (), s\<lparr>pending_weak_derefs := pending_weak_derefs s @ [nid]\<rparr>)"
| "execute_command E wait (BR_ATTEMPT_ACQUIRE nid ck) s =
    (case ref_native_kernel nid (env_natives (process s)) of
       (found, n) \<Rightarrow>
         Some (Ok (), queue (BC_ACQUIRE_RESULT (if found \<noteq> None then 1 else 0)) (update_natives n s)))"
| "execute_command E wait BR_NOOP s = Some (Ok (), s)"
| "execute_command E wait BR_SPAWN_LOOPER s = Some (Ok (), spawn_pooled_thread E False s)"
| "execute_command E wait BR_FINISHED s = Some (Err TimedOut, s)"
| "execute_command E wait (BR_DEAD_BINDER handle) s =
    drive_dead_binder_handshake (obituary_on_thread E (ucast handle))
      (\<lambda>s. Some (Ok (), queue (BC_DEAD_BINDER_DONE handle) s))
      (release_pin_on_thread E (ucast handle)) s"
| "execute_command E wait (BR_CLEAR_DEATH_NOTIFICATION_DONE handle) s = Some (Ok (), s)"
| "execute_command E wait _ s = Some (Err Unknown, s)"

subsection \<open>Waiting for the answer of a call\<close>

text \<open>The arm \<open>BR_REPLY\<close> of \<open>wait_for_response\<close>; \<open>Ok None\<close> continues the loop.\<close>

definition br_reply :: "'p thread_env \<Rightarrow> UntilResponse \<Rightarrow> binder_transaction_data \<Rightarrow> nat \<Rightarrow> ('p, parcel option) tact" where
  "br_reply E until tr buffer s =
    (if until = UntilReply then
       (if tflags tr AND TF_STATUS_CODE = 0
        then Some (Ok (Some (from_ipc_parts (tdata tr) (toffsets tr) buffer)), s)
        else
          let status = (if length (tdata tr) \<ge> 4
                        then StatusCode_of_i32 (te_errno E) (sint (of_le_bytes (take 4 (tdata tr)) :: i32))
                        else BadValue)
          in seq_act (thread_free_buffer E None buffer s) (\<lambda>_ s.
               if status \<noteq> StatusOk then Some (Err status, s) else Some (Ok (Some parcel_new), s)))
     else seq_act (thread_free_buffer E None buffer s) (\<lambda>_ s. Some (Ok None, s)))"

text \<open>The \<open>match\<close> of \<open>wait_for_response\<close>; \<open>wait\<close> goes round the loop, and is what a nested transaction
  waits with.\<close>

definition response_arm ::
    "'p thread_env \<Rightarrow> (UntilResponse \<Rightarrow> ('p, parcel option) tact) \<Rightarrow> UntilResponse \<Rightarrow> br \<Rightarrow> ('p, parcel option) tact" where
  "response_arm E wait until cmd s =
    (case cmd of
       BR_ONEWAY_SPAM_SUSPECT \<Rightarrow> if until = UntilTransactionComplete then Some (Ok None, s) else wait until s
     | BR_TRANSACTION_COMPLETE \<Rightarrow> if until = UntilTransactionComplete then Some (Ok None, s) else wait until s
     | BR_TRANSACTION_PENDING_FROZEN \<Rightarrow> Some (Ok None, s)
     | BR_DEAD_REPLY \<Rightarrow> Some (Err DeadObject, s)
     | BR_FAILED_REPLY \<Rightarrow> Some (Err FailedTransaction, s)
     | BR_FROZEN_REPLY \<Rightarrow> Some (Err FailedTransaction, s)
     | BR_ACQUIRE_RESULT result \<Rightarrow>
         if until = UntilAcquireResult then Some (if result \<noteq> 0 then Ok None else Err InvalidOperation, s)
         else if te_debug_assertions E then Some (Panic, s) else wait until s
     | BR_REPLY tr buffer \<Rightarrow>
         seq_act (br_reply E until tr buffer s) (\<lambda>reply s.
           case reply of Some p \<Rightarrow> Some (Ok (Some p), s) | None \<Rightarrow> wait until s)
     | _ \<Rightarrow> seq_act (execute_command E wait cmd s) (\<lambda>_ s. wait until s))"

primrec wait_for_response ::
    "nat \<Rightarrow> 'p thread_env \<Rightarrow> UntilResponse \<Rightarrow> ('p, parcel option) tact" where
  "wait_for_response 0 E until s = None"
| "wait_for_response (Suc n) E until s =
    seq_act (talk_with_driver E True s) (\<lambda>_ s.
      case in_parcel s of
        [] \<Rightarrow> wait_for_response n E until s
      | cmd # rest \<Rightarrow> response_arm E (wait_for_response n E) until cmd (s\<lparr>in_parcel := rest\<rparr>))"

subsection \<open>Outgoing calls\<close>

definition thread_transact :: "nat \<Rightarrow> 'p thread_env \<Rightarrow> u32 \<Rightarrow> u32 \<Rightarrow> parcel \<Rightarrow> u32 \<Rightarrow> ('p, parcel option) tact" where
  "thread_transact n E handle code data flags s =
    (let flags = flags OR TF_ACCEPT_FDS
     in if flags AND TF_ONE_WAY = 0 \<and> call_restriction s = FatalIfNotOneway then Some (Panic, s)
        else let s = write_transaction_data E BC_TRANSACTION flags handle code data 0 s
             in if flags AND TF_ONE_WAY = 0 then wait_for_response n E UntilReply s
                else seq_act (wait_for_response n E UntilTransactionComplete s) (\<lambda>_ s. Some (Ok None, s)))"

definition query_interface :: "nat \<Rightarrow> 'p thread_env \<Rightarrow> u32 \<Rightarrow> ('p, scalar list) tact" where
  "query_interface n E handle s =
    seq_act (thread_transact n E handle INTERFACE_TRANSACTION parcel_new 0 s) (\<lambda>reply s.
      case reply of
        None \<Rightarrow> Some (Err UnexpectedNull, s)
      | Some p \<Rightarrow>
          (case deserialize_str p of
             (interface, p) \<Rightarrow> seq_act (thread_parcel_drop E p s) (\<lambda>_ s. Some (interface, s))))"

definition ping_binder :: "nat \<Rightarrow> 'p thread_env \<Rightarrow> u32 \<Rightarrow> ('p, unit) tact" where
  "ping_binder n E handle s =
    seq_act (thread_transact n E handle PING_TRANSACTION parcel_new 0 s) (\<lambda>reply s.
      case reply of None \<Rightarrow> Some (Ok (), s) | Some p \<Rightarrow> thread_parcel_drop E p s)"

subsection \<open>The looper\<close>

text \<open>A read of an empty \<open>in_parcel\<close> fails with \<open>NotEnoughData\<close>.\<close>

definition get_and_execute_command :: "nat \<Rightarrow> 'p thread_env \<Rightarrow> ('p, unit) tact" where
  "get_and_execute_command n E s =
    seq_act (talk_with_driver E True s) (\<lambda>_ s.
      case in_parcel s of
        [] \<Rightarrow> Some (Err NotEnoughData, s)
      | cmd # rest \<Rightarrow> execute_command E (wait_for_response n E) cmd (s\<lparr>in_parcel := rest\<rparr>))"

primrec handle_commands :: "nat \<Rightarrow> 'p thread_env \<Rightarrow> ('p, unit) tact" where
  "handle_commands 0 E s = None"
| "handle_commands (Suc n) E s =
    seq_act (get_and_execute_command n E s) (\<lambda>_ s.
      if in_parcel s \<noteq> [] then seq_act (flush_commands E s) (\<lambda>_ s. handle_commands n E s)
      else Some (Ok (), s))"

text \<open>The loop of \<open>join_thread_pool\<close>: every error leaves it; \<open>Ok e\<close> is the error it left with.\<close>

primrec pool_loop :: "nat \<Rightarrow> 'p thread_env \<Rightarrow> ('p, StatusCode) tact" where
  "pool_loop 0 E s = None"
| "pool_loop (Suc n) E s =
    seq_act (if in_parcel s = [] then process_pending_derefs n E s else Some (Ok (), s)) (\<lambda>_ s.
      Option.bind (get_and_execute_command n E s) (\<lambda>(r, s).
        case r of Ok _ \<Rightarrow> pool_loop n E s | Err e \<Rightarrow> Some (Ok e, s) | Panic \<Rightarrow> Some (Panic, s)))"

text \<open>\<open>ThreadCountGuard\<close> gives the count back on every exit.\<close>

definition join_thread_pool :: "nat \<Rightarrow> 'p thread_env \<Rightarrow> bool \<Rightarrow> ('p, unit) tact" where
  "join_thread_pool n E is_main s =
    map_option (\<lambda>(r, s). (r, s\<lparr>current_threads := current_threads s - 1\<rparr>))
      (let s = s\<lparr>current_threads := current_threads s + 1\<rparr>;
           s = queue (if is_main then BC_ENTER_LOOPER else BC_REGISTER_LOOPER) s;
           s = s\<lparr>is_looper := True\<rparr>
       in seq_act (pool_loop n E s) (\<lambda>_ s.
            let s = (queue BC_EXIT_LOOPER s)\<lparr>is_looper := False\<rparr>
            in talk_with_driver E False s))"

end
