(* ===== verification/Thread_Calls.thy ===== *)
theory Thread_Calls
  imports Thread_State "HOL-Library.Multiset"
begin

text \<open>
  What the thread engine of \<open>Thread_State\<close> keeps through a call: the calling identity, whatever
  transactions nest in it, and the ledger of what the driver is owed. \<open>post\<close> is the weakest
  precondition of an action that may not return.
\<close>

section \<open>Actions that may not return\<close>

definition post :: "('r \<times> 's) option \<Rightarrow> ('r \<Rightarrow> 's \<Rightarrow> bool) \<Rightarrow> bool" where
  "post m Q \<longleftrightarrow> (\<forall>r s. m = Some (r, s) \<longrightarrow> Q r s)"

lemma post_None [simp]: "post None Q"
  by (simp add: post_def)

lemma post_Some [simp]: "post (Some (r, s)) Q \<longleftrightarrow> Q r s"
  by (simp add: post_def)

lemma post_seq_act [simp]:
  "post (seq_act m f) Q \<longleftrightarrow>
    post m (\<lambda>r s. case r of Ok a \<Rightarrow> post (f a s) Q | Err e \<Rightarrow> Q (Err e) s | Panic \<Rightarrow> Q Panic s)"
  by (cases m) (auto simp: seq_act_def split: outcome.splits)

lemma post_bind [simp]: "post (Option.bind m f) Q \<longleftrightarrow> post m (\<lambda>r s. post (f (r, s)) Q)"
  by (cases m) auto

lemma post_map [simp]: "post (map_option g m) Q \<longleftrightarrow> post m (\<lambda>r s. Q (fst (g (r, s))) (snd (g (r, s))))"
  by (cases m) (auto simp: post_def prod_eq_iff)

lemma post_mono: "post m P \<Longrightarrow> (\<And>r s. P r s \<Longrightarrow> Q r s) \<Longrightarrow> post m Q"
  by (auto simp: post_def)

lemma postD: "post m Q \<Longrightarrow> m = Some (r, s) \<Longrightarrow> Q r s"
  by (simp add: post_def)

text \<open>An action that keeps a property of the state, and one that also never unwinds.\<close>

abbreviation keeps :: "('s \<Rightarrow> bool) \<Rightarrow> ('r \<times> 's) option \<Rightarrow> bool" where
  "keeps P m \<equiv> post m (\<lambda>_. P)"

abbreviation safe :: "('s \<Rightarrow> bool) \<Rightarrow> (('e, 'a) outcome \<times> 's) option \<Rightarrow> bool" where
  "safe P m \<equiv> post m (\<lambda>r s. r \<noteq> Panic \<and> P s)"

lemma keeps_seq: "keeps P m \<Longrightarrow> (\<And>a t. P t \<Longrightarrow> keeps P (f a t)) \<Longrightarrow> keeps P (seq_act m f)"
  unfolding post_seq_act by (erule post_mono) (auto split: outcome.splits)

lemma keeps_bind: "keeps P m \<Longrightarrow> (\<And>a t. P t \<Longrightarrow> keeps P (f (a, t))) \<Longrightarrow> keeps P (Option.bind m f)"
  unfolding post_bind by (erule post_mono) auto

lemma safe_seq: "safe P m \<Longrightarrow> (\<And>a t. P t \<Longrightarrow> safe P (f a t)) \<Longrightarrow> safe P (seq_act m f)"
  unfolding post_seq_act by (erule post_mono) (auto split: outcome.splits)

lemma post_ok_seq:
  "post m (\<lambda>r t. r = Ok () \<and> P t) \<Longrightarrow> (\<And>t. P t \<Longrightarrow> post (f () t) Q) \<Longrightarrow> post (seq_act m f) Q"
  unfolding post_seq_act by (erule post_mono) auto

section \<open>The calling identity\<close>

abbreviation caller :: "TransactionState option \<Rightarrow> 'p ThreadState \<Rightarrow> bool" where
  "caller T s \<equiv> transaction s = T"

text \<open>What is asked of code the engine calls: a death recipient, which runs in the transaction of whoever
  waits, leaves the calling identity as it found it, and releasing the dispatcher's own reference to
  a service succeeds, as it does for every native object (\<open>Inner::dec_strong\<close> has no failing path). Nothing
  is asked of the services.\<close>

definition recipients_keep_caller :: "'p thread_env \<Rightarrow> bool" where
  "recipients_keep_caller E \<longleftrightarrow>
    (\<forall>r s s'. te_binder_died E r s = Some s' \<longrightarrow> transaction s' = transaction s) \<and>
    (\<forall>arc. te_decrease E arc = Ok ())"

lemma transaction_queue [simp]: "transaction (queue c s) = transaction s"
  by (simp add: queue_def)

lemma transaction_update_natives [simp]: "transaction (update_natives n s) = transaction s"
  by (simp add: update_natives_def)

lemma talk_keeps_caller: "caller T s \<Longrightarrow> keeps (caller T) (talk_with_driver E d s)"
  by (auto simp: talk_with_driver_def after_write_read_def Let_def split: prod.splits outcome.splits list.splits)

lemma flush_commands_keeps_caller: "caller T s \<Longrightarrow> keeps (caller T) (flush_commands E s)"
  by (auto simp: flush_commands_def simp del: post_seq_act intro!: keeps_seq talk_keeps_caller)

lemma flush_keeps_caller: "caller T s \<Longrightarrow> keeps (caller T) (flush_if_needed E s)"
  using flush_commands_keeps_caller [of "s\<lparr>is_flushing := True\<rparr>" T E]
  by (auto simp: flush_if_needed_def elim!: post_mono)

lemma queue_and_flush_keeps_caller: "caller T s \<Longrightarrow> keeps (caller T) (queue_and_flush E c s)"
  unfolding queue_and_flush_def by (intro keeps_seq flush_keeps_caller) auto

lemma free_keeps_caller: "caller T s \<Longrightarrow> keeps (caller T) (thread_free_buffer E p a s)"
  by (auto simp: thread_free_buffer_def Let_def intro: queue_and_flush_keeps_caller split: option.splits)

lemma drop_keeps_caller: "caller T s \<Longrightarrow> keeps (caller T) (thread_parcel_drop E p s)"
  by (auto simp: thread_parcel_drop_def intro: free_keeps_caller split: option.splits)

lemma drop_both_keeps_caller: "caller T s \<Longrightarrow> keeps (caller T) (drop_both E p q r s)"
  unfolding drop_both_def by (intro keeps_seq drop_keeps_caller) auto

lemma callbacks_keep_caller:
  assumes "recipients_keep_caller E"
  shows "callbacks_on_thread E rs s = Some s' \<Longrightarrow> transaction s' = transaction s"
proof (induction rs arbitrary: s)
  case (Cons r rs)
  then obtain t where "te_binder_died E r s = Some t" "callbacks_on_thread E rs t = Some s'"
    by (auto simp: bind_eq_Some_conv)
  moreover have "transaction t = transaction s"
    using assms calculation(1) unfolding recipients_keep_caller_def by blast
  ultimately show ?case using Cons.IH [of t] by simp
qed simp

lemma drop_kept_keeps_caller: "caller T s \<Longrightarrow> keeps (caller T) (drop_kept_proxy E h r s)"
  using queue_and_flush_keeps_caller [of s T E "BC_RELEASE h"]
  by (auto simp: drop_kept_proxy_def dec_strong_handle_def elim!: post_mono split: prod.splits)

lemma obituary_keeps_caller:
  assumes E: "recipients_keep_caller E" and s: "caller T s"
  shows "keeps (caller T) (obituary_on_thread E h s)"
proof -
  have run: "keeps (caller T) (Option.bind (callbacks_on_thread E rs t) (\<lambda>s.
      Option.bind (if rs \<noteq> [] then flush_commands E s else Some (Ok (), s)) (\<lambda>(r, s). drop_kept_proxy E h r s)))"
    if "caller T t" for rs t
  proof (cases "callbacks_on_thread E rs t")
    case (Some u)
    then have "caller T u" using callbacks_keep_caller [OF E] that by simp
    then have "keeps (caller T) (if rs \<noteq> [] then flush_commands E u else Some (Ok (), u))"
      using flush_commands_keeps_caller [of u T E] by simp
    then show ?thesis
      using Some by (auto simp del: post_bind intro!: keeps_bind drop_kept_keeps_caller)
  qed simp
  obtain snap env where o: "te_obituary E h (process s) = (snap, env)" by fastforce
  show ?thesis
  proof (cases snap)
    case None
    then show ?thesis using o s by (simp add: obituary_on_thread_def)
  next
    case (Some rs)
    have "caller T (if rs \<noteq> [] then clear_death_notification h (s\<lparr>process := env\<rparr>) else s\<lparr>process := env\<rparr>)"
      using s by (simp add: clear_death_notification_def)
    from run [OF this] show ?thesis
      unfolding obituary_on_thread_def o Some by (simp only: prod.case option.case Let_def)
  qed
qed

lemma release_pin_keeps_caller: "caller T s \<Longrightarrow> keeps (caller T) (release_pin_on_thread E h s)"
  unfolding release_pin_on_thread_def dec_weak_handle_def
  by (intro keeps_seq flush_commands_keeps_caller queue_and_flush_keeps_caller)

lemma dispatch_target_no_early:
  "recipients_keep_caller E \<Longrightarrow> post (dispatch_target E tr ps t) (\<lambda>early _. early = None)"
  by (auto simp: dispatch_target_def recipients_keep_caller_def post_def bind_eq_Some_conv split: if_splits option.splits)

lemma br_transaction_keeps_caller:
  assumes "recipients_keep_caller E" and "caller T s"
  shows "keeps (caller T) (br_transaction E w tr ctx a s)"
  unfolding br_transaction_def Let_def post_bind assms(2)
  by (rule post_mono [OF dispatch_target_no_early [OF assms(1)]])
    (auto simp: post_def [of "send_reply_to_driver _ _ _ _ _ _"] split: outcome.splits intro!: drop_both_keeps_caller)

lemma handshake_keeps:
  assumes "P s" "\<And>t. P t \<Longrightarrow> keeps P (obit t)" "\<And>t. P t \<Longrightarrow> keeps P (qd t)" "\<And>t. P t \<Longrightarrow> keeps P (pin t)"
  shows "keeps P (drive_dead_binder_handshake obit qd pin s)"
  unfolding drive_dead_binder_handshake_def
  by (rule keeps_bind) (use assms in \<open>auto simp del: post_seq_act post_bind intro!: keeps_seq keeps_bind\<close>)

lemma execute_keeps_caller:
  assumes E: "recipients_keep_caller E" and s: "caller T s"
  shows "keeps (caller T) (execute_command E w cmd s)"
proof (cases cmd)
  case (BR_DEAD_BINDER h)
  show ?thesis
    using s unfolding BR_DEAD_BINDER execute_command.simps
    by (rule handshake_keeps) (auto intro: obituary_keeps_caller [OF E] release_pin_keeps_caller)
qed (use s in \<open>auto simp: br_take_ref_def Let_def spawn_pooled_thread_def split: prod.splits
      intro!: br_transaction_keeps_caller [OF E]\<close>)

lemma br_reply_keeps_caller: "caller T s \<Longrightarrow> keeps (caller T) (br_reply E u tr a s)"
  by (auto simp: br_reply_def Let_def simp del: post_seq_act intro!: keeps_seq free_keeps_caller)

lemma arm_keeps_caller:
  assumes E: "recipients_keep_caller E" and wait: "\<And>u t. caller T t \<Longrightarrow> keeps (caller T) (wait u t)" and s: "caller T s"
  shows "keeps (caller T) (response_arm E wait u cmd s)"
proof -
  have step: "keeps (caller T) (seq_act (execute_command E wait cmd s) (\<lambda>_ s. wait u s))"
    by (intro keeps_seq execute_keeps_caller [OF E s] wait)
  have reply: "keeps (caller T) (seq_act (br_reply E u tr a s) (\<lambda>reply s.
      case reply of Some p \<Rightarrow> Some (Ok (Some p), s) | None \<Rightarrow> wait u s))" for tr a
    using wait by (intro keeps_seq br_reply_keeps_caller s) (auto split: option.splits)
  show ?thesis
    unfolding response_arm_def
    by (cases cmd) (use step reply s wait [OF s] in \<open>simp_all del: post_seq_act execute_command.simps\<close>)
qed

lemma wait_keeps_caller:
  assumes E: "recipients_keep_caller E"
  shows "caller T s \<Longrightarrow> keeps (caller T) (wait_for_response n E u s)"
proof (induction n arbitrary: s u)
  case (Suc n)
  have "keeps (caller T) (case in_parcel t of [] \<Rightarrow> wait_for_response n E u t
      | cmd # rest \<Rightarrow> response_arm E (wait_for_response n E) u cmd (t\<lparr>in_parcel := rest\<rparr>))" if "caller T t" for t
    using that Suc.IH arm_keeps_caller [OF E Suc.IH] by (auto split: list.splits)
  then show ?case
    using Suc.prems by (simp del: post_seq_act) (intro keeps_seq talk_keeps_caller)
qed simp

section \<open>The ledger\<close>

text \<open>The driver is owed the return of every buffer it delivers and one reply per two-way transaction.
  What the batches still hold is owed, what is queued or sent is settled.\<close>

datatype duty = Buffer nat | Answer

fun br_owes :: "br \<Rightarrow> duty multiset" where
  "br_owes (BR_TRANSACTION tr a) = {#Buffer a#} + (if tflags tr AND TF_ONE_WAY = 0 then {#Answer#} else {#})"
| "br_owes (BR_TRANSACTION_SEC_CTX tr ctx a) = {#Buffer a#} + (if tflags tr AND TF_ONE_WAY = 0 then {#Answer#} else {#})"
| "br_owes (BR_REPLY tr a) = {#Buffer a#}"
| "br_owes _ = {#}"

fun bc_settles :: "bc \<Rightarrow> duty multiset" where
  "bc_settles (BC_FREE_BUFFER a) = {#Buffer a#}"
| "bc_settles (BC_REPLY tr) = {#Answer#}"
| "bc_settles _ = {#}"

definition sum_duties :: "('c \<Rightarrow> duty multiset) \<Rightarrow> 'c list \<Rightarrow> duty multiset" where
  "sum_duties f cs = sum_list (map f cs)"

definition ledger :: "'p ThreadState \<Rightarrow> duty multiset" where
  "ledger s = sum_duties br_owes (in_parcel s) + sum_duties br_owes (concat (inbox s)) +
     sum_duties bc_settles (bc_sent s) + sum_duties bc_settles (out_parcel s)"

fun parcel_owes :: "parcel option \<Rightarrow> duty multiset" where
  "parcel_owes (Some p) = (case free_buffer p of Some a \<Rightarrow> {#Buffer a#} | None \<Rightarrow> {#})"
| "parcel_owes None = {#}"

text \<open>The driver takes the whole write buffer whenever the ioctl succeeds; a call that fails has taken
  nothing, or all failures are interruptions, after which the call goes on where it was.\<close>

definition orderly :: "'p thread_env \<Rightarrow> 'p ThreadState \<Rightarrow> bool" where
  "orderly E s \<longleftrightarrow>
    (\<forall>x \<in> set (ioctl_results s). \<exists>e. x = IoctlErrno e 0) \<or>
    (\<forall>x \<in> set (ioctl_results s). \<exists>k. x = IoctlErrno (te_eintr E) k)"

definition balanced :: "'p thread_env \<Rightarrow> duty multiset \<Rightarrow> 'p ThreadState \<Rightarrow> bool" where
  "balanced E L s \<longleftrightarrow> orderly E s \<and> ledger s = L"

lemma sum_duties_simps [simp]:
  "sum_duties f [] = {#}" "sum_duties f (c # cs) = f c + sum_duties f cs"
  "sum_duties f (cs @ ds) = sum_duties f cs + sum_duties f ds"
  by (simp_all add: sum_duties_def)

lemma write_read_orderly:
  assumes "write_read_loop E n c rs = (r, k, rs')"
  shows "\<forall>x \<in> set rs. \<exists>e. x = IoctlErrno e 0 \<Longrightarrow> c = 0 \<Longrightarrow>
      (r = Ok () \<and> k = n \<or> (\<exists>e. r = Err e) \<and> k = 0) \<and> set rs' \<subseteq> set rs"
    and "\<forall>x \<in> set rs. \<exists>k. x = IoctlErrno (te_eintr E) k \<Longrightarrow> r = Ok () \<and> k = n \<and> set rs' \<subseteq> set rs"
  using assms by (induction E n c rs rule: write_read_loop.induct) (auto split: if_splits)

lemma ledger_updates [simp]:
  "ledger (s\<lparr>transaction := x\<rparr>) = ledger s" "ledger (s\<lparr>process := y\<rparr>) = ledger s"
  "ledger (s\<lparr>is_flushing := f\<rparr>) = ledger s" "ledger (s\<lparr>is_looper := f\<rparr>) = ledger s"
  "ledger (s\<lparr>pending_strong_derefs := q\<rparr>) = ledger s" "ledger (s\<lparr>pending_weak_derefs := q\<rparr>) = ledger s"
  "ledger (s\<lparr>kernel_started_threads := k\<rparr>) = ledger s"
  "ledger (queue c s) = ledger s + bc_settles c" "ledger (update_natives n s) = ledger s"
  by (simp_all add: ledger_def queue_def update_natives_def ac_simps)

lemma orderly_updates [simp]:
  "orderly E (s\<lparr>transaction := x\<rparr>) = orderly E s" "orderly E (s\<lparr>process := y\<rparr>) = orderly E s"
  "orderly E (s\<lparr>is_flushing := f\<rparr>) = orderly E s" "orderly E (s\<lparr>is_looper := f\<rparr>) = orderly E s"
  "orderly E (s\<lparr>pending_strong_derefs := q\<rparr>) = orderly E s" "orderly E (s\<lparr>pending_weak_derefs := q\<rparr>) = orderly E s"
  "orderly E (s\<lparr>kernel_started_threads := k\<rparr>) = orderly E s" "orderly E (s\<lparr>in_parcel := b\<rparr>) = orderly E s"
  "orderly E (queue c s) = orderly E s" "orderly E (update_natives n s) = orderly E s"
  by (simp_all add: orderly_def queue_def update_natives_def)

lemma talk_balanced: "balanced E L s \<Longrightarrow> safe (balanced E L) (talk_with_driver E d s)"
proof -
  assume s: "balanced E L s"
  let ?n = "if \<not> d \<or> in_parcel s = [] then length (out_parcel s) else 0"
  obtain r k rs where w: "write_read_loop E ?n 0 (ioctl_results s) = (r, k, rs)" by (metis prod_cases3)
  have r: "r = Ok () \<and> k = ?n \<or> (\<exists>e. r = Err e) \<and> k = 0" "orderly E (s\<lparr>ioctl_results := rs\<rparr>)"
  proof -
    have "orderly E s" using s by (simp add: balanced_def)
    then have "(r = Ok () \<and> k = ?n \<or> (\<exists>e. r = Err e) \<and> k = 0) \<and>
        ((\<forall>x \<in> set rs. \<exists>e. x = IoctlErrno e 0) \<or> (\<forall>x \<in> set rs. \<exists>k. x = IoctlErrno (te_eintr E) k))"
      unfolding orderly_def using write_read_orderly [OF w] by (meson subsetD)
    then show "r = Ok () \<and> k = ?n \<or> (\<exists>e. r = Err e) \<and> k = 0" "orderly E (s\<lparr>ioctl_results := rs\<rparr>)"
      by (simp_all add: orderly_def)
  qed
  then show ?thesis
    using s w
    by (auto simp: talk_with_driver_def after_write_read_def balanced_def orderly_def ledger_def Let_def ac_simps
        split: list.splits outcome.splits if_splits)
qed

lemma flush_commands_balanced: "balanced E L s \<Longrightarrow> safe (balanced E L) (flush_commands E s)"
  by (auto simp: flush_commands_def simp del: post_seq_act intro!: safe_seq talk_balanced)

lemma flush_balanced: "balanced E L s \<Longrightarrow> safe (balanced E L) (flush_if_needed E s)"
proof -
  assume "balanced E L s"
  then have "safe (balanced E L) (flush_commands E (s\<lparr>is_flushing := True\<rparr>))"
    by (intro flush_commands_balanced) (simp add: balanced_def)
  then show ?thesis
    using \<open>balanced E L s\<close> by (auto simp: flush_if_needed_def balanced_def elim!: post_mono split: outcome.splits) (case_tac r; simp)+
qed

lemma queue_and_flush_balanced:
  "balanced E L s \<Longrightarrow> safe (balanced E (L + bc_settles c)) (queue_and_flush E c s)"
  unfolding queue_and_flush_def
  by (intro safe_seq flush_balanced) (auto simp: balanced_def)

lemma free_balanced: "balanced E L s \<Longrightarrow> safe (balanced E (L + {#Buffer a#})) (thread_free_buffer E p a s)"
  using queue_and_flush_balanced [where c = "BC_FREE_BUFFER a" and L = L and E = E]
  by (auto simp: thread_free_buffer_def Let_def balanced_def split: option.splits)

lemma drop_balanced:
  assumes "balanced E L s"
  shows "post (thread_parcel_drop E p s) (\<lambda>r t. r = Ok () \<and> balanced E (L + parcel_owes (Some p)) t)"
proof (cases "free_buffer p")
  case (Some a)
  have "r \<noteq> Panic \<Longrightarrow> (case r of Ok _ \<Rightarrow> Ok () | Err _ \<Rightarrow> Ok () | Panic \<Rightarrow> Panic) = (Ok () :: unit result)"
    for r :: "unit result"
    by (cases r) simp_all
  with free_balanced [OF assms, where p = "Some p" and a = a] Some show ?thesis
    by (auto simp: thread_parcel_drop_def elim!: post_mono)
qed (use assms in \<open>simp add: thread_parcel_drop_def balanced_def\<close>)

lemma drop_both_balanced:
  assumes "balanced E L s" and "r \<noteq> Panic"
  shows "safe (balanced E (L + parcel_owes (Some p) + parcel_owes (Some q))) (drop_both E p q r s)"
  unfolding drop_both_def
  by (rule post_ok_seq [OF drop_balanced [OF assms(1)]], rule post_ok_seq [OF drop_balanced])
    (use assms(2) in simp_all)

text \<open>What is asked of the services and the death recipients: a handler gives back the reader and the
  reply parcel it was given, settles what its own calls receive, and keeps the driver's
  write buffer in order; so does a death recipient.\<close>

definition services_settle :: "'p thread_env \<Rightarrow> bool" where
  "services_settle E \<longleftrightarrow>
    \<not> te_debug_assertions E \<and> (\<forall>arc. te_decrease E arc = Ok ()) \<and>
    (\<forall>arc t code reader reply s L. te_transactable E arc = Some t \<longrightarrow> balanced E L s \<longrightarrow>
      post (t code (reader, reply) s) (\<lambda>_ (ps, s'). balanced E L s' \<and>
        free_buffer (fst ps) = free_buffer reader \<and> free_buffer (snd ps) = free_buffer reply)) \<and>
    (\<forall>r s s' L. balanced E L s \<longrightarrow> te_binder_died E r s = Some s' \<longrightarrow> balanced E L s')"

lemma dispatch_caught_balanced:
  assumes "services_settle E" "te_transactable E arc = Some t" "balanced E L s" "free_buffer reply = None"
  shows "post (dispatch_transact_caught E t code (reader, reply) s) (\<lambda>r (ps, s'). r \<noteq> Panic \<and> balanced E L s' \<and>
    free_buffer (fst ps) = free_buffer reader \<and> free_buffer (snd ps) = None)"
proof -
  have "post (t code (reader, reply) s) (\<lambda>_ (ps, s'). balanced E L s' \<and>
      free_buffer (fst ps) = free_buffer reader \<and> free_buffer (snd ps) = free_buffer reply)"
    using assms(1-3) unfolding services_settle_def by blast
  then show ?thesis
    unfolding dispatch_transact_caught_def post_bind
  proof (rule post_mono, clarify)
    fix r :: "unit result" and reader' reply' :: parcel and s'
    assume bal: "balanced E L s'" and fb: "free_buffer (fst (reader', reply')) = free_buffer reader"
      "free_buffer (snd (reader', reply')) = free_buffer reply"
    have "post (thread_parcel_drop E reply' s') (\<lambda>r t. r = Ok () \<and> balanced E L t)"
      using drop_balanced [OF bal, of reply'] fb assms(4) by simp
    then show "post (case r of
          Panic \<Rightarrow> map_option (\<lambda>(_, s). (Err Unknown, (reader', parcel_new), s)) (thread_parcel_drop E reply' s')
        | _ \<Rightarrow> Some (r, (reader', reply'), s'))
      (\<lambda>r (ps, s'). r \<noteq> Panic \<and> balanced E L s' \<and> free_buffer (fst ps) = free_buffer reader \<and> free_buffer (snd ps) = None)"
      using bal fb assms(4) by (cases r) (auto simp: parcel_new_def elim!: post_mono)
  qed
qed

lemma callbacks_balanced:
  assumes "services_settle E"
  shows "balanced E L s \<Longrightarrow> callbacks_on_thread E rs s = Some s' \<Longrightarrow> balanced E L s'"
proof (induction rs arbitrary: s)
  case (Cons r rs)
  then obtain t where t: "te_binder_died E r s = Some t" "callbacks_on_thread E rs t = Some s'"
    by (auto simp: bind_eq_Some_conv)
  then have "balanced E L t" using assms Cons.prems(1) unfolding services_settle_def by blast
  then show ?case using Cons.IH t(2) by blast
qed simp

lemma drop_kept_balanced: "balanced E L s \<Longrightarrow> r \<noteq> Panic \<Longrightarrow> safe (balanced E L) (drop_kept_proxy E h r s)"
  using queue_and_flush_balanced [of E L s "BC_RELEASE h"]
  by (auto simp: drop_kept_proxy_def dec_strong_handle_def split: prod.splits elim!: post_mono)

lemma obituary_balanced:
  assumes E: "services_settle E" and s: "balanced E L s"
  shows "safe (balanced E L) (obituary_on_thread E h s)"
proof -
  have run: "safe (balanced E L) (Option.bind (callbacks_on_thread E rs t) (\<lambda>s.
      Option.bind (if rs \<noteq> [] then flush_commands E s else Some (Ok (), s)) (\<lambda>(r, s). drop_kept_proxy E h r s)))"
    if "balanced E L t" for rs t
  proof (cases "callbacks_on_thread E rs t")
    case (Some u)
    then have "balanced E L u" using callbacks_balanced [OF E that] by simp
    then have "safe (balanced E L) (if rs \<noteq> [] then flush_commands E u else Some (Ok (), u))"
      using flush_commands_balanced [of E L u] by simp
    then show ?thesis
      unfolding Some Option.bind.simps post_bind by (rule post_mono) (auto intro: drop_kept_balanced)
  qed simp
  obtain snap env where o: "te_obituary E h (process s) = (snap, env)" by fastforce
  show ?thesis
  proof (cases snap)
    case None
    then show ?thesis using o s by (simp add: obituary_on_thread_def balanced_def)
  next
    case (Some rs)
    have "balanced E L (if rs \<noteq> [] then clear_death_notification h (s\<lparr>process := env\<rparr>) else s\<lparr>process := env\<rparr>)"
      using s by (simp add: clear_death_notification_def balanced_def)
    from run [OF this] show ?thesis
      unfolding obituary_on_thread_def o Some by (simp only: prod.case option.case Let_def)
  qed
qed

lemma release_pin_balanced: "balanced E L s \<Longrightarrow> safe (balanced E L) (release_pin_on_thread E h s)"
  unfolding release_pin_on_thread_def dec_weak_handle_def
  using queue_and_flush_balanced [where c = "BC_DECREFS h" and E = E and L = L]
  by (intro safe_seq flush_commands_balanced) simp_all

lemma dispatch_target_balanced:
  assumes "services_settle E" "balanced E L s" "free_buffer reply = None"
  shows "post (dispatch_target E tr (reader, reply) s) (\<lambda>early (r, ps, s'). early = None \<and> r \<noteq> Panic \<and> balanced E L s' \<and>
    free_buffer (fst ps) = free_buffer reader \<and> free_buffer (snd ps) = None)"
proof -
  have "te_decrease E arc = Ok ()" for arc
    using assms(1) by (simp add: services_settle_def)
  then show ?thesis
    using dispatch_caught_balanced [OF assms(1) _ assms(2,3)] assms(2,3)
    by (auto simp: dispatch_target_def post_def bind_eq_Some_conv split: option.splits)
qed

lemma send_reply_balanced:
  assumes "\<And>L t. balanced E L t \<Longrightarrow> safe (balanced E L) (wait UntilTransactionComplete t)" "balanced E L s"
  shows "safe (balanced E (L + (if flags AND TF_ONE_WAY = 0 then {#Answer#} else {#})))
    (send_reply_to_driver E wait flags r reply s)"
proof -
  have "balanced E (L + {#Answer#}) (write_transaction_data E BC_REPLY f h c p x s)" for f h c p x
    using assms(2) by (simp add: balanced_def write_transaction_data_def)
  from assms(1) [OF this] show ?thesis
    unfolding send_reply_to_driver_def Let_def
    using assms(2) by (auto intro!: safe_seq simp del: post_seq_act)
qed

lemma br_transaction_balanced:
  assumes E: "services_settle E"
    and wait: "\<And>L t. balanced E L t \<Longrightarrow> safe (balanced E L) (wait UntilTransactionComplete t)"
    and s: "balanced E L s"
  shows "safe (balanced E (L + {#Buffer a#} + (if tflags tr AND TF_ONE_WAY = 0 then {#Answer#} else {#})))
    (br_transaction E wait tr ctx a s)"
proof -
  define A where "A = (if tflags tr AND TF_ONE_WAY = 0 then {#Answer#} else {#})"
  let ?reader = "from_ipc_parts (tdata tr) (toffsets tr) a"
  have fb: "free_buffer ?reader = Some a" "free_buffer parcel_new = None"
    by (simp_all add: from_ipc_parts_def parcel_new_def)
  have rest: "safe (balanced E (L + {#Buffer a#} + A))
      (Option.bind (send_reply_to_driver E wait (tflags tr) r reply t) (\<lambda>(reply_result, s).
         let s = s\<lparr>transaction := old\<rparr>
         in case reply_result of
              Panic \<Rightarrow> drop_both E reply reader (Err Unknown) (s\<lparr>out_parcel := []\<rparr>)
            | r \<Rightarrow> drop_both E reply reader r s))"
    if "balanced E L t" "free_buffer reader = Some a" "free_buffer reply = None" for r reader reply t old
  proof -
    have "safe (balanced E (L + {#Buffer a#} + A)) (drop_both E reply reader q (u\<lparr>transaction := old\<rparr>))"
      if "balanced E (L + A) u" "q \<noteq> Panic" for u q
      using drop_both_balanced [of E "L + A" "u\<lparr>transaction := old\<rparr>" q reply reader] that
        \<open>free_buffer reader = Some a\<close> \<open>free_buffer reply = None\<close> by (simp add: balanced_def ac_simps)
    note both = this
    show ?thesis
      unfolding post_bind
      by (rule post_mono [OF send_reply_balanced [where wait = wait and flags = "tflags tr", OF wait that(1), folded A_def]])
        (auto simp: Let_def split: outcome.split intro!: both [simplified])
  qed
  have "balanced E L ((clear_propagate_work_source (clear_calling_work_source s))\<lparr>transaction := x\<rparr>)" for x
    using s by (auto simp: balanced_def clear_propagate_work_source_def clear_calling_work_source_def
        set_calling_work_source_uid_def set_calling_work_source_uid_without_propagation_def split: option.splits)
  from dispatch_target_balanced [OF E this fb(2)] show ?thesis
    unfolding br_transaction_def Let_def post_bind A_def [symmetric]
    by (rule post_mono) (use fb rest in \<open>auto simp: Let_def simp del: post_bind\<close>)
qed

lemma handshake_safe:
  assumes "P s" "\<And>t. P t \<Longrightarrow> safe P (obit t)" "\<And>t. P t \<Longrightarrow> safe P (qd t)" "\<And>t. P t \<Longrightarrow> safe P (pin t)"
  shows "safe P (drive_dead_binder_handshake obit qd pin s)"
  unfolding drive_dead_binder_handshake_def post_bind
  by (rule post_mono [OF assms(2) [OF assms(1)]])
    (auto simp del: post_seq_act intro!: safe_seq assms(3) post_mono [OF assms(4)] split: outcome.splits)

lemma execute_balanced:
  assumes E: "services_settle E"
    and wait: "\<And>L t. balanced E L t \<Longrightarrow> safe (balanced E L) (wait UntilTransactionComplete t)"
    and s: "balanced E L s" and cmd: "\<And>tr a. cmd \<noteq> BR_REPLY tr a"
  shows "safe (balanced E (L + br_owes cmd)) (execute_command E wait cmd s)"
proof (cases cmd)
  case (BR_DEAD_BINDER h)
  have "safe (balanced E L) (execute_command E wait cmd s)"
    unfolding BR_DEAD_BINDER execute_command.simps
    by (rule handshake_safe [where P = "balanced E L", OF s])
      (auto intro: obituary_balanced [OF E] release_pin_balanced simp: balanced_def [of E L "queue _ _"], auto simp: balanced_def)
  then show ?thesis by (simp add: BR_DEAD_BINDER)
next
  case (BR_TRANSACTION tr a)
  then show ?thesis
    using br_transaction_balanced [where wait = wait, OF E wait s, where a = a and tr = tr and ctx = None] by (simp add: ac_simps)
next
  case (BR_TRANSACTION_SEC_CTX tr ctx a)
  then show ?thesis
    using br_transaction_balanced [where wait = wait, OF E wait s, where a = a and tr = tr and ctx = "Some ctx"] by (simp add: ac_simps)
qed (use s cmd E in \<open>auto simp: br_take_ref_def services_settle_def Let_def spawn_pooled_thread_def balanced_def
      split: prod.splits\<close>)

definition settled :: "'p thread_env \<Rightarrow> UntilResponse \<Rightarrow> duty multiset \<Rightarrow> parcel option result \<Rightarrow> 'p ThreadState \<Rightarrow> bool" where
  "settled E u L r s \<longleftrightarrow> r \<noteq> Panic \<and> orderly E s \<and>
    (case r of Ok p \<Rightarrow> ledger s + parcel_owes p = L \<and> (u \<noteq> UntilReply \<longrightarrow> p = None) | _ \<Rightarrow> ledger s = L)"

lemma br_reply_settled:
  assumes "balanced E L s"
  shows "post (br_reply E u tr a s) (settled E u (L + {#Buffer a#}))"
proof -
  have "post (seq_act (thread_free_buffer E None a s) f) (settled E u (L + {#Buffer a#}))"
    if "\<And>t. balanced E (L + {#Buffer a#}) t \<Longrightarrow> post (f () t) (settled E u (L + {#Buffer a#}))" for f
    unfolding post_seq_act
    by (rule post_mono [OF free_balanced [OF assms]]) (use that in \<open>auto simp: settled_def balanced_def split: outcome.split\<close>)
  then show ?thesis
    using assms
    by (auto simp: br_reply_def Let_def settled_def balanced_def parcel_new_def from_ipc_parts_def simp del: post_seq_act)
qed

lemma arm_settled:
  assumes E: "services_settle E" and wait: "\<And>L u t. balanced E L t \<Longrightarrow> post (wait u t) (settled E u L)"
    and s: "balanced E K s" "K + br_owes cmd = L"
  shows "post (response_arm E wait u cmd s) (settled E u L)"
proof -
  have w: "safe (balanced E M) (wait UntilTransactionComplete t)" if "balanced E M t" for M t
    by (rule post_mono [OF wait [OF that]]) (auto simp: settled_def balanced_def split: outcome.splits)
  have step: "post (seq_act (execute_command E wait cmd s) (\<lambda>_ s. wait u s)) (settled E u L)"
    if "\<And>tr a. cmd \<noteq> BR_REPLY tr a"
    unfolding post_seq_act
    by (rule post_mono [OF execute_balanced [where wait = wait, OF E w s(1) that]])
      (use s(2) in \<open>auto intro!: wait simp: settled_def balanced_def split: outcome.split\<close>)
  have reply: "post (seq_act (br_reply E u tr a s) (\<lambda>reply s.
      case reply of Some p \<Rightarrow> Some (Ok (Some p), s) | None \<Rightarrow> wait u s)) (settled E u L)"
    if "K + {#Buffer a#} = L" for tr a
    unfolding post_seq_act
    by (rule post_mono [OF br_reply_settled [OF s(1)]])
      (use that in \<open>auto intro!: wait simp: settled_def balanced_def split: outcome.splits option.splits\<close>)
  have "post (wait u s) (settled E u L)" if "br_owes cmd = {#}"
    using that s by (intro wait) simp
  moreover have "\<not> te_debug_assertions E"
    using E by (simp add: services_settle_def)
  ultimately show ?thesis
    unfolding response_arm_def using s
    by (cases cmd) (use step reply in \<open>simp_all del: post_seq_act execute_command.simps add: settled_def balanced_def\<close>)
qed

lemma wait_settled:
  assumes E: "services_settle E"
  shows "balanced E L s \<Longrightarrow> post (wait_for_response n E u s) (settled E u L)"
proof (induction n arbitrary: s u L)
  case (Suc n)
  have "post (case in_parcel t of [] \<Rightarrow> wait_for_response n E u t
      | cmd # rest \<Rightarrow> response_arm E (wait_for_response n E) u cmd (t\<lparr>in_parcel := rest\<rparr>)) (settled E u L)"
    if "balanced E L t" for t
  proof (cases "in_parcel t")
    case (Cons cmd rest)
    then have "balanced E (ledger (t\<lparr>in_parcel := rest\<rparr>)) (t\<lparr>in_parcel := rest\<rparr>)"
      "ledger (t\<lparr>in_parcel := rest\<rparr>) + br_owes cmd = L"
      using that by (auto simp: balanced_def ledger_def ac_simps)
    with Cons show ?thesis using arm_settled [OF E Suc.IH] by simp
  qed (use that Suc.IH in simp)
  then show ?case
    unfolding wait_for_response.simps post_seq_act
    by (intro post_mono [OF talk_balanced [OF Suc.prems]]) (auto simp: settled_def balanced_def split: outcome.splits)
qed simp

lemma write_transaction_data_balanced:
  "balanced E L s \<Longrightarrow> balanced E L (write_transaction_data E BC_TRANSACTION f h c p x s)"
  by (simp add: write_transaction_data_def balanced_def)

lemma transact_settled:
  assumes "services_settle E" "balanced E L s"
  shows "post (thread_transact n E h c d f s) (\<lambda>r s'. orderly E s' \<and>
    ledger s' + (case r of Ok p \<Rightarrow> parcel_owes p | _ \<Rightarrow> {#}) = L)"
proof -
  have w: "post (wait_for_response n E u (write_transaction_data E BC_TRANSACTION g h c d 0 s)) (settled E u L)" for u g
    using assms by (intro wait_settled write_transaction_data_balanced)
  have "post (seq_act (wait_for_response n E UntilTransactionComplete
        (write_transaction_data E BC_TRANSACTION g h c d 0 s)) (\<lambda>_ s. Some (Ok None, s)))
      (\<lambda>r s'. orderly E s' \<and> ledger s' + (case r of Ok p \<Rightarrow> parcel_owes p | _ \<Rightarrow> {#}) = L)" for g
    unfolding post_seq_act by (rule post_mono [OF w]) (auto simp: settled_def split: outcome.splits)
  then show ?thesis
    using assms(2) post_mono [OF w, of UntilReply]
    by (auto simp: thread_transact_def Let_def balanced_def settled_def simp del: post_seq_act split: outcome.splits)
qed

section \<open>Properties\<close>

text \<open>An environment for the examples: no errno, a release build, one service that takes over the identity,
  calls out one-way through the thread's own engine and then unwinds, and a platform that refuses
  to start threads.\<close>

definition no_services :: "'p thread_env" where
  "no_services = \<lparr>te_errno = (\<lambda>_. 1), te_eintr = 4, te_debug_assertions = False,
     te_kernel = \<lparr>kx_increase = (\<lambda>_ p. (Ok (), p)), kx_decrease = (\<lambda>_ p. (Ok (), p)),
       kx_dupfd = (\<lambda>fd p. (Ok fd, p)), kx_proxy = (\<lambda>_ _ p. (Ok (), p))\<rparr>,
     te_transactable = (\<lambda>_. None), te_context_manager = None, te_attempt_increase = (\<lambda>_. True),
     te_decrease = (\<lambda>_. Ok ()), te_destroy = (\<lambda>_ s. Some s),
     te_obituary = (\<lambda>_ p. (Some [8], p)), te_binder_died = (\<lambda>_ s. Some s), te_last_reference = (\<lambda>_ _. True),
     te_spawn_succeeds = False\<rparr>"

definition sample_service :: "u32 \<Rightarrow> parcel \<times> parcel \<Rightarrow> unit ThreadState \<Rightarrow>
    (unit result \<times> (parcel \<times> parcel) \<times> unit ThreadState) option" where
  "sample_service code ps s =
    map_option (\<lambda>(_, s). (Panic, ps, s))
      (thread_transact 2 no_services 7 code parcel_new 1 (snd (clear_calling_identity s)))"

definition sample_env :: "unit thread_env" where
  "sample_env = no_services\<lparr>te_transactable := (\<lambda>arc. if arc = 5 then Some sample_service else None),
     te_context_manager := Some 5\<rparr>"

definition sample_call :: "u32 \<Rightarrow> binder_transaction_data" where
  "sample_call flags = \<lparr>target = 0, tcode = 1, tflags = flags, sender_pid = 11, sender_euid = 1000, tdata = [1, 0, 0, 0],
     toffsets = []\<rparr>"

definition sample_state :: "unit ThreadState" where
  "sample_state = \<lparr>RPC_CALLING = None, is_initialized = True, transaction = None, getuid = 1, getpid = 2,
     in_parcel = [], out_parcel = [], thread_strict_mode_policy = 0, is_looper = True, is_flushing = False,
     call_restriction = NoRestriction, pending_strong_derefs = [], pending_weak_derefs = [],
     process = \<lparr>env_natives = native_init, env_kernel = (), env_closed = [], env_parceled = []\<rparr>,
     current_threads = 1, thread_pool_started = True, kernel_started_threads = 0, main_thread_spawned = 0,
     ioctl_results = [], inbox = [[BR_NOOP, BR_TRANSACTION (sample_call 0) 64], [BR_TRANSACTION_COMPLETE],
       [BR_DEAD_BINDER 6, BR_TRANSACTION_COMPLETE], [BR_REPLY (sample_call 0) 128]], bc_sent = []\<rparr>"

lemmas sample_evaluation = sample_env_def no_services_def sample_state_def sample_call_def sample_service_def
  thread_transact_def write_transaction_data_def queue_def Let_def TF_ONE_WAY_def TF_ACCEPT_FDS_def TF_STATUS_CODE_def
  TF_CLEAR_BUF_def seq_act_def talk_with_driver_def after_write_read_def response_arm_def br_transaction_def
  dispatch_target_def dispatch_transact_caught_def clear_calling_identity_def clear_propagate_work_source_def
  clear_calling_work_source_def set_calling_work_source_uid_def set_calling_work_source_uid_without_propagation_def
  from_transaction_data_def send_reply_to_driver_def drop_both_def thread_parcel_drop_def thread_free_buffer_def
  queue_and_flush_def flush_if_needed_def parcel_new_def from_ipc_parts_def release_objects_def close_file_descriptors_def
  br_reply_def drive_dead_binder_handshake_def obituary_on_thread_def release_pin_on_thread_def drop_kept_proxy_def
  clear_death_notification_def flush_commands_def dec_weak_handle_def dec_strong_handle_def

lemma sample_returns:
  "\<exists>r s'. thread_transact 20 sample_env 3 1 parcel_new 0 sample_state = Some (r, s') \<and> is_ok r"
  by (simp add: sample_evaluation eval_nat_numeral)

lemma services_settle_sample: "services_settle sample_env"
proof -
  have none: "services_settle (no_services :: unit thread_env)"
    by (simp add: services_settle_def no_services_def)
  have same: "balanced sample_env L s = balanced no_services L s" for L and s :: "unit ThreadState"
    by (simp add: balanced_def orderly_def sample_env_def no_services_def)
  have clear: "balanced no_services L (snd (clear_calling_identity s))" if "balanced no_services L s"
    for L and s :: "unit ThreadState"
    using that by (auto simp: clear_calling_identity_def balanced_def split: option.splits)
  have oneway: "post (thread_transact 2 no_services 7 code parcel_new 1 s) (\<lambda>r _. r = Ok None \<or> (\<forall>p. r \<noteq> Ok p))"
    for code and s :: "unit ThreadState"
    by (simp add: thread_transact_def Let_def TF_ONE_WAY_def TF_ACCEPT_FDS_def) (auto simp: post_def split: outcome.split)
  have "post (sample_service code (reader, reply) s) (\<lambda>_ (ps, s'). balanced no_services L s' \<and>
      free_buffer (fst ps) = free_buffer reader \<and> free_buffer (snd ps) = free_buffer reply)"
    if "balanced no_services L s" for code reader reply s L
  proof -
    let ?call = "thread_transact 2 no_services 7 code parcel_new 1 (snd (clear_calling_identity s))"
    have "balanced no_services L s'" if call: "?call = Some (r, s')" for r s'
      using postD [OF transact_settled [OF none clear [OF \<open>balanced no_services L s\<close>]] call] postD [OF oneway call]
      by (cases r) (auto simp: balanced_def)
    then show ?thesis by (auto simp: sample_service_def post_def)
  qed
  then show ?thesis
    by (simp add: services_settle_def same) (simp add: sample_env_def no_services_def)
qed



lemma transact_keeps_caller:
  assumes "recipients_keep_caller E"
  shows "keeps (caller (transaction s)) (thread_transact n E handle code data flags s)"
proof -
  have "keeps (caller (transaction s)) (wait_for_response n E u (write_transaction_data E BC_TRANSACTION g handle code data 0 s))"
    for u g
    by (rule wait_keeps_caller [OF assms]) (simp add: write_transaction_data_def)
  then show ?thesis
    unfolding thread_transact_def Let_def by (auto simp del: post_seq_act intro!: keeps_seq)
qed



section \<open>A call that the driver refuses\<close>

text \<open>C12: when the ioctl of an outgoing call fails, the call returns the error with its \<open>BC_TRANSACTION\<close>
  still queued, and the next flush of the thread sends it after the caller has been told that
  the call failed. It sends the whole queue, whatever part of it the driver had already taken
  before the error.\<close>

theorem failed_call_stays_queued:
  assumes "in_parcel s = []" and "ioctl_results s = [IoctlErrno e k]" and "e \<noteq> te_eintr E"
    and "flags AND TF_ONE_WAY \<noteq> 0 \<or> call_restriction s \<noteq> FatalIfNotOneway"
  shows "\<exists>s' tr. thread_transact (Suc n) E handle code data flags s = Some (Err (StatusCode_of_errno (te_errno E) e), s') \<and>
    out_parcel s' = out_parcel s @ [BC_TRANSACTION tr] \<and> tcode tr = code \<and> tdata tr = pbytes data \<and>
    (\<exists>s''. flush_commands E s' = Some (Ok (), s'') \<and>
      bc_sent s'' = bc_sent s @ take k (out_parcel s @ [BC_TRANSACTION tr]) @ out_parcel s @ [BC_TRANSACTION tr])"
proof -
  have "(flags OR TF_ACCEPT_FDS) AND TF_ONE_WAY = flags AND TF_ONE_WAY"
    by (simp add: TF_ACCEPT_FDS_def TF_ONE_WAY_def bit.conj_disj_distrib2)
  moreover have "take (min (Suc (length xs)) k) xs @ take (min (Suc (length xs)) k - length xs) [c] =
      take k xs @ take (k - length xs) [c]" for xs and c :: bc
    by (auto simp: min_def)
  ultimately show ?thesis
    using assms
    by (auto simp: thread_transact_def Let_def write_transaction_data_def queue_def talk_with_driver_def seq_act_def
        flush_commands_def after_write_read_def)
qed

theorem failed_call_stays_queued_witness:
  "\<exists>s' tr. thread_transact 1 sample_env 3 1 parcel_new 0 (sample_state\<lparr>ioctl_results := [IoctlErrno 11 1]\<rparr>) =
      Some (Err (StatusCode_of_errno (te_errno sample_env) 11), s') \<and> out_parcel s' = [BC_TRANSACTION tr] \<and>
      (\<exists>s''. flush_commands sample_env s' = Some (Ok (), s'') \<and> bc_sent s'' = [BC_TRANSACTION tr, BC_TRANSACTION tr])"
  using failed_call_stays_queued [of "sample_state\<lparr>ioctl_results := [IoctlErrno 11 1]\<rparr>" 11 1 sample_env 0 0 3 1 parcel_new]
  by (auto simp: sample_state_def sample_env_def no_services_def)

end
