(* ===== verification/Thread_Loops.thy ===== *)
theory Thread_Loops
  imports Thread_Calls
begin

text \<open>
  The loops of the thread engine of \<open>Thread_State\<close> come to an end: the deferred dereferences, also
  when destructors queue more of them, and the wait for a reply.
\<close>

section \<open>Deferred dereferences\<close>

definition native_ids :: "'p ThreadState \<Rightarrow> u64 set" where
  "native_ids s = fst ` set (published_natives (env_natives (process s)))"

text \<open>What is asked of destructors: they return, and the objects they publish are paid for from a supply
  \<open>b\<close> that the rest of the process holds, so that no chain of destructors publishes for ever. Besides
  that they may do anything to the thread, in particular call out and queue more dereferences.\<close>

definition stock :: "('p \<Rightarrow> nat) \<Rightarrow> 'p ThreadState \<Rightarrow> nat" where
  "stock b s = card (native_ids s) + b (env_kernel (process s))"

definition destructors_bounded :: "'p thread_env \<Rightarrow> ('p \<Rightarrow> nat) \<Rightarrow> bool" where
  "destructors_bounded E b \<longleftrightarrow> (\<forall>arc s. \<exists>s'. te_destroy E arc s = Some s' \<and> stock b s' \<le> stock b s)"

lemma finite_native_ids [simp]: "finite (native_ids s)"
  by (simp add: native_ids_def)

lemma native_ids_updates [simp]:
  "native_ids (s\<lparr>pending_weak_derefs := w\<rparr>) = native_ids s" "native_ids (s\<lparr>pending_strong_derefs := w\<rparr>) = native_ids s"
  "native_ids (update_natives n s) = fst ` set (published_natives n)"
  by (simp_all add: native_ids_def update_natives_def)

lemma pending_update_natives [simp]:
  "pending_weak_derefs (update_natives n s) = pending_weak_derefs s"
  "pending_strong_derefs (update_natives n s) = pending_strong_derefs s"
  by (simp_all add: update_natives_def)

lemma stock_updates [simp]:
  "stock b (s\<lparr>pending_weak_derefs := w\<rparr>) = stock b s" "stock b (s\<lparr>pending_strong_derefs := w\<rparr>) = stock b s"
  by (simp_all add: stock_def)

lemma kernel_update_natives [simp]: "env_kernel (process (update_natives n s)) = env_kernel (process s)"
  by (simp add: update_natives_def)

lemma lookup_native_None: "lookup_native nid n = None \<longleftrightarrow> nid \<notin> fst ` set (published_natives n)"
  by (simp add: lookup_native_def get_native_def map_of_eq_None_iff)

lemma put_native_ids: "fst ` set (published_natives (put_native nid e n)) = insert nid (fst ` set (published_natives n))"
  by (simp add: put_native_def dom_update)

lemma publish_native_ids:
  "fst ` set (published_natives (snd (publish_native arc n))) =
    insert (fst (publish_native arc n)) (fst ` set (published_natives n))"
  by (simp add: publish_native_def Let_def put_native_ids split: option.split prod.split)

lemma deref_native_kernel_ids:
  assumes "deref_native_kernel nid n = (found, n')"
  shows "fst ` set (published_natives n') \<subseteq> fst ` set (published_natives n)"
    and "found \<noteq> None \<Longrightarrow> nid \<in> fst ` set (published_natives n)"
proof -
  have sub: "fst ` set (published_natives (remove_entry_if_zero nid m)) \<subseteq> fst ` set (published_natives m)" for m
    by (auto simp: remove_entry_if_zero_def AList.delete_eq split: option.splits)
  show "found \<noteq> None \<Longrightarrow> nid \<in> fst ` set (published_natives n)"
    using assms lookup_native_None [of nid n]
    by (auto simp: deref_native_kernel_def deref_native_kernel_locked_def lookup_native_def Let_def split: option.splits)
  show "fst ` set (published_natives n') \<subseteq> fst ` set (published_natives n)"
  proof (cases "get_native n nid")
    case None
    then show ?thesis using assms by (simp add: deref_native_kernel_def deref_native_kernel_locked_def)
  next
    case (Some e)
    then have "nid \<in> fst ` set (published_natives n)"
      using lookup_native_None [of nid n] by (auto simp: lookup_native_def)
    then have put: "fst ` set (published_natives (put_native nid x n)) = fst ` set (published_natives n)" for x
      using put_native_ids by blast
    have "n' = put_native nid (e\<lparr>kernel_refs := kernel_refs e - 1\<rparr>) n \<or>
        n' = remove_entry_if_zero nid (put_native nid (e\<lparr>kernel_refs := kernel_refs e - 1\<rparr>) n)"
      using Some assms by (auto simp: deref_native_kernel_def deref_native_kernel_locked_def Let_def split: if_splits)
    then show ?thesis using put sub [of "put_native nid (e\<lparr>kernel_refs := kernel_refs e - 1\<rparr>) n"] by auto
  qed
qed

text \<open>One dereference either uses up some of the stock or leaves the queues alone.\<close>

definition progress :: "('p \<Rightarrow> nat) \<Rightarrow> 'p ThreadState \<Rightarrow> 'p ThreadState \<Rightarrow> bool" where
  "progress b s s' \<longleftrightarrow> stock b s' < stock b s \<or>
    stock b s' \<le> stock b s \<and> pending_weak_derefs s' = pending_weak_derefs s \<and>
    pending_strong_derefs s' = pending_strong_derefs s"

lemma progress_trans: "progress b s t \<Longrightarrow> progress b t u \<Longrightarrow> progress b s u"
  by (auto simp: progress_def)

lemma deref_id_progress:
  assumes "destructors_bounded E b"
  shows "\<exists>s'. deref_id E nid s = Some s' \<and> progress b s s'"
proof -
  obtain found n where d: "deref_native_kernel nid (env_natives (process s)) = (found, n)" by fastforce
  note ids = deref_native_kernel_ids [OF d]
  show ?thesis
  proof (cases "found \<noteq> None \<and> lookup_native nid n = None")
    case True
    then obtain arc where "found = Some arc" by auto
    moreover obtain s' where "te_destroy E arc (update_natives n s) = Some s'" "stock b s' \<le> stock b (update_natives n s)"
      using assms unfolding destructors_bounded_def by blast
    moreover have "native_ids (update_natives n s) \<subset> native_ids s"
      using True ids lookup_native_None [of nid n] by (auto simp: native_ids_def [of s])
    then have "card (native_ids (update_natives n s)) < card (native_ids s)"
      by (rule psubset_card_mono [OF finite_native_ids])
    then have "stock b (update_natives n s) < stock b s"
      unfolding stock_def kernel_update_natives by simp
    ultimately show ?thesis
      using d True by (auto simp: deref_id_def progress_def)
  next
    case False
    then have "deref_id E nid s = Some (update_natives n s)"
      using d by (auto simp: deref_id_def Let_def split: option.splits)
    moreover have "stock b (update_natives n s) \<le> stock b s"
      using ids(1) card_mono [OF finite_native_ids, of "fst ` set (published_natives n)" s]
      by (simp add: stock_def native_ids_def [of s])
    ultimately show ?thesis by (simp add: progress_def)
  qed
qed

lemma deref_each_progress:
  assumes "destructors_bounded E b"
  shows "\<exists>s'. deref_each E ids s = Some s' \<and> progress b s s'"
proof (induction ids arbitrary: s)
  case (Cons nid ids)
  obtain t where t: "deref_id E nid s = Some t" "progress b s t"
    using deref_id_progress [OF assms] by blast
  with Cons [of t] show ?case by (auto intro: progress_trans)
qed (simp add: progress_def)

lemma drain_weak_mono: "drain_weak n E s = Some s' \<Longrightarrow> n \<le> m \<Longrightarrow> drain_weak m E s = Some s'"
proof (induction n arbitrary: s m)
  case (Suc n)
  then show ?case by (cases m) (auto simp: bind_eq_Some_conv split: if_splits)
qed simp

lemma process_mono: "process_pending_derefs n E s = Some x \<Longrightarrow> n \<le> m \<Longrightarrow> process_pending_derefs m E s = Some x"
proof (induction n arbitrary: s m)
  case (Suc n)
  then obtain k where m: "m = Suc k" "n \<le> k" by (cases m) auto
  obtain t where "drain_weak (Suc n) E s = Some t"
    using Suc.prems(1) by (auto simp: bind_eq_Some_conv simp del: drain_weak.simps)
  then show ?case
    using Suc drain_weak_mono [of "Suc n" E s t "Suc k"] m
    by (auto simp: bind_eq_Some_conv simp del: drain_weak.simps split: list.splits)
qed simp

lemma drain_weak_returns:
  assumes "destructors_bounded E b"
  shows "\<exists>n s'. drain_weak n E s = Some s' \<and> pending_weak_derefs s' = [] \<and>
    (stock b s' < stock b s \<or> stock b s' \<le> stock b s \<and> pending_strong_derefs s' = pending_strong_derefs s)"
proof (induction "stock b s" arbitrary: s rule: less_induct)
  case less
  show ?case
  proof (cases "pending_weak_derefs s = []")
    case True
    then have "drain_weak 1 E s = Some s" by simp
    with True show ?thesis by blast
  next
    case False
    obtain t where t: "deref_each E (pending_weak_derefs s) (s\<lparr>pending_weak_derefs := []\<rparr>) = Some t"
      "progress b (s\<lparr>pending_weak_derefs := []\<rparr>) t"
      using deref_each_progress [OF assms] by blast
    show ?thesis
    proof (cases "stock b t < stock b s")
      case True
      from less [OF this] obtain n u where "drain_weak n E t = Some u" "pending_weak_derefs u = []" "stock b u \<le> stock b t"
        by auto
      then have "drain_weak (Suc n) E s = Some u" "pending_weak_derefs u = []" "stock b u < stock b s"
        using t False True by auto
      then show ?thesis by blast
    next
      case no: False
      then have "pending_weak_derefs t = []" "stock b t \<le> stock b s" "pending_strong_derefs t = pending_strong_derefs s"
        using t(2) by (auto simp: progress_def)
      moreover from this have "drain_weak (Suc (Suc 0)) E s = Some t" using t False by simp
      ultimately show ?thesis by blast
    qed
  qed
qed

text \<open>C11: draining the deferred dereferences ends, with both queues empty, also when the destructors
  that run on the way call out, queue more of them and publish new objects: every round either
  uses up an object of the table or of the supply the destructors publish from, or takes an id off
  a queue. It is asked that every destructor returns and that the supply of objects destructors
  may publish is finite; without that the loop can run for ever.\<close>

theorem pending_derefs_drained:
  assumes "destructors_bounded E b"
  shows "\<exists>n s'. process_pending_derefs n E s = Some (Ok (), s') \<and>
    pending_weak_derefs s' = [] \<and> pending_strong_derefs s' = []"
proof (induction s rule: wf_induct_rule [OF wf_measures [of "[stock b, \<lambda>s. length (pending_strong_derefs s)]"]])
  case (1 s)
  obtain n t where t: "drain_weak n E s = Some t" "pending_weak_derefs t = []"
    "stock b t < stock b s \<or> stock b t \<le> stock b s \<and> pending_strong_derefs t = pending_strong_derefs s"
    using drain_weak_returns [OF assms] by blast
  have weak: "drain_weak (Suc m) E s = Some t" if "n \<le> m" for m
    using that by (intro drain_weak_mono [OF t(1)]) simp
  show ?case
  proof (cases "pending_strong_derefs t")
    case Nil
    then have "process_pending_derefs (Suc n) E s = Some (Ok (), t)"
      using weak [of n] by (simp del: drain_weak.simps)
    with Nil t(2) show ?thesis by blast
  next
    case (Cons nid ids)
    obtain u where u: "deref_id E nid (t\<lparr>pending_strong_derefs := ids\<rparr>) = Some u" "progress b (t\<lparr>pending_strong_derefs := ids\<rparr>) u"
      using deref_id_progress [OF assms] by blast
    have "stock b u < stock b s \<or> stock b u = stock b s \<and> length (pending_strong_derefs u) < length (pending_strong_derefs s)"
      using t(3) u(2) arg_cong [OF Cons, of length] by (auto simp: progress_def)
    then have "(u, s) \<in> measures [stock b, \<lambda>s. length (pending_strong_derefs s)]" by auto
    from "1.IH" [OF this] obtain k s' where k: "process_pending_derefs k E u = Some (Ok (), s')"
      "pending_weak_derefs s' = []" "pending_strong_derefs s' = []" by blast
    then have "process_pending_derefs (n + k) E u = Some (Ok (), s')" by (auto intro: process_mono)
    then have "process_pending_derefs (Suc (n + k)) E s = Some (Ok (), s')"
      using weak [of "n + k"] Cons u(1) by (simp del: drain_weak.simps)
    with k show ?thesis by blast
  qed
qed

text \<open>A process whose destructors publish another object and queue a dereference of it as long as a
  supply, here the number that stands for the rest of the process, lasts.\<close>

definition republish :: "arc \<Rightarrow> nat ThreadState \<Rightarrow> nat ThreadState option" where
  "republish arc s =
    (case env_kernel (process s) of
       0 \<Rightarrow> Some s
     | Suc k \<Rightarrow>
         (case publish_native (arc + 1) (env_natives (process s)) of
            (nid, n) \<Rightarrow> Some (s\<lparr>process := (process s)\<lparr>env_natives := n, env_kernel := k\<rparr>,
              pending_weak_derefs := pending_weak_derefs s @ [nid]\<rparr>)))"

definition supplied_state :: "nat ThreadState" where
  "supplied_state = \<lparr>RPC_CALLING = None, is_initialized = True, transaction = None, getuid = 1, getpid = 2,
     in_parcel = [], out_parcel = [], thread_strict_mode_policy = 0, is_looper = True, is_flushing = False,
     call_restriction = NoRestriction, pending_strong_derefs = [1, 1], pending_weak_derefs = [],
     process = \<lparr>env_natives = snd (publish_native 5 native_init), env_kernel = 3, env_closed = [], env_parceled = []\<rparr>,
     current_threads = 1, thread_pool_started = True, kernel_started_threads = 0, main_thread_spawned = 0,
     ioctl_results = [], inbox = [], bc_sent = []\<rparr>"

lemma republish_bounded: "\<exists>s'. republish arc s = Some s' \<and> stock id s' \<le> stock id s"
proof (cases "env_kernel (process s)")
  case 0
  then show ?thesis by (simp add: republish_def)
next
  case (Suc k)
  obtain nid n where pub: "publish_native (arc + 1) (env_natives (process s)) = (nid, n)" by fastforce
  have "fst ` set (published_natives n) = insert nid (native_ids s)"
    using publish_native_ids [of "arc + 1" "env_natives (process s)"] pub by (simp add: native_ids_def)
  then have "card (fst ` set (published_natives n)) \<le> Suc (card (native_ids s))" by (simp add: card_insert_if)
  then show ?thesis using Suc pub by (simp add: republish_def stock_def native_ids_def)
qed

theorem pending_derefs_drained_witness:
  "\<exists>n s'. process_pending_derefs n (no_services\<lparr>te_destroy := republish\<rparr>) supplied_state = Some (Ok (), s') \<and>
     pending_weak_derefs s' = [] \<and> pending_strong_derefs s' = []"
  by (rule pending_derefs_drained [where b = id]) (simp add: destructors_bounded_def republish_bounded)

text \<open>With destructors that do nothing on this thread, the kernel's references given back are exactly the
  queued ones, the weak before the strong, each queue in its order.\<close>

definition deref_all :: "u64 list \<Rightarrow> native_state \<Rightarrow> native_state" where
  "deref_all ids n = fold (\<lambda>nid n. snd (deref_native_kernel nid n)) ids n"

lemma deref_id_quiet:
  assumes "\<And>arc s. te_destroy E arc s = Some s"
  shows "deref_id E nid s = Some (update_natives (snd (deref_native_kernel nid (env_natives (process s)))) s)"
  using assms by (auto simp: deref_id_def Let_def split: prod.splits option.splits)

lemma deref_each_quiet:
  assumes "\<And>arc s. te_destroy E arc s = Some s"
  shows "deref_each E ids s = Some (update_natives (deref_all ids (env_natives (process s))) s)"
proof (induction ids arbitrary: s)
  case (Cons nid ids)
  with deref_id_quiet [OF assms, where nid = nid and s = s] show ?case
    by (simp add: deref_all_def update_natives_def)
qed (simp add: deref_all_def update_natives_def)

lemma drain_weak_quiet:
  assumes "\<And>arc s. te_destroy E arc s = Some s"
  shows "drain_weak (Suc (Suc n)) E s = Some (update_natives
    (deref_all (pending_weak_derefs s) (env_natives (process s))) (s\<lparr>pending_weak_derefs := []\<rparr>))"
proof -
  have "update_natives n (s\<lparr>process := p\<rparr>) = s\<lparr>process := p\<lparr>env_natives := n\<rparr>\<rparr>" for p n
    by (simp add: update_natives_def)
  then show ?thesis
    using deref_each_quiet [OF assms, where ids = "pending_weak_derefs s" and s = "s\<lparr>pending_weak_derefs := []\<rparr>"]
    by (auto simp: deref_all_def update_natives_def)
qed

lemma process_quiet:
  assumes "\<And>arc s. te_destroy E arc s = Some s"
  shows "length (pending_strong_derefs s) < n \<Longrightarrow> process_pending_derefs (Suc n) E s = Some (Ok (), update_natives
    (deref_all (pending_weak_derefs s @ pending_strong_derefs s) (env_natives (process s)))
    (s\<lparr>pending_weak_derefs := [], pending_strong_derefs := []\<rparr>))"
proof (induction n arbitrary: s)
  case (Suc n)
  define t where "t = update_natives (deref_all (pending_weak_derefs s) (env_natives (process s))) (s\<lparr>pending_weak_derefs := []\<rparr>)"
  have t: "drain_weak (Suc (Suc n)) E s = Some t"
    using drain_weak_quiet [OF assms] by (simp add: t_def)
  show ?case
  proof (cases "pending_strong_derefs s")
    case Nil
    then have "pending_strong_derefs t = []" by (simp add: t_def)
    with t Nil show ?thesis
      by (simp del: drain_weak.simps) (simp add: t_def update_natives_def)
  next
    case (Cons nid ids)
    have "deref_id E nid (t\<lparr>pending_strong_derefs := ids\<rparr>) =
        Some (update_natives (snd (deref_native_kernel nid (env_natives (process t)))) (t\<lparr>pending_strong_derefs := ids\<rparr>))"
      using deref_id_quiet [OF assms, where nid = nid and s = "t\<lparr>pending_strong_derefs := ids\<rparr>"] by simp
    moreover have "pending_strong_derefs t = nid # ids" using Cons by (simp add: t_def)
    ultimately have "process_pending_derefs (Suc (Suc n)) E s = process_pending_derefs (Suc n) E
        (update_natives (snd (deref_native_kernel nid (env_natives (process t)))) (t\<lparr>pending_strong_derefs := ids\<rparr>))"
      using t unfolding process_pending_derefs.simps(2) [of "Suc n"] by (simp del: drain_weak.simps process_pending_derefs.simps)
    also have "\<dots> = Some (Ok (), update_natives
        (deref_all (pending_weak_derefs s @ pending_strong_derefs s) (env_natives (process s)))
        (s\<lparr>pending_weak_derefs := [], pending_strong_derefs := []\<rparr>))"
      using Suc.prems Cons
      by (subst Suc.IH) (simp_all add: t_def deref_all_def update_natives_def)
    finally show ?thesis .
  qed
qed simp

text \<open>Where destructors do not touch the thread, draining applies every queued dereference to the
  table exactly once, the weak ones first and each queue in its order, within as many rounds as
  there are strong ones.\<close>

theorem pending_derefs_in_order:
  assumes "\<And>arc s. te_destroy E arc s = Some s"
  shows "process_pending_derefs (length (pending_strong_derefs s) + 2) E s = Some (Ok (), update_natives
    (deref_all (pending_weak_derefs s @ pending_strong_derefs s) (env_natives (process s)))
    (s\<lparr>pending_weak_derefs := [], pending_strong_derefs := []\<rparr>))"
  using process_quiet [where E = E and s = s and n = "Suc (length (pending_strong_derefs s))", OF assms] by simp

theorem pending_derefs_in_order_witness:
  "process_pending_derefs 4 no_services (sample_state\<lparr>pending_strong_derefs := [1, 2], pending_weak_derefs := [2]\<rparr>) =
     Some (Ok (), update_natives (deref_all [2, 1, 2] native_init) sample_state)"
  using pending_derefs_in_order [of no_services "sample_state\<lparr>pending_strong_derefs := [1, 2], pending_weak_derefs := [2]\<rparr>"]
  by (simp add: no_services_def sample_state_def eval_nat_numeral del: process_pending_derefs.simps)

section \<open>The wait for a reply\<close>

text \<open>Commands a release build answers without leaving the loop or running a service.\<close>

fun plain :: "br \<Rightarrow> bool" where
  "plain BR_OK = True" | "plain BR_NOOP = True" | "plain BR_TRANSACTION_COMPLETE = True" | "plain BR_SPAWN_LOOPER = True"
| "plain (BR_INCREFS _ _) = True" | "plain (BR_ACQUIRE _ _) = True" | "plain (BR_RELEASE _ _) = True"
| "plain (BR_DECREFS _ _) = True" | "plain (BR_ATTEMPT_ACQUIRE _ _) = True"
| "plain (BR_CLEAR_DEATH_NOTIFICATION_DONE _) = True" | "plain BR_ONEWAY_SPAM_SUSPECT = True"
| "plain _ = False"

text \<open>The driver's queue as the thread sees it.\<close>

abbreviation incoming :: "'p ThreadState \<Rightarrow> br list" where
  "incoming s \<equiv> in_parcel s @ concat (inbox s)"

lemma plain_arm:
  assumes "plain cmd" "\<not> te_debug_assertions E"
  shows "\<exists>t. response_arm E wait UntilReply cmd s = wait UntilReply t \<and> in_parcel t = in_parcel s \<and> inbox t = inbox s \<and>
    ioctl_results t = ioctl_results s"
  using assms
  by (cases cmd) (auto simp: response_arm_def seq_act_def br_take_ref_def spawn_pooled_thread_def update_natives_def
      queue_def Let_def split: prod.split)

lemma wait_returns:
  assumes "\<not> te_debug_assertions E" "tflags tr AND TF_STATUS_CODE = 0"
  shows "incoming s = pre @ BR_REPLY tr a # rest \<Longrightarrow> list_all plain pre \<Longrightarrow> ioctl_results s = [] \<Longrightarrow>
    length pre + length (inbox s) < n \<Longrightarrow>
    \<exists>s'. wait_for_response n E UntilReply s = Some (Ok (Some (from_ipc_parts (tdata tr) (toffsets tr) a)), s') \<and>
      incoming s' = rest"
proof (induction n arbitrary: s pre)
  case (Suc n)
  have step: "\<exists>s'. (case in_parcel t of [] \<Rightarrow> wait_for_response n E UntilReply t
        | cmd # cs \<Rightarrow> response_arm E (wait_for_response n E) UntilReply cmd (t\<lparr>in_parcel := cs\<rparr>)) =
          Some (Ok (Some (from_ipc_parts (tdata tr) (toffsets tr) a)), s') \<and> incoming s' = rest"
    if t: "incoming t = pre @ BR_REPLY tr a # rest" "ioctl_results t = []"
      "length pre + length (inbox t) < (if in_parcel t = [] then n else Suc n)" for t
  proof (cases "in_parcel t")
    case Nil
    then show ?thesis using t Suc.IH [of t pre] Suc.prems(2) by auto
  next
    case (Cons cmd cs)
    show ?thesis
    proof (cases pre)
      case Nil
      then show ?thesis
        using t Cons assms(2) by (auto simp: response_arm_def br_reply_def seq_act_def)
    next
      case p: (Cons c pre')
      then have "plain cmd" using Cons t(1) Suc.prems(2) by auto
      then obtain u where u: "response_arm E (wait_for_response n E) UntilReply cmd (t\<lparr>in_parcel := cs\<rparr>) =
          wait_for_response n E UntilReply u" "in_parcel u = cs" "inbox u = inbox t" "ioctl_results u = []"
        using plain_arm [OF _ assms(1), of cmd "wait_for_response n E" "t\<lparr>in_parcel := cs\<rparr>"] t(2) by auto
      then show ?thesis
        using Suc.IH [of u pre'] Suc.prems(2) Cons p t by auto
    qed
  qed
  show ?case
  proof (cases "in_parcel s")
    case Nil
    show ?thesis
    proof (cases "inbox s")
      case Nil
      with \<open>in_parcel s = []\<close> Suc.prems(1) show ?thesis by simp
    next
      case (Cons b bs)
      then obtain t where t: "talk_with_driver E True s = Some (Ok (), t)" "in_parcel t = b" "inbox t = bs" "ioctl_results t = []"
        using Nil Suc.prems(3) by (auto simp: talk_with_driver_def after_write_read_def Let_def)
      then show ?thesis
        using step [of t] Cons Nil Suc.prems by (auto simp: seq_act_def)
    qed
  next
    case (Cons cmd cs)
    then have "talk_with_driver E True s = Some (Ok (), s)" by (simp add: talk_with_driver_def)
    then show ?thesis
      using step [of s] Cons Suc.prems by (auto simp: seq_act_def)
  qed
qed simp

text \<open>C10: a two-way call returns. When the driver, after any number of bookkeeping commands in any batches,
  delivers the reply, the call ends within as many rounds as there are commands and batches,
  with exactly that reply, and leaves what follows it to be read next.\<close>

theorem call_returns:
  assumes "\<not> te_debug_assertions E" and "flags AND TF_ONE_WAY = 0" and "call_restriction s \<noteq> FatalIfNotOneway"
    and "ioctl_results s = []" and "incoming s = pre @ BR_REPLY tr a # rest" and "list_all plain pre"
    and "tflags tr AND TF_STATUS_CODE = 0" and "length pre + length (inbox s) < n"
  shows "\<exists>s'. thread_transact n E handle code data flags s =
    Some (Ok (Some (from_ipc_parts (tdata tr) (toffsets tr) a)), s') \<and> incoming s' = rest"
proof -
  have "(flags OR TF_ACCEPT_FDS) AND TF_ONE_WAY = 0"
    using assms(2) by (simp add: TF_ACCEPT_FDS_def TF_ONE_WAY_def bit.conj_disj_distrib2)
  moreover have "\<exists>s'. wait_for_response n E UntilReply (write_transaction_data E BC_TRANSACTION f handle code data 0 s) =
      Some (Ok (Some (from_ipc_parts (tdata tr) (toffsets tr) a)), s') \<and> incoming s' = rest" for f
    by (rule wait_returns [OF assms(1,7)]) (use assms in \<open>simp_all add: write_transaction_data_def queue_def\<close>)
  ultimately show ?thesis
    using assms(3) by (simp add: thread_transact_def Let_def)
qed

theorem call_returns_witness:
  "\<exists>s'. thread_transact 6 no_services 3 1 parcel_new 0
      (sample_state\<lparr>inbox := [[BR_NOOP, BR_TRANSACTION_COMPLETE], [], [BR_REPLY (sample_call 0) 128, BR_NOOP]]\<rparr>) =
    Some (Ok (Some (from_ipc_parts [1, 0, 0, 0] [] 128)), s') \<and> incoming s' = [BR_NOOP]"
  using call_returns [of no_services 0 "sample_state\<lparr>inbox := [[BR_NOOP, BR_TRANSACTION_COMPLETE], [], [BR_REPLY (sample_call 0) 128, BR_NOOP]]\<rparr>"
      "[BR_NOOP, BR_TRANSACTION_COMPLETE]" "sample_call 0" 128 "[BR_NOOP]" 6 3 1 parcel_new]
  by (simp add: no_services_def sample_state_def sample_call_def)

end
