(* ===== verification/Proxy_Count.thy ===== *)
theory Proxy_Count
  imports Transition "HOL-Library.AList"
begin

text \<open>
  The counters of live proxies of \<open>rsbinder/src/proxy_count.rs\<close>: the process-wide counter, the counts
  per uid with their watermarks, and the guard that holds callbacks back while the proxy cache is
  locked. \<open>proxy_counts\<close> is the process-wide state, \<open>callback_deferral\<close> the two thread-local cells; a
  callback is a number and \<open>fired\<close> lists the calls made. The process-wide counter keeps its width; a
  uid's count is bounded by the proxies in memory and is a natural number.
\<close>

section \<open>Definitions\<close>

definition DEFAULT_HIGH_WATERMARK :: nat where "DEFAULT_HIGH_WATERMARK = 2500"
definition DEFAULT_LOW_WATERMARK :: nat where "DEFAULT_LOW_WATERMARK = 2000"
definition DEFAULT_WARNING_WATERMARK :: nat where "DEFAULT_WARNING_WATERMARK = 2250"

datatype ProxyCountEvent = Warning u32 nat | Limit u32 nat

record UidEntry =
  ue_count :: nat
  warning_fired :: bool
  limit_fired :: bool

definition UidEntry_default :: UidEntry where
  "UidEntry_default = \<lparr>ue_count = 0, warning_fired = False, limit_fired = False\<rparr>"

record proxy_counts =
  PROXY_COUNT :: u64
  COUNT_BY_UID_ENABLED :: bool
  wm_high :: nat
  wm_low :: nat
  wm_warning :: nat
  pc_callback :: "nat option"
  per_uid :: "(u32 \<times> UidEntry) list"
  fired :: "(nat \<times> ProxyCountEvent) list"

record callback_deferral =
  CALLBACK_DEFER :: bool
  PENDING_CALLBACKS :: "(nat \<times> ProxyCountEvent) list"

definition proxy_counts_new :: proxy_counts where
  "proxy_counts_new = \<lparr>PROXY_COUNT = 0, COUNT_BY_UID_ENABLED = False, wm_high = DEFAULT_HIGH_WATERMARK,
     wm_low = DEFAULT_LOW_WATERMARK, wm_warning = DEFAULT_WARNING_WATERMARK, pc_callback = None, per_uid = [], fired = []\<rparr>"

definition no_deferral :: callback_deferral where
  "no_deferral = \<lparr>CALLBACK_DEFER = False, PENDING_CALLBACKS = []\<rparr>"

definition defer_guard_new :: "callback_deferral \<Rightarrow> bool \<times> callback_deferral" where
  "defer_guard_new d = (CALLBACK_DEFER d, d\<lparr>CALLBACK_DEFER := True\<rparr>)"

definition defer_guard_drop :: "bool \<Rightarrow> proxy_counts \<Rightarrow> callback_deferral \<Rightarrow> proxy_counts \<times> callback_deferral" where
  "defer_guard_drop was_deferring c d =
    (let d = d\<lparr>CALLBACK_DEFER := was_deferring\<rparr>
     in if was_deferring then (c, d)
        else (c\<lparr>fired := fired c @ PENDING_CALLBACKS d\<rparr>, d\<lparr>PENDING_CALLBACKS := []\<rparr>))"

definition get_binder_proxy_count :: "proxy_counts \<Rightarrow> u64" where
  "get_binder_proxy_count c = PROXY_COUNT c"

definition get_binder_proxy_count_for_uid :: "u32 \<Rightarrow> proxy_counts \<Rightarrow> nat" where
  "get_binder_proxy_count_for_uid uid c = (case map_of (per_uid c) uid of Some e \<Rightarrow> ue_count e | None \<Rightarrow> 0)"

definition get_binder_proxy_counts_by_uid :: "proxy_counts \<Rightarrow> (u32 \<times> nat) list" where
  "get_binder_proxy_counts_by_uid c = map (\<lambda>(uid, e). (uid, ue_count e)) (per_uid c)"

definition set_binder_proxy_count_watermarks :: "nat \<Rightarrow> nat \<Rightarrow> nat \<Rightarrow> proxy_counts \<Rightarrow> proxy_counts" where
  "set_binder_proxy_count_watermarks high low warning c = c\<lparr>wm_high := high, wm_low := low, wm_warning := warning\<rparr>"

definition set_binder_proxy_count_event_callback :: "nat option \<Rightarrow> proxy_counts \<Rightarrow> proxy_counts" where
  "set_binder_proxy_count_event_callback cb c = c\<lparr>pc_callback := cb\<rparr>"

definition enable_count_by_uid :: "bool \<Rightarrow> proxy_counts \<Rightarrow> proxy_counts" where
  "enable_count_by_uid enabled c = c\<lparr>COUNT_BY_UID_ENABLED := enabled\<rparr>"

definition is_count_by_uid_enabled :: "proxy_counts \<Rightarrow> bool" where
  "is_count_by_uid_enabled c = COUNT_BY_UID_ENABLED c"

definition clear_count_by_uid :: "proxy_counts \<Rightarrow> proxy_counts" where
  "clear_count_by_uid c = c\<lparr>per_uid := []\<rparr>"

text \<open>The entry after one more proxy, and the event it is due.\<close>

definition count_up :: "nat \<Rightarrow> nat \<Rightarrow> u32 \<Rightarrow> UidEntry \<Rightarrow> UidEntry \<times> ProxyCountEvent option" where
  "count_up high warning uid entry =
    (let entry = entry\<lparr>ue_count := ue_count entry + 1\<rparr>;
         count = ue_count entry
     in if \<not> limit_fired entry \<and> count \<ge> high then (entry\<lparr>limit_fired := True\<rparr>, Some (Limit uid count))
        else if \<not> warning_fired entry \<and> count \<ge> warning \<and> count < high
        then (entry\<lparr>warning_fired := True\<rparr>, Some (Warning uid count))
        else (entry, None))"

definition on_proxy_create :: "u32 \<Rightarrow> proxy_counts \<Rightarrow> callback_deferral \<Rightarrow> bool \<times> proxy_counts \<times> callback_deferral" where
  "on_proxy_create uid c d =
    (let c = c\<lparr>PROXY_COUNT := PROXY_COUNT c + 1\<rparr>
     in if \<not> COUNT_BY_UID_ENABLED c then (False, c, d)
        else
          let entry = (case map_of (per_uid c) uid of Some e \<Rightarrow> e | None \<Rightarrow> UidEntry_default);
              (entry, event) = count_up (wm_high c) (wm_warning c) uid entry;
              c = c\<lparr>per_uid := AList.update uid entry (per_uid c)\<rparr>
          in case (event, pc_callback c) of
               (Some event, Some cb) \<Rightarrow>
                 if CALLBACK_DEFER d then (True, c, d\<lparr>PENDING_CALLBACKS := PENDING_CALLBACKS d @ [(cb, event)]\<rparr>)
                 else (True, c\<lparr>fired := fired c @ [(cb, event)]\<rparr>, d)
             | _ \<Rightarrow> (True, c, d))"

definition count_down :: "nat \<Rightarrow> UidEntry \<Rightarrow> UidEntry" where
  "count_down low entry =
    (let entry = entry\<lparr>ue_count := ue_count entry - 1\<rparr>
     in if ue_count entry \<le> low then entry\<lparr>limit_fired := False, warning_fired := False\<rparr> else entry)"

definition on_proxy_drop :: "u32 \<Rightarrow> bool \<Rightarrow> proxy_counts \<Rightarrow> proxy_counts" where
  "on_proxy_drop uid counted_by_uid c =
    (let c = c\<lparr>PROXY_COUNT := PROXY_COUNT c - 1\<rparr>
     in if \<not> counted_by_uid then c
        else case map_of (per_uid c) uid of
               None \<Rightarrow> c
             | Some entry \<Rightarrow>
                 let entry = count_down (wm_low c) entry
                 in if ue_count entry = 0 then c\<lparr>per_uid := AList.delete uid (per_uid c)\<rparr>
                    else c\<lparr>per_uid := AList.update uid entry (per_uid c)\<rparr>)"

subsection \<open>A life of the counters\<close>

text \<open>The proxies alive, each with its uid and whether it was counted by uid, and the calls that come
  in any order. Tracking may be switched, watermarks and callback replaced at any moment.\<close>

record pc_sys =
  pcs :: proxy_counts
  pc_defer :: callback_deferral
  living :: "(u32 \<times> bool) list"

definition pc_sys_init :: "pc_sys \<Rightarrow> bool" where
  "pc_sys_init \<sigma> \<longleftrightarrow> \<sigma> = \<lparr>pcs = proxy_counts_new, pc_defer = no_deferral, living = []\<rparr>"

inductive pc_step :: "pc_sys \<Rightarrow> pc_sys \<Rightarrow> bool" where
  created: "on_proxy_create uid (pcs \<sigma>) (pc_defer \<sigma>) = (counted, c, d) \<Longrightarrow>
    pc_step \<sigma> (\<sigma>\<lparr>pcs := c, pc_defer := d, living := (uid, counted) # living \<sigma>\<rparr>)"
| proxy_dropped: "living \<sigma> = xs @ (uid, counted) # ys \<Longrightarrow>
    pc_step \<sigma> (\<sigma>\<lparr>pcs := on_proxy_drop uid counted (pcs \<sigma>), living := xs @ ys\<rparr>)"
| watermarks: "pc_step \<sigma> (\<sigma>\<lparr>pcs := set_binder_proxy_count_watermarks high low warning (pcs \<sigma>)\<rparr>)"
| callback_set: "pc_step \<sigma> (\<sigma>\<lparr>pcs := set_binder_proxy_count_event_callback cb (pcs \<sigma>)\<rparr>)"
| switched: "pc_step \<sigma> (\<sigma>\<lparr>pcs := enable_count_by_uid enabled (pcs \<sigma>)\<rparr>)"
| deferred: "defer_guard_new (pc_defer \<sigma>) = (was, d) \<Longrightarrow> pc_step \<sigma> (\<sigma>\<lparr>pc_defer := d\<rparr>)"
| undeferred: "defer_guard_drop was (pcs \<sigma>) (pc_defer \<sigma>) = (c, d) \<Longrightarrow>
    pc_step \<sigma> (\<sigma>\<lparr>pcs := c, pc_defer := d\<rparr>)"

section \<open>Counts\<close>

definition pc_inv :: "pc_sys \<Rightarrow> bool" where
  "pc_inv \<sigma> \<longleftrightarrow> PROXY_COUNT (pcs \<sigma>) = of_nat (length (living \<sigma>)) \<and>
    (\<forall>u. get_binder_proxy_count_for_uid u (pcs \<sigma>) = count_list (living \<sigma>) (u, True))"

lemma count_for_uid_simps [simp]:
  "get_binder_proxy_count_for_uid u (c\<lparr>PROXY_COUNT := n\<rparr>) = get_binder_proxy_count_for_uid u c"
  "get_binder_proxy_count_for_uid u (c\<lparr>fired := f\<rparr>) = get_binder_proxy_count_for_uid u c"
  "get_binder_proxy_count_for_uid u (c\<lparr>pc_callback := cb\<rparr>) = get_binder_proxy_count_for_uid u c"
  "get_binder_proxy_count_for_uid u (c\<lparr>COUNT_BY_UID_ENABLED := b\<rparr>) = get_binder_proxy_count_for_uid u c"
  "get_binder_proxy_count_for_uid u (c\<lparr>wm_high := h, wm_low := l, wm_warning := w\<rparr>) = get_binder_proxy_count_for_uid u c"
  "get_binder_proxy_count_for_uid u (c\<lparr>per_uid := AList.update v e xs\<rparr>) =
    (if u = v then ue_count e else get_binder_proxy_count_for_uid u (c\<lparr>per_uid := xs\<rparr>))"
  "get_binder_proxy_count_for_uid u (c\<lparr>per_uid := AList.delete v xs\<rparr>) =
    (if u = v then 0 else get_binder_proxy_count_for_uid u (c\<lparr>per_uid := xs\<rparr>))"
  by (auto simp: get_binder_proxy_count_for_uid_def update_conv' delete_conv')

lemma count_up_count [simp]: "ue_count (fst (count_up h w u e)) = ue_count e + 1"
  by (simp add: count_up_def Let_def)

lemma count_down_count [simp]: "ue_count (count_down l e) = ue_count e - 1"
  by (simp add: count_down_def Let_def)

lemma on_proxy_create_counts:
  assumes "on_proxy_create uid c d = (counted, c', d')"
  shows "PROXY_COUNT c' = PROXY_COUNT c + 1" and "counted = COUNT_BY_UID_ENABLED c"
    and "get_binder_proxy_count_for_uid u c' = get_binder_proxy_count_for_uid u c + (if counted \<and> u = uid then 1 else 0)"
proof -
  define e where "e = (case map_of (per_uid c) uid of Some e \<Rightarrow> e | None \<Rightarrow> UidEntry_default)"
  obtain e' ev where up: "count_up (wm_high c) (wm_warning c) uid e = (e', ev)" by fastforce
  have "ue_count e' = ue_count e + 1" using count_up_count [of "wm_high c" "wm_warning c" uid e] up by simp
  moreover have "ue_count e = get_binder_proxy_count_for_uid uid c"
    by (simp add: e_def get_binder_proxy_count_for_uid_def UidEntry_default_def split: option.split)
  ultimately have "PROXY_COUNT c' = PROXY_COUNT c + 1 \<and> counted = COUNT_BY_UID_ENABLED c \<and>
      get_binder_proxy_count_for_uid u c' = get_binder_proxy_count_for_uid u c + (if counted \<and> u = uid then 1 else 0)"
    using assms by (auto simp: on_proxy_create_def e_def [symmetric] up Let_def split: if_splits option.splits)
  then show "PROXY_COUNT c' = PROXY_COUNT c + 1" "counted = COUNT_BY_UID_ENABLED c"
    "get_binder_proxy_count_for_uid u c' = get_binder_proxy_count_for_uid u c + (if counted \<and> u = uid then 1 else 0)"
    by blast+
qed

lemma on_proxy_drop_counts:
  "PROXY_COUNT (on_proxy_drop uid counted c) = PROXY_COUNT c - 1"
  "get_binder_proxy_count_for_uid u (on_proxy_drop uid counted c) =
    get_binder_proxy_count_for_uid u c - (if counted \<and> u = uid then 1 else 0)"
  by (auto simp: on_proxy_drop_def Let_def get_binder_proxy_count_for_uid_def update_conv' delete_conv' split: option.split)

lemmas pc_setter_defs = set_binder_proxy_count_watermarks_def set_binder_proxy_count_event_callback_def
  enable_count_by_uid_def defer_guard_new_def defer_guard_drop_def

lemma pc_step_inv: "pc_step \<sigma> \<sigma>' \<Longrightarrow> pc_inv \<sigma> \<Longrightarrow> pc_inv \<sigma>'"
proof (induction rule: pc_step.induct)
  case (created uid \<sigma> counted c d)
  then show ?case using on_proxy_create_counts [OF created(1)] by (auto simp: pc_inv_def)
next
  case (proxy_dropped \<sigma> xs uid counted ys)
  then show ?case by (auto simp: pc_inv_def on_proxy_drop_counts)
qed (auto simp: pc_inv_def pc_setter_defs Let_def split: if_splits)

lemma pc_init_inv: "pc_sys_init \<sigma> \<Longrightarrow> pc_inv \<sigma>"
  by (simp add: pc_sys_init_def pc_inv_def proxy_counts_new_def get_binder_proxy_count_for_uid_def)

interpretation proxy_counting: inductive_invariant pc_sys_init pc_step pc_inv
  by unfold_locales (auto intro: pc_init_inv pc_step_inv)

section \<open>Watermarks\<close>

definition uid_flags :: "u32 \<Rightarrow> proxy_counts \<Rightarrow> bool \<times> bool" where
  "uid_flags u c = (case map_of (per_uid c) u of Some e \<Rightarrow> (warning_fired e, limit_fired e) | None \<Rightarrow> (False, False))"

text \<open>The events of a uid, delivered or held back.\<close>

definition warnings_of :: "u32 \<Rightarrow> pc_sys \<Rightarrow> ProxyCountEvent list" where
  "warnings_of u \<sigma> = filter (\<lambda>e. case e of Warning v _ \<Rightarrow> v = u | _ \<Rightarrow> False) (map snd (fired (pcs \<sigma>) @ PENDING_CALLBACKS (pc_defer \<sigma>)))"

definition limits_of :: "u32 \<Rightarrow> pc_sys \<Rightarrow> ProxyCountEvent list" where
  "limits_of u \<sigma> = filter (\<lambda>e. case e of Limit v _ \<Rightarrow> v = u | _ \<Rightarrow> False) (map snd (fired (pcs \<sigma>) @ PENDING_CALLBACKS (pc_defer \<sigma>)))"

definition silent :: "u32 \<Rightarrow> pc_sys \<Rightarrow> pc_sys \<Rightarrow> bool" where
  "silent u \<sigma> \<tau> \<longleftrightarrow>
    (fst (uid_flags u (pcs \<sigma>)) \<longrightarrow> fst (uid_flags u (pcs \<tau>)) \<and> warnings_of u \<tau> = warnings_of u \<sigma>) \<and>
    (snd (uid_flags u (pcs \<sigma>)) \<longrightarrow> snd (uid_flags u (pcs \<tau>)) \<and> limits_of u \<tau> = limits_of u \<sigma>)"

lemma silent_trans: "silent u \<sigma> \<tau> \<Longrightarrow> silent u \<tau> \<upsilon> \<Longrightarrow> silent u \<sigma> \<upsilon>"
  by (auto simp: silent_def)

lemma created_silent:
  assumes "on_proxy_create uid (pcs \<sigma>) (pc_defer \<sigma>) = (counted, c, d)"
  shows "silent u \<sigma> (\<sigma>\<lparr>pcs := c, pc_defer := d, living := l\<rparr>)"
  using assms
  by (auto simp: on_proxy_create_def count_up_def Let_def silent_def uid_flags_def warnings_of_def limits_of_def
      update_conv' split: if_splits option.splits)

lemma dropped_silent:
  assumes "wm_low (pcs \<sigma>) < get_binder_proxy_count_for_uid u (on_proxy_drop uid counted (pcs \<sigma>))"
  shows "silent u \<sigma> (\<sigma>\<lparr>pcs := on_proxy_drop uid counted (pcs \<sigma>), living := l\<rparr>)"
  using assms
  by (auto simp: on_proxy_drop_def count_down_def Let_def silent_def uid_flags_def warnings_of_def limits_of_def
      get_binder_proxy_count_for_uid_def update_conv' delete_conv' split: if_splits option.splits)

lemma pc_step_silent:
  "pc_step \<sigma> \<tau> \<Longrightarrow> wm_low (pcs \<tau>) < get_binder_proxy_count_for_uid u (pcs \<tau>) \<Longrightarrow> silent u \<sigma> \<tau>"
proof (induction rule: pc_step.induct)
  case (created uid \<sigma> counted c d)
  then show ?case by (blast intro: created_silent)
next
  case (proxy_dropped \<sigma> xs uid counted ys)
  have "wm_low (on_proxy_drop uid counted (pcs \<sigma>)) = wm_low (pcs \<sigma>)"
    by (simp add: on_proxy_drop_def Let_def split: option.split)
  with proxy_dropped show ?case by (auto intro: dropped_silent)
qed (auto simp: silent_def uid_flags_def warnings_of_def limits_of_def pc_setter_defs Let_def split: if_splits)

definition above_low :: "u32 \<Rightarrow> pc_sys \<Rightarrow> pc_sys \<Rightarrow> bool" where
  "above_low u \<sigma> \<tau> \<longleftrightarrow> pc_step \<sigma> \<tau> \<and> wm_low (pcs \<tau>) < get_binder_proxy_count_for_uid u (pcs \<tau>)"

interpretation watermark_quiet: inductive_invariant "\<lambda>\<tau>. \<tau> = \<sigma>" "above_low u" "silent u \<sigma>" for u \<sigma>
  by unfold_locales (auto simp: above_low_def silent_def [of _ \<sigma> \<sigma>] intro: silent_trans pc_step_silent)

section \<open>Properties\<close>

text \<open>whatever the order in which proxies are created and dropped, tracking is switched and watermarks
  and callbacks are replaced, the process-wide counter is the number of live proxies and the count of a
  uid is the number of its live proxies that were created while tracking was on.\<close>

theorem proxy_counts_exact:
  "reach pc_sys_init pc_step \<sigma> \<Longrightarrow>
    get_binder_proxy_count (pcs \<sigma>) = of_nat (length (living \<sigma>)) \<and>
    get_binder_proxy_count_for_uid u (pcs \<sigma>) = count_list (living \<sigma>) (u, True)"
  using proxy_counting.inv_reach [of \<sigma>] by (simp add: pc_inv_def get_binder_proxy_count_def)

text \<open>C16: a watermark fires once. After a \<open>Warning\<close> (or a \<open>Limit\<close>) for a uid, as long as its count stays
  above the low watermark no second \<open>Warning\<close> (\<open>Limit\<close>) for it is delivered or held back, however often
  the count falls below the warning watermark and rises again.\<close>

theorem watermark_fires_once:
  assumes "reach (\<lambda>\<tau>. \<tau> = \<sigma>) (above_low u) \<tau>"
  shows "(fst (uid_flags u (pcs \<sigma>)) \<longrightarrow> warnings_of u \<tau> = warnings_of u \<sigma>) \<and>
    (snd (uid_flags u (pcs \<sigma>)) \<longrightarrow> limits_of u \<tau> = limits_of u \<sigma>)"
  using watermark_quiet.inv_reach [OF assms] by (simp add: silent_def)

subsection \<open>Witnesses\<close>

text \<open>A uid whose count reaches the warning watermark, falls below it and rises to it again.\<close>

definition sample_counts :: "nat \<Rightarrow> proxy_counts" where
  "sample_counts n = \<lparr>PROXY_COUNT = of_nat n, COUNT_BY_UID_ENABLED = True, wm_high = 3, wm_low = 0, wm_warning = 2, pc_callback = Some 7,
    per_uid = [(10, \<lparr>ue_count = n, warning_fired = True, limit_fired = False\<rparr>)], fired = [(7, Warning 10 2)]\<rparr>"

definition sample_pc :: "nat \<Rightarrow> pc_sys" where
  "sample_pc n = \<lparr>pcs = sample_counts n, pc_defer = no_deferral, living = replicate n (10, True)\<rparr>"

lemma sample_falls: "above_low 10 (sample_pc 2) (sample_pc 1)"
proof -
  have "pc_step (sample_pc 2) ((sample_pc 2)\<lparr>pcs := on_proxy_drop 10 True (pcs (sample_pc 2)), living := [] @ [(10, True)]\<rparr>)"
    by (rule pc_step.proxy_dropped) (simp add: sample_pc_def eval_nat_numeral)
  then show ?thesis
    by (simp add: above_low_def sample_pc_def sample_counts_def on_proxy_drop_def count_down_def Let_def get_binder_proxy_count_for_uid_def)
qed

lemma sample_rises: "above_low 10 (sample_pc 1) (sample_pc 2)"
proof -
  have "pc_step (sample_pc 1) ((sample_pc 1)\<lparr>pcs := sample_counts 2, pc_defer := no_deferral, living := (10, True) # living (sample_pc 1)\<rparr>)"
    by (rule pc_step.created) (simp add: sample_pc_def sample_counts_def on_proxy_create_def count_up_def Let_def)
  then show ?thesis
    by (simp add: above_low_def sample_pc_def sample_counts_def get_binder_proxy_count_for_uid_def eval_nat_numeral)
qed

theorem watermark_fires_once_witness:
  "reach (\<lambda>\<tau>. \<tau> = sample_pc 2) (above_low 10) (sample_pc 1) \<and> fst (uid_flags 10 (pcs (sample_pc 2))) \<and>
    get_binder_proxy_count_for_uid 10 (pcs (sample_pc 1)) < wm_warning (pcs (sample_pc 1)) \<and>
    above_low 10 (sample_pc 1) (sample_pc 2) \<and> warnings_of 10 (sample_pc 2) = [Warning 10 2]"
proof -
  have r: "reach (\<lambda>\<tau>. \<tau> = sample_pc 2) (above_low 10) (sample_pc 1)" by (rule reach_step [where s = "sample_pc 2"]) (blast intro: sample_falls)+
  have f: "fst (uid_flags 10 (pcs (sample_pc 2)))" by (simp add: sample_pc_def sample_counts_def uid_flags_def)
  have "warnings_of 10 (sample_pc 2) = warnings_of 10 (sample_pc 1)" using watermark_fires_once [OF r] f by simp
  also have "\<dots> = [Warning 10 2]" by (simp add: warnings_of_def sample_pc_def sample_counts_def no_deferral_def)
  finally show ?thesis
    using r f sample_rises by (simp add: sample_pc_def sample_counts_def get_binder_proxy_count_for_uid_def)
qed

definition sample_life :: pc_sys where
  "sample_life = \<lparr>pcs = proxy_counts_new\<lparr>PROXY_COUNT := 1, COUNT_BY_UID_ENABLED := True,
      per_uid := [(10, \<lparr>ue_count = 1, warning_fired = False, limit_fired = False\<rparr>)]\<rparr>,
    pc_defer = no_deferral, living = [(10, True)]\<rparr>"

lemma sample_life_reached: "reach pc_sys_init pc_step sample_life"
proof -
  define s0 where "s0 = \<lparr>pcs = proxy_counts_new, pc_defer = no_deferral, living = []\<rparr>"
  define s1 where "s1 = s0\<lparr>pcs := enable_count_by_uid True (pcs s0)\<rparr>"
  have "reach pc_sys_init pc_step s0" by (rule reach_init) (simp add: s0_def pc_sys_init_def)
  moreover have "pc_step s0 s1" unfolding s1_def by (rule pc_step.switched)
  moreover have "pc_step s1 (s1\<lparr>pcs := pcs sample_life, pc_defer := no_deferral, living := (10, True) # living s1\<rparr>)"
    by (rule pc_step.created) (simp add: s1_def s0_def sample_life_def on_proxy_create_def count_up_def Let_def enable_count_by_uid_def
        proxy_counts_new_def UidEntry_default_def DEFAULT_HIGH_WATERMARK_def DEFAULT_WARNING_WATERMARK_def)
  moreover have "s1\<lparr>pcs := pcs sample_life, pc_defer := no_deferral, living := (10, True) # living s1\<rparr> = sample_life"
    by (simp add: s1_def s0_def sample_life_def)
  ultimately show ?thesis by (metis reach_step)
qed

theorem proxy_counts_exact_witness:
  "reach pc_sys_init pc_step sample_life \<and> get_binder_proxy_count (pcs sample_life) = 1 \<and>
    get_binder_proxy_count_for_uid 10 (pcs sample_life) = 1"
  using proxy_counts_exact [OF sample_life_reached, of 10] sample_life_reached by (simp add: sample_life_def)

text \<open>Clearing the map while a counted proxy lives: its drop then takes the count of a younger proxy.\<close>

lemma cleared_count_undercounts:
  "on_proxy_create 10 (clear_count_by_uid (pcs sample_life)) no_deferral = (True, pcs sample_life\<lparr>PROXY_COUNT := 2\<rparr>, no_deferral) \<and>
    get_binder_proxy_count (on_proxy_drop 10 True (pcs sample_life\<lparr>PROXY_COUNT := 2\<rparr>)) = 1 \<and>
    get_binder_proxy_count_for_uid 10 (on_proxy_drop 10 True (pcs sample_life\<lparr>PROXY_COUNT := 2\<rparr>)) = 0"
  by (simp add: sample_life_def clear_count_by_uid_def on_proxy_create_def on_proxy_drop_def count_up_def count_down_def Let_def
      proxy_counts_new_def UidEntry_default_def DEFAULT_HIGH_WATERMARK_def DEFAULT_WARNING_WATERMARK_def DEFAULT_LOW_WATERMARK_def
      get_binder_proxy_count_def get_binder_proxy_count_for_uid_def)

end
