(* ===== verification/Proxy_Cache.thy ===== *)
theory Proxy_Cache
  imports Thread_State Proxy_Count Stability "HOL-Library.Multiset"
begin

text \<open>
  The cache of proxies of \<open>rsbinder/src/process_state.rs\<close> (\<open>strong_proxy_for_handle_stability\<close> with its
  three phases, the obituary teardown) and the proxies of \<open>rsbinder/src/proxy.rs\<close>. An
  \<open>Arc<ProxyHandle>\<close> is the number of its allocation; \<open>proxies\<close> holds the live ones, so a weak
  reference upgrades when its number is there. \<open>commands\<close> is the reference commands queued or sent, in
  order. The outcomes of the thread engine's calls (flushes, the ping and the descriptor query of
  phase two) are the argument \<open>engine\<close>; a command stays queued when its flush fails. A
  \<open>DeathRecipient\<close> is a number, alive while the argument \<open>alive\<close> says so, and \<open>notified\<close> lists the
  callbacks. Each phase runs under the cache lock, so the step relation interleaves whole phases.
\<close>

section \<open>Definitions\<close>

text \<open>\<open>WIBinder\<close>, a weak reference, and the extension a proxy remembers: an \<open>SIBinder\<close> is the allocation of
  a proxy or of a local object.\<close>

datatype WIBinder = WProxy u32 Stability nat nat | WNative nat

datatype SIBinder_arc = ExtProxy nat | ExtNative nat

datatype CachedExtension = StrongExt SIBinder_arc | WeakExt WIBinder

datatype ExtensionCache = NotQueried | Queried "CachedExtension option"

record ProxyHandle =
  ph_handle :: u32
  ph_descriptor :: string
  tracked_uid :: u32
  count_acquired :: bool
  counted_by_uid :: bool
  ph_stability :: Stability
  obituary_sent :: bool
  recipients :: "nat list"
  extension :: ExtensionCache

record CacheEntry =
  ce_weak :: nat
  ce_descriptor :: string
  ce_generation :: nat

record cache_state =
  handle_to_proxy :: "(u32 \<times> CacheEntry) list"
  next_generation :: nat
  proxies :: "(nat \<times> ProxyHandle) list"
  next_proxy :: nat
  commands :: "bc list"
  notified :: "(nat \<times> WIBinder) list"
  counts :: proxy_counts
  deferral :: callback_deferral

record engine =
  eng_queue :: "bc \<Rightarrow> unit result"
  eng_flush :: "unit result"
  eng_ping :: "u32 \<Rightarrow> unit result"
  eng_query :: "u32 \<Rightarrow> string result"
  eng_uid :: u32

definition push_command :: "bc \<Rightarrow> cache_state \<Rightarrow> cache_state" where
  "push_command c s = s\<lparr>commands := commands s @ [c]\<rparr>"

definition upgrade :: "cache_state \<Rightarrow> nat \<Rightarrow> bool" where
  "upgrade s w \<longleftrightarrow> w \<in> fst ` set (proxies s)"

definition cached_live :: "u32 \<Rightarrow> cache_state \<Rightarrow> nat option" where
  "cached_live h s =
    (case map_of (handle_to_proxy s) h of
       Some e \<Rightarrow> if upgrade s (ce_weak e) then Some (ce_weak e) else None
     | None \<Rightarrow> None)"

subsection \<open>Proxies\<close>

definition new_acquired :: "engine \<Rightarrow> u32 \<Rightarrow> string \<Rightarrow> Stability \<Rightarrow> cache_state \<Rightarrow> nat result \<times> cache_state" where
  "new_acquired E handle descriptor stability s =
    (let s = push_command (BC_ACQUIRE handle) s
     in case eng_queue E (BC_ACQUIRE handle) of
          Ok _ \<Rightarrow>
            (case on_proxy_create (eng_uid E) (counts s) (deferral s) of
               (counted, c, d) \<Rightarrow>
                 (Ok (next_proxy s), s\<lparr>next_proxy := next_proxy s + 1,
                    proxies := (next_proxy s, \<lparr>ph_handle = handle, ph_descriptor = descriptor, tracked_uid = eng_uid E,
                      count_acquired = True, counted_by_uid = counted, ph_stability = stability,
                      obituary_sent = False, recipients = [], extension = NotQueried\<rparr>) # proxies s,
                    counts := c, deferral := d\<rparr>))
        | Err e \<Rightarrow> (Err e, s)
        | Panic \<Rightarrow> (Panic, s))"

text \<open>\<open>Drop\<close> of the last reference to a proxy.\<close>

definition proxy_drop :: "nat \<Rightarrow> cache_state \<Rightarrow> cache_state" where
  "proxy_drop arc s =
    (case map_of (proxies s) arc of
       Some p \<Rightarrow>
         let s = push_command (BC_RELEASE (ph_handle p)) (s\<lparr>proxies := AList.delete arc (proxies s)\<rparr>)
         in if count_acquired p then s\<lparr>counts := on_proxy_drop (tracked_uid p) (counted_by_uid p) (counts s)\<rparr> else s
     | None \<Rightarrow> s)"

definition put_proxy :: "nat \<Rightarrow> ProxyHandle \<Rightarrow> cache_state \<Rightarrow> cache_state" where
  "put_proxy arc p s = s\<lparr>proxies := AList.update arc p (proxies s)\<rparr>"

definition dispatch_obituary_callbacks :: "(nat \<Rightarrow> bool) \<Rightarrow> nat list \<Rightarrow> WIBinder \<Rightarrow> cache_state \<Rightarrow> cache_state" where
  "dispatch_obituary_callbacks alive snapshot who s =
    s\<lparr>notified := notified s @ map (\<lambda>r. (r, who)) (filter alive snapshot)\<rparr>"

definition send_obituary :: "engine \<Rightarrow> (nat \<Rightarrow> bool) \<Rightarrow> WIBinder \<Rightarrow> nat \<Rightarrow> ProxyHandle \<Rightarrow> cache_state \<Rightarrow> unit result \<times> cache_state" where
  "send_obituary E alive who arc p s =
    (if obituary_sent p then (Ok (), s)
     else
       let snapshot = recipients p;
           s = (if snapshot \<noteq> [] then push_command (BC_CLEAR_DEATH_NOTIFICATION (ph_handle p) (ucast (ph_handle p))) s else s);
           s = put_proxy arc (p\<lparr>recipients := [], obituary_sent := True\<rparr>) s;
           s = dispatch_obituary_callbacks alive snapshot who s
       in if snapshot \<noteq> [] then (eng_flush E, s) else (Ok (), s))"

definition link_to_death :: "(nat \<Rightarrow> bool) \<Rightarrow> nat \<Rightarrow> nat \<Rightarrow> ProxyHandle \<Rightarrow> cache_state \<Rightarrow> unit result \<times> cache_state" where
  "link_to_death alive recipient arc p s =
    (if obituary_sent p then (Err DeadObject, s)
     else if \<not> alive recipient then (Err BadValue, s)
     else
       let s = (if recipients p = [] then push_command (BC_REQUEST_DEATH_NOTIFICATION (ph_handle p) (ucast (ph_handle p))) s else s)
       in (Ok (), put_proxy arc (p\<lparr>recipients := recipients p @ [recipient]\<rparr>) s))"

definition unlink_to_death :: "nat \<Rightarrow> nat \<Rightarrow> ProxyHandle \<Rightarrow> cache_state \<Rightarrow> unit result \<times> cache_state" where
  "unlink_to_death recipient arc p s =
    (if obituary_sent p then (Err DeadObject, s)
     else if recipient \<notin> set (recipients p) then (Err NameNotFound, s)
     else
       let p = p\<lparr>recipients := remove1 recipient (recipients p)\<rparr>;
           s = put_proxy arc p s
       in (Ok (), if recipients p = [] then push_command (BC_CLEAR_DEATH_NOTIFICATION (ph_handle p) (ucast (ph_handle p))) s else s))"

subsection \<open>Weak references and extensions\<close>

definition cache_generation_for :: "u32 \<Rightarrow> cache_state \<Rightarrow> nat option" where
  "cache_generation_for handle s = map_option ce_generation (map_of (handle_to_proxy s) handle)"

fun SIBinder_downgrade :: "SIBinder_arc \<Rightarrow> cache_state \<Rightarrow> WIBinder" where
  "SIBinder_downgrade (ExtProxy arc) s =
    (case map_of (proxies s) arc of
       Some p \<Rightarrow>
         (case cache_generation_for (ph_handle p) s of
            Some generation \<Rightarrow> WProxy (ph_handle p) (ph_stability p) generation arc
          | None \<Rightarrow> WNative arc)
     | None \<Rightarrow> WNative arc)"
| "SIBinder_downgrade (ExtNative arc) s = WNative arc"

text \<open>The weak reference of a proxy keeps the allocation whatever its form; \<open>upgrade\<close> asks nothing else.\<close>

fun weak_arc :: "WIBinder \<Rightarrow> nat" where
  "weak_arc (WProxy _ _ _ arc) = arc"
| "weak_arc (WNative arc) = arc"

definition WIBinder_upgrade :: "WIBinder \<Rightarrow> cache_state \<Rightarrow> nat result" where
  "WIBinder_upgrade w s = (if upgrade s (weak_arc w) then Ok (weak_arc w) else Err DeadObject)"

fun WIBinder_eq :: "WIBinder \<Rightarrow> WIBinder \<Rightarrow> bool" where
  "WIBinder_eq (WNative a) (WNative b) \<longleftrightarrow> a = b"
| "WIBinder_eq (WProxy ha _ ga _) (WProxy hb _ gb _) \<longleftrightarrow> ha = hb \<and> ga = gb"
| "WIBinder_eq _ _ \<longleftrightarrow> False"

definition classify_extension :: "ProxyHandle \<Rightarrow> SIBinder_arc \<Rightarrow> cache_state \<Rightarrow> CachedExtension" where
  "classify_extension p sib s =
    (case sib of
       ExtProxy arc \<Rightarrow>
         (case map_of (proxies s) arc of
            Some q \<Rightarrow> if ph_handle q = ph_handle p then WeakExt (SIBinder_downgrade sib s) else StrongExt sib
          | None \<Rightarrow> StrongExt sib)
     | ExtNative _ \<Rightarrow> StrongExt sib)"

definition submit_transact :: "'r result \<Rightarrow> ProxyHandle \<Rightarrow> 'r result" where
  "submit_transact answer p = (if obituary_sent p then Err DeadObject else answer)"

text \<open>\<open>answer\<close> is the outcome of the extension transaction: no reply, or a reply with the outcome of
  reading an object from it.\<close>

definition query_extension :: "SIBinder_arc option result option result \<Rightarrow> ProxyHandle \<Rightarrow> SIBinder_arc option result" where
  "query_extension answer p =
    (case submit_transact answer p of
       Ok (Some reply) \<Rightarrow> reply
     | Ok None \<Rightarrow> Ok None
     | Err UnknownTransaction \<Rightarrow> Ok None
     | Err e \<Rightarrow> Err e
     | Panic \<Rightarrow> Panic)"

definition get_extension ::
    "SIBinder_arc option result option result \<Rightarrow> nat \<Rightarrow> ProxyHandle \<Rightarrow> cache_state \<Rightarrow> SIBinder_arc option result \<times> cache_state" where
  "get_extension answer arc p s =
    (let ask = andThen (query_extension answer p, s) (\<lambda>ext s.
           (Ok ext, put_proxy arc (p\<lparr>extension := Queried (map_option (\<lambda>sib. classify_extension p sib s) ext)\<rparr>) s))
     in case extension p of
          NotQueried \<Rightarrow> ask
        | Queried None \<Rightarrow> (Ok None, s)
        | Queried (Some (StrongExt sib)) \<Rightarrow> (Ok (Some sib), s)
        | Queried (Some (WeakExt w)) \<Rightarrow>
            (case WIBinder_upgrade w s of
               Ok strong \<Rightarrow> (Ok (Some (ExtProxy strong)), s)
             | _ \<Rightarrow> ask))"

subsection \<open>The slow path\<close>

datatype SlowPathPlan = PlanA | PlanB string nat

datatype SlowPathDecision = Cached nat | NeedIpc SlowPathPlan

datatype SlowPathReady = ReadyA string | ReadyB string nat

text \<open>A failure of the undo is logged; its command is queued all the same.\<close>

definition undo_case_a_pin :: "u32 \<Rightarrow> cache_state \<Rightarrow> cache_state" where
  "undo_case_a_pin handle s = push_command (BC_DECREFS handle) s"

definition commit_new_acquired ::
    "engine \<Rightarrow> u32 \<Rightarrow> string \<Rightarrow> nat \<Rightarrow> Stability \<Rightarrow> bool \<Rightarrow> cache_state \<Rightarrow> nat result \<times> cache_state" where
  "commit_new_acquired E handle descriptor generation stability owns_case_a_pin s =
    (case new_acquired E handle descriptor stability s of
       (Ok arc, s) \<Rightarrow> (Ok arc, s\<lparr>handle_to_proxy := AList.update handle
          \<lparr>ce_weak = arc, ce_descriptor = descriptor, ce_generation = generation\<rparr> (handle_to_proxy s)\<rparr>)
     | (Err e, s) \<Rightarrow> (Err e, if owns_case_a_pin then undo_case_a_pin handle s else s)
     | (Panic, s) \<Rightarrow> (Panic, s))"

definition slow_path_p1 :: "engine \<Rightarrow> u32 \<Rightarrow> cache_state \<Rightarrow> SlowPathDecision result \<times> cache_state" where
  "slow_path_p1 E handle s =
    (case cached_live handle s of
       Some arc \<Rightarrow> (Ok (Cached arc), s)
     | None \<Rightarrow>
         (case map_of (handle_to_proxy s) handle of
            Some e \<Rightarrow> (Ok (NeedIpc (PlanB (ce_descriptor e) (ce_generation e))), s)
          | None \<Rightarrow>
              andThen (eng_queue E (BC_INCREFS handle), push_command (BC_INCREFS handle) s) (\<lambda>_ s.
                case eng_flush E of
                  Err _ \<Rightarrow> (Err DeadObject, s)
                | _ \<Rightarrow> (Ok (NeedIpc PlanA), s))))"

text \<open>The call restriction lifted for the ping is restored by its guard on every exit.\<close>

definition slow_path_p2 :: "engine \<Rightarrow> bool \<Rightarrow> u32 \<Rightarrow> SlowPathPlan \<Rightarrow> cache_state \<Rightarrow> SlowPathReady result \<times> cache_state" where
  "slow_path_p2 E sdk_at_least_30 handle plan s =
    (case (if handle = 0 \<and> sdk_at_least_30 then eng_ping E handle else Ok ()) of
       Err err \<Rightarrow> (Err err, if plan = PlanA then undo_case_a_pin handle s else s)
     | Panic \<Rightarrow> (Panic, s)
     | Ok _ \<Rightarrow>
         (case plan of
            PlanA \<Rightarrow>
              (case eng_query E handle of
                 Ok descriptor \<Rightarrow> (Ok (ReadyA descriptor), s)
               | Err err \<Rightarrow> (Err err, undo_case_a_pin handle s)
               | Panic \<Rightarrow> (Panic, s))
          | PlanB descriptor generation \<Rightarrow> (Ok (ReadyB descriptor generation), s)))"

fun is_ReadyA :: "SlowPathReady \<Rightarrow> bool" where
  "is_ReadyA (ReadyA _) = True"
| "is_ReadyA (ReadyB _ _) = False"

text \<open>Phase three under the lock, and with the guard that holds the count callbacks back around it.\<close>

definition slow_path_p3_locked :: "engine \<Rightarrow> u32 \<Rightarrow> Stability \<Rightarrow> SlowPathReady \<Rightarrow> cache_state \<Rightarrow> nat result \<times> cache_state" where
  "slow_path_p3_locked E handle stability rdy s =
    (case cached_live handle s of
       Some arc \<Rightarrow> (Ok arc, if is_ReadyA rdy then undo_case_a_pin handle s else s)
     | None \<Rightarrow>
         (case (rdy, map_of (handle_to_proxy s) handle) of
            (ReadyA descriptor, None) \<Rightarrow>
              (let generation = next_generation s
               in commit_new_acquired E handle descriptor generation stability True
                    (s\<lparr>next_generation := generation + 1\<rparr>))
          | (ReadyA _, Some e) \<Rightarrow>
              commit_new_acquired E handle (ce_descriptor e) (ce_generation e) stability False (undo_case_a_pin handle s)
          | (ReadyB descriptor generation, Some e) \<Rightarrow>
              if ce_generation e = generation
              then commit_new_acquired E handle descriptor generation stability False s
              else commit_new_acquired E handle (ce_descriptor e) (ce_generation e) stability False s
          | (ReadyB _ _, None) \<Rightarrow> (Err DeadObject, s)))"

definition slow_path_p3 :: "engine \<Rightarrow> u32 \<Rightarrow> Stability \<Rightarrow> SlowPathReady \<Rightarrow> cache_state \<Rightarrow> nat result \<times> cache_state" where
  "slow_path_p3 E handle stability rdy s =
    (let (was_deferring, d) = defer_guard_new (deferral s);
         (res, s) = slow_path_p3_locked E handle stability rdy (s\<lparr>deferral := d\<rparr>);
         (c, d) = defer_guard_drop was_deferring (counts s) (deferral s)
     in (res, s\<lparr>counts := c, deferral := d\<rparr>))"

definition strong_proxy_for_handle_stability ::
    "engine \<Rightarrow> bool \<Rightarrow> u32 \<Rightarrow> Stability \<Rightarrow> cache_state \<Rightarrow> nat result \<times> cache_state" where
  "strong_proxy_for_handle_stability E sdk_at_least_30 handle stability s =
    (case cached_live handle s of
       Some arc \<Rightarrow> (Ok arc, s)
     | None \<Rightarrow>
         andThen (slow_path_p1 E handle s) (\<lambda>decision s.
           case decision of
             Cached arc \<Rightarrow> (Ok arc, s)
           | NeedIpc plan \<Rightarrow>
               andThen (slow_path_p2 E sdk_at_least_30 handle plan s) (\<lambda>rdy s.
                 slow_path_p3 E handle stability rdy s)))"

subsection \<open>Obituaries\<close>

definition send_obituary_for_handle :: "engine \<Rightarrow> (nat \<Rightarrow> bool) \<Rightarrow> u32 \<Rightarrow> cache_state \<Rightarrow> unit result \<times> cache_state" where
  "send_obituary_for_handle E alive handle s =
    (let arc = cached_live handle s;
         who = map_option (\<lambda>a. SIBinder_downgrade (ExtProxy a) s) arc;
         s = s\<lparr>handle_to_proxy := AList.delete handle (handle_to_proxy s)\<rparr>
     in case (arc, who) of
          (Some arc, Some who) \<Rightarrow>
            (case map_of (proxies s) arc of
               Some p \<Rightarrow> send_obituary E alive who arc p s
             | None \<Rightarrow> (Ok (), s))
        | _ \<Rightarrow> (Ok (), s))"

definition release_obituary_pin :: "engine \<Rightarrow> u32 \<Rightarrow> cache_state \<Rightarrow> unit result \<times> cache_state" where
  "release_obituary_pin E handle s =
    andThen (eng_flush E, s) (\<lambda>_ s.
      andThen (eng_queue E (BC_DECREFS handle), push_command (BC_DECREFS handle) s) (\<lambda>_ s.
        (eng_flush E, s)))"

subsection \<open>Threads interleaved at lock regions\<close>

text \<open>A lookup between two of its phases, and an obituary between removing the entry and giving back its
  pin. The driver takes the pin commands; everything else may fail.\<close>

datatype lookup_phase = Planned SlowPathPlan | Ready SlowPathReady

record cache_sys =
  cache :: cache_state
  lookups :: "(u32 \<times> lookup_phase) list"
  obituaries :: "u32 list"

definition cache_init :: cache_state where
  "cache_init = \<lparr>handle_to_proxy = [], next_generation = 1, proxies = [], next_proxy = 0, commands = [], notified = [],
     counts = proxy_counts_new, deferral = no_deferral\<rparr>"

definition cache_sys_init :: "cache_sys \<Rightarrow> bool" where
  "cache_sys_init \<sigma> \<longleftrightarrow> \<sigma> = \<lparr>cache = cache_init, lookups = [], obituaries = []\<rparr>"

inductive cache_step :: "cache_sys \<Rightarrow> cache_sys \<Rightarrow> bool" where
  phase1: "slow_path_p1 E h (cache \<sigma>) = (Ok (NeedIpc plan), s') \<Longrightarrow>
    cache_step \<sigma> (\<sigma>\<lparr>cache := s', lookups := (h, Planned plan) # lookups \<sigma>\<rparr>)"
| phase2: "lookups \<sigma> = xs @ (h, Planned plan) # ys \<Longrightarrow> slow_path_p2 E sdk h plan (cache \<sigma>) = (Ok r, s') \<Longrightarrow>
    cache_step \<sigma> (\<sigma>\<lparr>cache := s', lookups := xs @ (h, Ready r) # ys\<rparr>)"
| phase2_fails: "lookups \<sigma> = xs @ (h, Planned plan) # ys \<Longrightarrow> slow_path_p2 E sdk h plan (cache \<sigma>) = (Err e, s') \<Longrightarrow>
    cache_step \<sigma> (\<sigma>\<lparr>cache := s', lookups := xs @ ys\<rparr>)"
| phase3: "lookups \<sigma> = xs @ (h, Ready r) # ys \<Longrightarrow> slow_path_p3 E h stab r (cache \<sigma>) = (res, s') \<Longrightarrow> res \<noteq> Panic \<Longrightarrow>
    cache_step \<sigma> (\<sigma>\<lparr>cache := s', lookups := xs @ ys\<rparr>)"
| obituary: "map_of (handle_to_proxy (cache \<sigma>)) h \<noteq> None \<Longrightarrow> send_obituary_for_handle E alive h (cache \<sigma>) = (res, s') \<Longrightarrow>
    cache_step \<sigma> (\<sigma>\<lparr>cache := s', obituaries := h # obituaries \<sigma>\<rparr>)"
| obituary_done: "obituaries \<sigma> = xs @ h # ys \<Longrightarrow> eng_flush E = Ok () \<Longrightarrow> release_obituary_pin E h (cache \<sigma>) = (res, s') \<Longrightarrow>
    cache_step \<sigma> (\<sigma>\<lparr>cache := s', obituaries := xs @ ys\<rparr>)"
| dropped: "cache_step \<sigma> (\<sigma>\<lparr>cache := proxy_drop arc (cache \<sigma>)\<rparr>)"
| linked: "map_of (proxies (cache \<sigma>)) arc = Some p \<Longrightarrow> link_to_death alive r arc p (cache \<sigma>) = (res, s') \<Longrightarrow>
    cache_step \<sigma> (\<sigma>\<lparr>cache := s'\<rparr>)"
| unlinked: "map_of (proxies (cache \<sigma>)) arc = Some p \<Longrightarrow> unlink_to_death r arc p (cache \<sigma>) = (res, s') \<Longrightarrow>
    cache_step \<sigma> (\<sigma>\<lparr>cache := s'\<rparr>)"
| extended: "map_of (proxies (cache \<sigma>)) arc = Some p \<Longrightarrow> (\<And>a. answer = Ok (Some (Ok (Some (ExtProxy a)))) \<Longrightarrow> upgrade (cache \<sigma>) a) \<Longrightarrow>
    get_extension answer arc p (cache \<sigma>) = (res, s') \<Longrightarrow> cache_step \<sigma> (\<sigma>\<lparr>cache := s'\<rparr>)"
| configured: "cache_step \<sigma> (\<sigma>\<lparr>cache := (cache \<sigma>)\<lparr>counts := enable_count_by_uid b
    (set_binder_proxy_count_watermarks high low warning (set_binder_proxy_count_event_callback cb (counts (cache \<sigma>))))\<rparr>\<rparr>)"

section \<open>Pins\<close>

text \<open>The weak references the driver holds for a handle, and what accounts for them.\<close>

fun pin_change :: "u32 \<Rightarrow> bc \<Rightarrow> int" where
  "pin_change h (BC_INCREFS g) = (if g = h then 1 else 0)"
| "pin_change h (BC_DECREFS g) = (if g = h then - 1 else 0)"
| "pin_change h _ = 0"

definition pins :: "bc list \<Rightarrow> u32 \<Rightarrow> int" where
  "pins cs h = sum_list (map (pin_change h) cs)"

fun owns_pin :: "lookup_phase \<Rightarrow> bool" where
  "owns_pin (Planned PlanA) = True"
| "owns_pin (Ready (ReadyA _)) = True"
| "owns_pin _ = False"

definition pin_owners :: "cache_sys \<Rightarrow> u32 \<Rightarrow> int" where
  "pin_owners \<sigma> h = (if map_of (handle_to_proxy (cache \<sigma>)) h \<noteq> None then 1 else 0) +
     int (length (filter (\<lambda>(g, ph). g = h \<and> owns_pin ph) (lookups \<sigma>))) + int (count_list (obituaries \<sigma>) h)"

text \<open>Every \<open>BC_ACQUIRE\<close> is issued while a pin keeps the driver's slot.\<close>

fun acquires_pinned :: "bc list \<Rightarrow> bc list \<Rightarrow> bool" where
  "acquires_pinned pre [] = True"
| "acquires_pinned pre (c # cs) \<longleftrightarrow>
    (case c of BC_ACQUIRE h \<Rightarrow> pins pre h \<ge> 1 | _ \<Rightarrow> True) \<and> acquires_pinned (pre @ [c]) cs"

text \<open>Sightings of a generation: in the cache, and in the snapshots of lookups on their way.\<close>

fun phase_sighting :: "u32 \<times> lookup_phase \<Rightarrow> (nat \<times> u32 \<times> string) option" where
  "phase_sighting (h, Planned (PlanB d g)) = Some (g, h, d)"
| "phase_sighting (h, Ready (ReadyB d g)) = Some (g, h, d)"
| "phase_sighting _ = None"

definition sightings :: "cache_sys \<Rightarrow> (nat \<times> u32 \<times> string) set" where
  "sightings \<sigma> = {(ce_generation e, h, ce_descriptor e) | h e. map_of (handle_to_proxy (cache \<sigma>)) h = Some e} \<union>
     {x. Some x \<in> phase_sighting ` set (lookups \<sigma>)}"

text \<open>No generation below \<open>n\<close> was given to two entries.\<close>

definition one_origin :: "(nat \<times> u32 \<times> string) set \<Rightarrow> nat \<Rightarrow> bool" where
  "one_origin S n \<longleftrightarrow> (\<forall>x \<in> S. fst x < n) \<and> (\<forall>x \<in> S. \<forall>y \<in> S. fst x = fst y \<longrightarrow> x = y)"

text \<open>\<open>seen\<close> is what was sighted at an earlier moment.\<close>

definition cache_inv :: "(nat \<times> u32 \<times> string) set \<Rightarrow> cache_sys \<Rightarrow> bool" where
  "cache_inv seen \<sigma> \<longleftrightarrow>
    (\<forall>h. pins (commands (cache \<sigma>)) h = pin_owners \<sigma> h) \<and>
    acquires_pinned [] (commands (cache \<sigma>)) \<and>
    one_origin (seen \<union> sightings \<sigma>) (next_generation (cache \<sigma>))"

lemma one_origin_subset: "one_origin S n \<Longrightarrow> S' \<subseteq> S \<Longrightarrow> n \<le> n' \<Longrightarrow> one_origin S' n'"
  unfolding one_origin_def by (meson less_le_trans subsetD)

lemma one_origin_fresh:
  assumes S: "one_origin S n" and S': "S' \<subseteq> insert (n, z) S"
  shows "one_origin S' (n + 1)"
proof -
  have "fst x \<noteq> n" if "x \<in> S" for x using S that by (auto simp: one_origin_def)
  then have "one_origin (insert (n, z) S) (n + 1)"
    using S unfolding one_origin_def by (intro conjI ballI impI) (auto intro: less_SucI dest: sym)
  then show ?thesis using S' by (rule one_origin_subset) simp
qed

lemma one_originD: "one_origin S n \<Longrightarrow> (g, x) \<in> S \<Longrightarrow> (g, y) \<in> S \<Longrightarrow> x = y"
  unfolding one_origin_def by (metis fst_conv prod.inject)

lemma pins_snoc [simp]: "pins [] h = 0" "pins (cs @ [c]) h = pins cs h + pin_change h c"
  by (simp_all add: pins_def)

lemma pins_snoc2 [simp]: "pins (cs @ [c, d]) h = pins cs h + pin_change h c + pin_change h d"
  by (simp add: pins_def)

lemma lookups_cache_commute [simp]:
  "\<sigma>\<lparr>lookups := l, cache := s\<rparr> = \<sigma>\<lparr>cache := s, lookups := l\<rparr>"
  "\<sigma>\<lparr>obituaries := ob, cache := s\<rparr> = \<sigma>\<lparr>cache := s, obituaries := ob\<rparr>"
  by (cases \<sigma>; simp)+

lemma acquires_pinned_append:
  "acquires_pinned pre (xs @ ys) \<longleftrightarrow> acquires_pinned pre xs \<and> acquires_pinned (pre @ xs) ys"
  by (induction xs arbitrary: pre) auto

lemma acquires_pinned_snoc [simp]:
  "acquires_pinned pre (cs @ [c]) \<longleftrightarrow> acquires_pinned pre cs \<and> (case c of BC_ACQUIRE h \<Rightarrow> pins (pre @ cs) h \<ge> 1 | _ \<Rightarrow> True)"
  by (auto simp: acquires_pinned_append)

text \<open>A step that issues commands without touching cache, lookups or obituaries.\<close>

definition harmless :: "bc \<Rightarrow> bool" where
  "harmless c \<longleftrightarrow> (\<forall>h. pin_change h c = 0) \<and> (\<forall>h. c \<noteq> BC_ACQUIRE h)"

definition same_cache :: "cache_state \<Rightarrow> cache_state \<Rightarrow> bool" where
  "same_cache s s' \<longleftrightarrow> handle_to_proxy s' = handle_to_proxy s \<and> next_generation s' = next_generation s \<and>
    (commands s' = commands s \<or> (\<exists>c. harmless c \<and> commands s' = commands s @ [c]))"

lemma harmless_case: "harmless c \<Longrightarrow> (case c of BC_ACQUIRE h \<Rightarrow> P h | _ \<Rightarrow> True)"
  by (cases c) (auto simp: harmless_def)

lemma frame_owners:
  "handle_to_proxy s' = handle_to_proxy (cache \<sigma>) \<Longrightarrow> pin_owners (\<sigma>\<lparr>cache := s'\<rparr>) = pin_owners \<sigma>"
  "handle_to_proxy s' = handle_to_proxy (cache \<sigma>) \<Longrightarrow> sightings (\<sigma>\<lparr>cache := s'\<rparr>) = sightings \<sigma>"
  by (simp_all add: fun_eq_iff pin_owners_def sightings_def)

lemma cache_inv_same:
  assumes \<sigma>: "cache_inv seen \<sigma>" and s': "same_cache (cache \<sigma>) s'"
  shows "cache_inv seen (\<sigma>\<lparr>cache := s'\<rparr>)"
proof -
  have "pins (commands s') h = pins (commands (cache \<sigma>)) h" for h
    using s' by (auto simp: same_cache_def harmless_def)
  moreover have "acquires_pinned [] (commands s')"
    using \<sigma> s' by (auto simp: same_cache_def cache_inv_def harmless_case)
  ultimately show ?thesis
    using \<sigma> s' frame_owners [of s' \<sigma>] by (simp add: cache_inv_def same_cache_def)
qed

lemma same_cacheI:
  "handle_to_proxy s' = handle_to_proxy s \<Longrightarrow> next_generation s' = next_generation s \<Longrightarrow> commands s' = commands s \<Longrightarrow> same_cache s s'"
  "handle_to_proxy s' = handle_to_proxy s \<Longrightarrow> next_generation s' = next_generation s \<Longrightarrow> commands s' = commands s @ [c] \<Longrightarrow>
    harmless c \<Longrightarrow> same_cache s s'"
  by (auto simp: same_cache_def)

lemma same_cache_counts [simp]:
  "same_cache s (s\<lparr>counts := c, deferral := d\<rparr>)" "same_cache s (s\<lparr>counts := c\<rparr>)"
  by (simp_all add: same_cache_def)

lemma harmless_simps [simp]:
  "harmless (BC_RELEASE h)" "harmless (BC_CLEAR_DEATH_NOTIFICATION h k)" "harmless (BC_REQUEST_DEATH_NOTIFICATION h k)"
  by (simp_all add: harmless_def)

lemma drop_same_cache: "same_cache s (proxy_drop arc s)"
  by (auto simp: proxy_drop_def push_command_def Let_def split: option.split intro: same_cacheI)

lemma link_same_cache: "link_to_death alive r arc p s = (res, s') \<Longrightarrow> same_cache s s'"
  by (auto simp: link_to_death_def push_command_def put_proxy_def Let_def split: if_splits intro: same_cacheI)

lemma unlink_same_cache: "unlink_to_death r arc p s = (res, s') \<Longrightarrow> same_cache s s'"
  by (auto simp: unlink_to_death_def push_command_def put_proxy_def Let_def split: if_splits intro: same_cacheI)

lemma send_obituary_same_cache: "send_obituary E alive who arc p s = (res, s') \<Longrightarrow> same_cache s s'"
  by (auto simp: send_obituary_def push_command_def put_proxy_def dispatch_obituary_callbacks_def Let_def
      split: if_splits intro: same_cacheI)

lemma extension_same_cache: "get_extension answer arc p s = (res, s') \<Longrightarrow> same_cache s s'"
  unfolding get_extension_def Let_def
  by (cases "query_extension answer p")
    (auto simp: put_proxy_def intro: same_cacheI split: ExtensionCache.splits option.splits CachedExtension.splits outcome.splits)

definition pin_count :: "u32 \<Rightarrow> (u32 \<times> lookup_phase) list \<Rightarrow> int" where
  "pin_count h ls = int (length (filter (\<lambda>(g, ph). g = h \<and> owns_pin ph) ls))"

lemma pin_count_simps [simp]:
  "pin_count h [] = 0" "pin_count h ((g, ph) # ls) = (if g = h \<and> owns_pin ph then 1 else 0) + pin_count h ls"
  "pin_count h (ks @ ls) = pin_count h ks + pin_count h ls" "pin_count h ls \<ge> 0"
  by (simp_all add: pin_count_def)

lemma pin_owners_eq: "pin_owners \<sigma> h = (if map_of (handle_to_proxy (cache \<sigma>)) h \<noteq> None then 1 else 0) +
    pin_count h (lookups \<sigma>) + int (count_list (obituaries \<sigma>) h)"
  by (simp add: pin_owners_def pin_count_def)

lemma cache_invD:
  assumes "cache_inv seen \<sigma>"
  shows "pins (commands (cache \<sigma>)) h = (if map_of (handle_to_proxy (cache \<sigma>)) h \<noteq> None then 1 else 0) +
      pin_count h (lookups \<sigma>) + int (count_list (obituaries \<sigma>) h)"
    and "acquires_pinned [] (commands (cache \<sigma>))"
    and "one_origin (seen \<union> sightings \<sigma>) (next_generation (cache \<sigma>))"
  using assms by (simp_all add: cache_inv_def pin_owners_eq)

lemma cache_entry_sighted: "map_of (handle_to_proxy (cache \<sigma>)) h = Some e \<Longrightarrow> (ce_generation e, h, ce_descriptor e) \<in> sightings \<sigma>"
  by (auto simp: sightings_def)

lemma lookup_sighted: "l \<in> set (lookups \<sigma>) \<Longrightarrow> phase_sighting l = Some x \<Longrightarrow> x \<in> sightings \<sigma>"
  unfolding sightings_def by (metis (mono_tags, lifting) UnI2 image_eqI mem_Collect_eq)

lemma phase1_inv:
  assumes \<sigma>: "cache_inv seen \<sigma>" and p1: "slow_path_p1 E h (cache \<sigma>) = (Ok (NeedIpc plan), s')"
  shows "cache_inv seen (\<sigma>\<lparr>cache := s', lookups := (h, Planned plan) # lookups \<sigma>\<rparr>)"
proof (cases "map_of (handle_to_proxy (cache \<sigma>)) h")
  case (Some e)
  then have s': "s' = cache \<sigma>" and plan: "plan = PlanB (ce_descriptor e) (ce_generation e)"
    using p1 by (auto simp: slow_path_p1_def split: option.splits)
  have "sightings (\<sigma>\<lparr>cache := s', lookups := (h, Planned plan) # lookups \<sigma>\<rparr>) \<subseteq> sightings \<sigma>"
    using cache_entry_sighted [OF Some] by (auto simp: sightings_def s' plan)
  then show ?thesis
    using cache_invD [OF \<sigma>] by (auto simp: cache_inv_def pin_owners_eq s' plan intro: one_origin_subset)
next
  case None
  then have s': "s' = push_command (BC_INCREFS h) (cache \<sigma>)" and plan: "plan = PlanA"
    using p1 by (cases "eng_queue E (BC_INCREFS h)"; auto simp: slow_path_p1_def cached_live_def split: outcome.splits)+
  have "sightings (\<sigma>\<lparr>cache := s', lookups := (h, Planned plan) # lookups \<sigma>\<rparr>) = sightings \<sigma>"
    by (auto simp: sightings_def s' plan push_command_def)
  then show ?thesis
    using cache_invD [OF \<sigma>] by (simp add: cache_inv_def pin_owners_eq s' plan push_command_def)
qed

lemma phase2_inv:
  assumes \<sigma>: "cache_inv seen \<sigma>" and l: "lookups \<sigma> = xs @ (h, Planned plan) # ys"
    and p2: "slow_path_p2 E sdk h plan (cache \<sigma>) = (Ok r, s')"
  shows "cache_inv seen (\<sigma>\<lparr>cache := s', lookups := xs @ (h, Ready r) # ys\<rparr>)"
proof -
  have s': "s' = cache \<sigma>" and r: "(plan = PlanA \<and> (\<exists>d. r = ReadyA d)) \<or> (\<exists>d g. plan = PlanB d g \<and> r = ReadyB d g)"
    using p2 by (auto simp: slow_path_p2_def split: outcome.splits SlowPathPlan.splits if_splits)
  have "owns_pin (Ready r) = owns_pin (Planned plan)" "phase_sighting (h, Ready r) = phase_sighting (h, Planned plan)"
    using r by auto
  then show ?thesis
    using cache_invD [OF \<sigma>] by (simp add: cache_inv_def pin_owners_eq sightings_def s' l)
qed

lemma phase2_fails_inv:
  assumes \<sigma>: "cache_inv seen \<sigma>" and l: "lookups \<sigma> = xs @ (h, Planned plan) # ys"
    and p2: "slow_path_p2 E sdk h plan (cache \<sigma>) = (Err e, s')"
  shows "cache_inv seen (\<sigma>\<lparr>cache := s', lookups := xs @ ys\<rparr>)"
proof -
  have s': "s' = (if plan = PlanA then undo_case_a_pin h (cache \<sigma>) else cache \<sigma>)"
    using p2 by (auto simp: slow_path_p2_def split: outcome.splits SlowPathPlan.splits if_splits)
  have "sightings (\<sigma>\<lparr>cache := s', lookups := xs @ ys\<rparr>) \<subseteq> sightings \<sigma>"
    by (auto simp: sightings_def s' l undo_case_a_pin_def push_command_def)
  moreover have "next_generation s' = next_generation (cache \<sigma>)"
    by (simp add: s' undo_case_a_pin_def push_command_def)
  ultimately show ?thesis
    using cache_invD [OF \<sigma>] l
    by (cases plan) (auto simp: cache_inv_def pin_owners_eq s' undo_case_a_pin_def push_command_def intro: one_origin_subset)
qed

lemma commit_cases:
  assumes "commit_new_acquired E h d g stab own s = (res, s')" "res \<noteq> Panic"
  obtains arc where "handle_to_proxy s' = AList.update h \<lparr>ce_weak = arc, ce_descriptor = d, ce_generation = g\<rparr> (handle_to_proxy s)"
      "next_generation s' = next_generation s" "commands s' = commands s @ [BC_ACQUIRE h]"
  | "handle_to_proxy s' = handle_to_proxy s" "next_generation s' = next_generation s"
      "commands s' = (if own then (commands s @ [BC_ACQUIRE h]) @ [BC_DECREFS h] else commands s @ [BC_ACQUIRE h])"
  using assms by (auto simp: commit_new_acquired_def new_acquired_def undo_case_a_pin_def push_command_def Let_def
      split: outcome.splits prod.splits)

lemma pin_owner_positive:
  assumes \<sigma>: "cache_inv seen \<sigma>"
  shows "map_of (handle_to_proxy (cache \<sigma>)) h \<noteq> None \<Longrightarrow> pins (commands (cache \<sigma>)) h \<ge> 1"
    and "lookups \<sigma> = xs @ (h, Ready (ReadyA d)) # ys \<Longrightarrow>
      pins (commands (cache \<sigma>)) h \<ge> (if map_of (handle_to_proxy (cache \<sigma>)) h \<noteq> None then 2 else 1)"
  using cache_invD(1) [OF \<sigma>, of h] pin_count_simps(4) [of h] by (auto simp: add_nonneg_nonneg)

text \<open>Committing over an entry keeps the entry's pin; the entry's origin is one already sighted.\<close>

lemma commit_over_entry:
  assumes \<sigma>: "cache_inv seen \<sigma>" and entry: "map_of (handle_to_proxy (cache \<sigma>)) h = Some e"
    and d: "d = ce_descriptor e" "g = ce_generation e"
    and c: "commit_new_acquired E h d g stab False (cache \<sigma>) = (res, s')" "res \<noteq> Panic"
  shows "cache_inv seen (\<sigma>\<lparr>cache := s'\<rparr>)"
  using c
proof (cases rule: commit_cases)
  case (1 arc)
  have "sightings (\<sigma>\<lparr>cache := s'\<rparr>) \<subseteq> sightings \<sigma>"
    using cache_entry_sighted [OF entry] unfolding sightings_def
    by (auto simp: 1 update_conv' d split: if_splits)
  moreover have "pins (commands (cache \<sigma>)) h \<ge> 1" by (rule pin_owner_positive [OF \<sigma>]) (simp add: entry)
  ultimately show ?thesis
    using cache_invD [OF \<sigma>] entry
    by (auto simp: cache_inv_def pin_owners_eq 1 update_conv' intro: one_origin_subset)
next
  case 2
  have "pins (commands (cache \<sigma>)) h \<ge> 1" by (rule pin_owner_positive [OF \<sigma>]) (simp add: entry)
  then show ?thesis
    using cache_invD [OF \<sigma>] frame_owners [of s' \<sigma>] 2
    by (simp add: cache_inv_def pin_owners_eq)
qed

text \<open>A lookup that ends: with the plan of case (a) it gives its pin back.\<close>

lemma lookup_ends:
  assumes \<sigma>: "cache_inv seen \<sigma>" and l: "lookups \<sigma> = xs @ (h, Ready r) # ys"
  shows "cache_inv seen (\<sigma>\<lparr>cache := if is_ReadyA r then undo_case_a_pin h (cache \<sigma>) else cache \<sigma>, lookups := xs @ ys\<rparr>)"
    (is "cache_inv seen ?\<tau>")
proof -
  have "sightings ?\<tau> \<subseteq> sightings \<sigma>" "next_generation (cache ?\<tau>) = next_generation (cache \<sigma>)"
    by (auto simp: sightings_def l undo_case_a_pin_def push_command_def)
  then show ?thesis
    using cache_invD [OF \<sigma>] l
    by (cases r) (auto simp: cache_inv_def pin_owners_eq undo_case_a_pin_def push_command_def intro: one_origin_subset)
qed

lemma fresh_commit_inv:
  assumes \<sigma>: "cache_inv seen \<sigma>" and l: "lookups \<sigma> = xs @ (h, Ready (ReadyA d)) # ys"
    and entry: "map_of (handle_to_proxy (cache \<sigma>)) h = None"
    and c: "commit_new_acquired E h d (next_generation (cache \<sigma>)) stab True
      ((cache \<sigma>)\<lparr>next_generation := next_generation (cache \<sigma>) + 1\<rparr>) = (res, s')" "res \<noteq> Panic"
  shows "cache_inv seen (\<sigma>\<lparr>cache := s', lookups := xs @ ys\<rparr>)" (is "cache_inv seen ?\<tau>")
proof -
  have pinned: "pins (commands (cache \<sigma>)) h \<ge> 1" using pin_owner_positive(2) [OF \<sigma> l] entry by simp
  show ?thesis
    using c
  proof (cases rule: commit_cases)
    case (1 arc)
    have "seen \<union> sightings ?\<tau> \<subseteq> insert (next_generation (cache \<sigma>), h, d) (seen \<union> sightings \<sigma>)"
      unfolding sightings_def by (auto simp: 1 update_conv' l split: if_splits)
    from one_origin_fresh [OF cache_invD(3) [OF \<sigma>] this] show ?thesis
      using cache_invD(1,2) [OF \<sigma>] pinned entry l by (simp add: cache_inv_def pin_owners_eq 1 update_conv')
  next
    case 2
    have "sightings ?\<tau> \<subseteq> sightings \<sigma>" unfolding sightings_def by (auto simp: 2 l)
    then have "one_origin (seen \<union> sightings ?\<tau>) (next_generation s')"
      using cache_invD(3) [OF \<sigma>] 2(2) by (auto intro: one_origin_subset)
    then show ?thesis
      using cache_invD(1,2) [OF \<sigma>] pinned entry l 2 by (simp add: cache_inv_def pin_owners_eq acquires_pinned_append)
  qed
qed

lemma phase3_locked_inv:
  assumes \<sigma>: "cache_inv seen \<sigma>" and l: "lookups \<sigma> = xs @ (h, Ready r) # ys"
    and p3: "slow_path_p3_locked E h stab r (cache \<sigma>) = (res, s')" "res \<noteq> Panic"
  shows "cache_inv seen (\<sigma>\<lparr>cache := s', lookups := xs @ ys\<rparr>)"
proof -
  define s1 where "s1 = (if is_ReadyA r then undo_case_a_pin h (cache \<sigma>) else cache \<sigma>)"
  have ends: "cache_inv seen (\<sigma>\<lparr>cache := s1, lookups := xs @ ys\<rparr>)"
    unfolding s1_def by (rule lookup_ends [OF \<sigma> l])
  have htp: "handle_to_proxy s1 = handle_to_proxy (cache \<sigma>)"
    by (simp add: s1_def undo_case_a_pin_def push_command_def)
  have over: "cache_inv seen (\<sigma>\<lparr>cache := s', lookups := xs @ ys\<rparr>)"
    if "map_of (handle_to_proxy (cache \<sigma>)) h = Some e"
      "commit_new_acquired E h (ce_descriptor e) (ce_generation e) stab False s1 = (res, s')" for e
    using commit_over_entry [OF ends, of h e "ce_descriptor e" "ce_generation e" E stab res s'] that p3(2) htp by simp
  have same: "d = ce_descriptor e"
    if "r = ReadyB d (ce_generation e)" "map_of (handle_to_proxy (cache \<sigma>)) h = Some e" for d e
  proof -
    have "(ce_generation e, h, d) \<in> sightings \<sigma>"
      by (rule lookup_sighted [of "(h, Ready r)"]) (simp_all add: l that(1))
    with cache_entry_sighted [OF that(2)] show ?thesis
      using one_originD [OF cache_invD(3) [OF \<sigma>], of "ce_generation e" "(h, d)" "(h, ce_descriptor e)"] by simp
  qed
  show ?thesis
  proof (cases "cached_live h (cache \<sigma>)")
    case (Some arc)
    then show ?thesis using p3 ends by (simp add: slow_path_p3_locked_def s1_def)
  next
    case live: None
    show ?thesis
    proof (cases "map_of (handle_to_proxy (cache \<sigma>)) h")
      case None
      then show ?thesis
        using live p3 ends fresh_commit_inv [OF \<sigma>, of xs h _ ys E stab res s'] l
        by (cases r) (simp_all add: slow_path_p3_locked_def s1_def Let_def)
    next
      case (Some e)
      then show ?thesis
        using live p3 over [OF Some] same [OF _ Some]
        by (cases r) (auto simp: slow_path_p3_locked_def s1_def split: if_splits)
    qed
  qed
qed

lemma phase3_inv:
  assumes \<sigma>: "cache_inv seen \<sigma>" and l: "lookups \<sigma> = xs @ (h, Ready r) # ys"
    and p3: "slow_path_p3 E h stab r (cache \<sigma>) = (res, s')" "res \<noteq> Panic"
  shows "cache_inv seen (\<sigma>\<lparr>cache := s', lookups := xs @ ys\<rparr>)"
proof -
  define s0 where "s0 = (cache \<sigma>)\<lparr>deferral := snd (defer_guard_new (deferral (cache \<sigma>)))\<rparr>"
  obtain s1 where p3': "slow_path_p3_locked E h stab r s0 = (res, s1)" and s': "same_cache s1 s'"
    using p3 by (auto simp: slow_path_p3_def s0_def split: prod.splits intro: same_cacheI)
  have "cache_inv seen (\<sigma>\<lparr>cache := s0\<rparr>)"
    by (rule cache_inv_same [OF \<sigma>]) (simp add: s0_def same_cacheI)
  from phase3_locked_inv [OF this, of xs h r ys E stab res s1]
  have "cache_inv seen (\<sigma>\<lparr>cache := s1, lookups := xs @ ys\<rparr>)" using l p3' p3(2) by simp
  from cache_inv_same [OF this, of s'] show ?thesis using s' by simp
qed

lemma obituary_inv:
  assumes \<sigma>: "cache_inv seen \<sigma>" and entry: "map_of (handle_to_proxy (cache \<sigma>)) h \<noteq> None"
    and o: "send_obituary_for_handle E alive h (cache \<sigma>) = (res, s')"
  shows "cache_inv seen (\<sigma>\<lparr>cache := s', obituaries := h # obituaries \<sigma>\<rparr>)"
proof -
  define s1 where "s1 = (cache \<sigma>)\<lparr>handle_to_proxy := AList.delete h (handle_to_proxy (cache \<sigma>))\<rparr>"
  define \<tau> where "\<tau> = \<sigma>\<lparr>cache := s1, obituaries := h # obituaries \<sigma>\<rparr>"
  have "sightings \<tau> \<subseteq> sightings \<sigma>"
    unfolding sightings_def \<tau>_def s1_def by (auto simp: delete_conv' split: if_splits)
  then have "cache_inv seen \<tau>"
    using cache_invD [OF \<sigma>] entry
    by (auto simp: cache_inv_def pin_owners_eq \<tau>_def s1_def delete_conv' intro: one_origin_subset)
  moreover have "same_cache (cache \<tau>) s'"
    using o unfolding \<tau>_def s1_def send_obituary_for_handle_def Let_def
    by (auto split: option.splits intro: same_cacheI send_obituary_same_cache)
  ultimately have "cache_inv seen (\<tau>\<lparr>cache := s'\<rparr>)" by (rule cache_inv_same)
  then show ?thesis by (simp add: \<tau>_def)
qed

lemma obituary_done_inv:
  assumes \<sigma>: "cache_inv seen \<sigma>" and ob: "obituaries \<sigma> = xs @ h # ys" and flush: "eng_flush E = Ok ()"
    and r: "release_obituary_pin E h (cache \<sigma>) = (res, s')"
  shows "cache_inv seen (\<sigma>\<lparr>cache := s', obituaries := xs @ ys\<rparr>)"
proof -
  have s': "s' = push_command (BC_DECREFS h) (cache \<sigma>)"
    using r flush by (cases "eng_queue E (BC_DECREFS h)") (auto simp: release_obituary_pin_def)
  have "sightings (\<sigma>\<lparr>cache := s', obituaries := xs @ ys\<rparr>) = sightings \<sigma>"
    by (simp add: sightings_def s' push_command_def)
  then show ?thesis
    using cache_invD [OF \<sigma>] ob by (simp add: cache_inv_def pin_owners_eq s' push_command_def)
qed

lemma cache_step_inv: "cache_step \<sigma> \<sigma>' \<Longrightarrow> cache_inv seen \<sigma> \<Longrightarrow> cache_inv seen \<sigma>'"
  by (induction rule: cache_step.induct)
    (auto intro: phase1_inv phase2_inv phase2_fails_inv phase3_inv obituary_inv obituary_done_inv
      cache_inv_same drop_same_cache link_same_cache unlink_same_cache extension_same_cache same_cache_counts)

lemma cache_init_inv: "cache_sys_init \<sigma> \<Longrightarrow> cache_inv {} \<sigma>"
  by (simp add: cache_sys_init_def cache_inv_def cache_init_def pin_owners_def sightings_def one_origin_def)

interpretation proxy_cache: inductive_invariant cache_sys_init cache_step "cache_inv {}"
  by unfold_locales (auto intro: cache_init_inv cache_step_inv)

interpretation cache_later: inductive_invariant "\<lambda>\<tau>. \<tau> = \<sigma> \<and> cache_inv {} \<sigma>" cache_step "cache_inv (sightings \<sigma>)" for \<sigma>
  by unfold_locales (auto simp: cache_inv_def [of "{}"] cache_inv_def [of "sightings \<sigma>" \<sigma>] intro: cache_step_inv)

section \<open>Live proxies\<close>

definition strongs :: "bc list \<Rightarrow> u32 \<Rightarrow> int" where
  "strongs cs h = int (count_list cs (BC_ACQUIRE h)) - int (count_list cs (BC_RELEASE h))"

definition proxy_bag :: "(ProxyHandle \<Rightarrow> 'b) \<Rightarrow> cache_state \<Rightarrow> 'b multiset" where
  "proxy_bag f s = mset (map (f \<circ> snd) (proxies s))"

text \<open>A proxy's remembered extension keeps no proxy of the proxy's own handle alive.\<close>

definition no_self_cycle :: "cache_state \<Rightarrow> bool" where
  "no_self_cycle s \<longleftrightarrow>
    (\<forall>a p b. map_of (proxies s) a = Some p \<longrightarrow> extension p = Queried (Some (StrongExt (ExtProxy b))) \<longrightarrow>
       b < next_proxy s \<and> (\<forall>q. map_of (proxies s) b = Some q \<longrightarrow> ph_handle q \<noteq> ph_handle p))"

definition numbered :: "cache_state \<Rightarrow> bool" where
  "numbered s \<longleftrightarrow> distinct (map fst (proxies s)) \<and> (\<forall>a \<in> fst ` set (proxies s). a < next_proxy s)"

definition counted_right :: "cache_state \<Rightarrow> bool" where
  "counted_right s \<longleftrightarrow> PROXY_COUNT (counts s) = of_nat (length (proxies s)) \<and>
    (\<forall>u. get_binder_proxy_count_for_uid u (counts s) = count (proxy_bag (\<lambda>p. (tracked_uid p, counted_by_uid p)) s) (u, True)) \<and>
    False \<notin># proxy_bag count_acquired s"

definition strongs_held :: "cache_state \<Rightarrow> bool" where
  "strongs_held s \<longleftrightarrow> (\<forall>h. strongs (commands s) h \<ge> int (count (proxy_bag ph_handle s) h))"

definition proxies_inv :: "cache_state \<Rightarrow> bool" where
  "proxies_inv s \<longleftrightarrow> numbered s \<and> counted_right s \<and> strongs_held s \<and> no_self_cycle s"

lemma update_bag:
  "map_of al k = Some w \<Longrightarrow> f w = f v \<Longrightarrow> map (f \<circ> snd) (AList.update k v al) = map (f \<circ> snd) al"
  by (induction al) (auto split: if_splits)

lemma update_keys_same: "map_of al k = Some w \<Longrightarrow> map fst (AList.update k v al) = map fst al"
  by (induction al) (auto split: if_splits)

lemma delete_bag:
  "distinct (map fst al) \<Longrightarrow> map_of al k = Some w \<Longrightarrow> mset (map f al) = add_mset (f (k, w)) (mset (map f (AList.delete k al)))"
proof (induction al)
  case (Cons x al)
  then show ?case by (cases x) (auto simp: delete_id dest: map_of_SomeD split: if_splits)
qed simp

lemma strongs_simps [simp]:
  "strongs [] h = 0"
  "strongs (cs @ [BC_ACQUIRE g]) h = strongs cs h + (if g = h then 1 else 0)"
  "strongs (cs @ [BC_RELEASE g]) h = strongs cs h - (if g = h then 1 else 0)"
  "strongs (cs @ [BC_INCREFS g]) h = strongs cs h"
  "strongs (cs @ [BC_DECREFS g]) h = strongs cs h"
  "strongs (cs @ [BC_CLEAR_DEATH_NOTIFICATION g k]) h = strongs cs h"
  "strongs (cs @ [BC_REQUEST_DEATH_NOTIFICATION g k]) h = strongs cs h"
  by (simp_all add: strongs_def)

lemma proxies_inv_frame:
  assumes "proxies_inv s" "proxies s' = proxies s" "next_proxy s' = next_proxy s" "PROXY_COUNT (counts s') = PROXY_COUNT (counts s)"
    "\<And>u. get_binder_proxy_count_for_uid u (counts s') = get_binder_proxy_count_for_uid u (counts s)"
    "\<And>h. strongs (commands s') h \<ge> strongs (commands s) h"
  shows "proxies_inv s'"
proof -
  have "strongs_held s'"
    using assms(1,6) order_trans unfolding proxies_inv_def strongs_held_def proxy_bag_def assms(2) by blast
  then show ?thesis
    using assms(1) by (simp add: proxies_inv_def numbered_def counted_right_def no_self_cycle_def proxy_bag_def assms(2-5))
qed

lemma push_proxies_inv [simp]:
  "proxies_inv s \<Longrightarrow> proxies_inv (push_command (BC_INCREFS h) s)"
  "proxies_inv s \<Longrightarrow> proxies_inv (push_command (BC_DECREFS h) s)"
  "proxies_inv s \<Longrightarrow> proxies_inv (push_command (BC_CLEAR_DEATH_NOTIFICATION h k) s)"
  "proxies_inv s \<Longrightarrow> proxies_inv (push_command (BC_REQUEST_DEATH_NOTIFICATION h k) s)"
  by (auto simp: push_command_def intro: proxies_inv_frame)

lemma other_proxies_inv [simp]:
  "proxies_inv s \<Longrightarrow> proxies_inv (s\<lparr>handle_to_proxy := m\<rparr>)"
  "proxies_inv s \<Longrightarrow> proxies_inv (s\<lparr>notified := n\<rparr>)"
  "proxies_inv s \<Longrightarrow> proxies_inv (s\<lparr>next_generation := g\<rparr>)"
  "proxies_inv s \<Longrightarrow> proxies_inv (s\<lparr>deferral := d\<rparr>)"
  by (auto intro: proxies_inv_frame)

lemma put_proxies_inv:
  assumes s: "proxies_inv s" and p: "map_of (proxies s) arc = Some p"
    and q: "ph_handle q = ph_handle p" "tracked_uid q = tracked_uid p" "counted_by_uid q = counted_by_uid p"
      "count_acquired q = count_acquired p"
    and ext: "extension q = extension p \<or> (\<forall>b. extension q = Queried (Some (StrongExt (ExtProxy b))) \<longrightarrow>
      b < next_proxy s \<and> (\<forall>r. map_of (proxies s) b = Some r \<longrightarrow> ph_handle r \<noteq> ph_handle p))"
  shows "proxies_inv (put_proxy arc q s)"
proof -
  have bag: "proxy_bag f (put_proxy arc q s) = proxy_bag f s" if "f q = f p" for f :: "ProxyHandle \<Rightarrow> 'b"
    using update_bag [OF p, of f q] that by (simp add: proxy_bag_def put_proxy_def)
  have keys: "map fst (AList.update arc q (proxies s)) = map fst (proxies s)" by (rule update_keys_same [OF p])
  have len: "length (AList.update arc q (proxies s)) = length (proxies s)" using arg_cong [OF keys, of length] by simp
  have "numbered (put_proxy arc q s)"
    using s keys unfolding proxies_inv_def numbered_def put_proxy_def by (simp flip: set_map add: keys)
  moreover have "counted_right (put_proxy arc q s)"
    using s len bag [of "\<lambda>p. (tracked_uid p, counted_by_uid p)"] bag [of count_acquired] q
    by (simp add: proxies_inv_def counted_right_def) (simp add: put_proxy_def)
  moreover have "strongs_held (put_proxy arc q s)"
    using s by (simp add: proxies_inv_def strongs_held_def bag [of ph_handle] q(1)) (simp add: put_proxy_def)
  moreover have "no_self_cycle (put_proxy arc q s)"
    using s p ext q(1) unfolding proxies_inv_def no_self_cycle_def put_proxy_def by (simp add: update_conv') metis
  ultimately show ?thesis by (simp add: proxies_inv_def)
qed

lemma drop_proxies_inv:
  assumes s: "proxies_inv s"
  shows "proxies_inv (proxy_drop arc s)"
proof (cases "map_of (proxies s) arc")
  case (Some p)
  define s' where "s' = proxy_drop arc s"
  have dist: "distinct (map fst (proxies s))" using s by (simp add: proxies_inv_def numbered_def)
  have bag: "proxy_bag f s = add_mset (f p) (proxy_bag f s')" for f :: "ProxyHandle \<Rightarrow> 'b"
    using delete_bag [OF dist Some, of "f \<circ> snd"] Some by (simp add: proxy_bag_def s'_def proxy_drop_def push_command_def Let_def)
  have "count_acquired p"
    using s bag [of count_acquired] by (auto simp: proxies_inv_def counted_right_def)
  then have s': "s' = push_command (BC_RELEASE (ph_handle p)) (s\<lparr>proxies := AList.delete arc (proxies s)\<rparr>)
      \<lparr>counts := on_proxy_drop (tracked_uid p) (counted_by_uid p) (counts s)\<rparr>"
    using Some by (simp add: s'_def proxy_drop_def push_command_def)
  have len: "length (proxies s) = Suc (length (AList.delete arc (proxies s)))"
    using arg_cong [OF delete_bag [OF dist Some, of id], of size] by simp
  have "numbered s'"
    using s by (simp add: proxies_inv_def numbered_def s' push_command_def delete_keys distinct_removeAll flip: set_map)
  moreover have "counted_right s'"
    using s bag [of "\<lambda>p. (tracked_uid p, counted_by_uid p)"] bag [of count_acquired] len
    by (simp add: proxies_inv_def counted_right_def) (auto simp: s' push_command_def on_proxy_drop_counts)
  moreover have "strongs_held s'"
    unfolding strongs_held_def
  proof
    fix h
    have "int (count (proxy_bag ph_handle s) h) \<le> strongs (commands s) h"
      using s by (simp add: proxies_inv_def strongs_held_def)
    then show "int (count (proxy_bag ph_handle s') h) \<le> strongs (commands s') h"
      unfolding bag [of ph_handle] by (auto simp: s' push_command_def split: if_splits)
  qed
  moreover have "no_self_cycle s'"
    using s unfolding proxies_inv_def no_self_cycle_def s' push_command_def by (auto simp: delete_conv' split: if_splits)
  ultimately show ?thesis by (simp add: proxies_inv_def s'_def)
qed (simp add: proxy_drop_def s)

lemma acquired_proxies_inv:
  assumes s: "proxies_inv s" and n: "new_acquired E h d stab s = (res, s')"
  shows "proxies_inv s'"
proof (cases "eng_queue E (BC_ACQUIRE h)")
  case (Ok u)
  obtain counted c f where c: "on_proxy_create (eng_uid E) (counts s) (deferral s) = (counted, c, f)" by (metis prod.exhaust)
  have fresh: "map_of (proxies s) (next_proxy s) = None"
    using s by (fastforce simp: proxies_inv_def numbered_def map_of_eq_None_iff)
  have s': "s' = (push_command (BC_ACQUIRE h) s)\<lparr>next_proxy := next_proxy s + 1, proxies := (next_proxy s,
      \<lparr>ph_handle = h, ph_descriptor = d, tracked_uid = eng_uid E, count_acquired = True, counted_by_uid = counted,
       ph_stability = stab, obituary_sent = False, recipients = [], extension = NotQueried\<rparr>) # proxies s, counts := c, deferral := f\<rparr>"
    using n Ok c by (simp add: new_acquired_def push_command_def)
  have "numbered s'"
    using s by (auto simp: proxies_inv_def numbered_def s' push_command_def less_Suc_eq)
  moreover have "counted_right s'"
    using s on_proxy_create_counts [OF c]
    by (auto simp: proxies_inv_def counted_right_def proxy_bag_def s' push_command_def)
  moreover have "strongs_held s'"
    using s by (auto simp: proxies_inv_def strongs_held_def proxy_bag_def s' push_command_def)
  moreover have "no_self_cycle s'"
    using s fresh unfolding proxies_inv_def no_self_cycle_def s' push_command_def by (auto simp: less_Suc_eq split: if_splits)
  ultimately show ?thesis by (simp add: proxies_inv_def)
qed (use s n in \<open>auto simp: new_acquired_def push_command_def intro: proxies_inv_frame\<close>)

lemma commit_proxies_inv: "proxies_inv s \<Longrightarrow> commit_new_acquired E h d g stab own s = (res, s') \<Longrightarrow> proxies_inv s'"
  using acquired_proxies_inv [of s E h d stab]
  by (auto simp: commit_new_acquired_def undo_case_a_pin_def split: prod.splits outcome.splits if_splits)

lemma phase_proxies_inv:
  assumes s: "proxies_inv s"
  shows "slow_path_p1 E h s = (dec, s') \<Longrightarrow> proxies_inv s'"
    and "slow_path_p2 E sdk h plan s = (rd, s') \<Longrightarrow> proxies_inv s'"
    and "slow_path_p3_locked E h stab r s = (res, s') \<Longrightarrow> proxies_inv s'"
    and "slow_path_p3 E h stab r s = (res, s') \<Longrightarrow> proxies_inv s'"
proof -
  show "slow_path_p1 E h s = (dec, s') \<Longrightarrow> proxies_inv s'"
    using s by (cases "eng_queue E (BC_INCREFS h)") (auto simp: slow_path_p1_def split: option.splits outcome.splits)
  show "slow_path_p2 E sdk h plan s = (rd, s') \<Longrightarrow> proxies_inv s'"
    using s by (auto simp: slow_path_p2_def undo_case_a_pin_def split: outcome.splits SlowPathPlan.splits if_splits)
  have locked: "proxies_inv t \<Longrightarrow> slow_path_p3_locked E h stab r t = (res, t') \<Longrightarrow> proxies_inv t'" for t t'
    by (auto simp: slow_path_p3_locked_def undo_case_a_pin_def Let_def dest: commit_proxies_inv [rotated]
        split: option.splits SlowPathReady.splits if_splits)
  show "slow_path_p3_locked E h stab r s = (res, s') \<Longrightarrow> proxies_inv s'" by (rule locked [OF s])
  show "proxies_inv s'" if p3: "slow_path_p3 E h stab r s = (res, s')"
  proof -
    define s0 where "s0 = s\<lparr>deferral := snd (defer_guard_new (deferral s))\<rparr>"
    obtain s1 c d was where l: "slow_path_p3_locked E h stab r s0 = (res, s1)" and s': "s' = s1\<lparr>counts := c, deferral := d\<rparr>"
      and c: "defer_guard_drop was (counts s1) (deferral s1) = (c, d)"
      using p3 by (auto simp: slow_path_p3_def s0_def split: prod.splits)
    have "proxies_inv s1" by (rule locked [OF _ l]) (simp add: s0_def s)
    then show ?thesis unfolding s' by (rule proxies_inv_frame) (use c in \<open>auto simp: defer_guard_drop_def Let_def split: if_splits\<close>)
  qed
qed

lemma obituary_proxies_inv:
  assumes s: "proxies_inv s"
  shows "map_of (proxies s) arc = Some p \<Longrightarrow> send_obituary E alive who arc p s = (res, s') \<Longrightarrow> proxies_inv s'"
    and "release_obituary_pin E h s = (res, s') \<Longrightarrow> proxies_inv s'"
proof -
  show "proxies_inv s'" if p: "map_of (proxies s) arc = Some p" and o: "send_obituary E alive who arc p s = (res, s')"
  proof -
    have "proxies_inv (put_proxy arc (p\<lparr>recipients := [], obituary_sent := True\<rparr>) t)"
      if "proxies_inv t" "proxies t = proxies s" for t
      by (rule put_proxies_inv [OF that(1), where p = p]) (simp_all add: that(2) p)
    then show ?thesis using s o
      by (auto simp: send_obituary_def dispatch_obituary_callbacks_def Let_def push_command_def [THEN arg_cong, of proxies] split: if_splits)
  qed
  show "release_obituary_pin E h s = (res, s') \<Longrightarrow> proxies_inv s'"
    using s by (cases "eng_flush E"; cases "eng_queue E (BC_DECREFS h)") (auto simp: release_obituary_pin_def)
qed

lemma death_link_proxies_inv:
  assumes s: "proxies_inv s" and p: "map_of (proxies s) arc = Some p"
  shows "link_to_death alive r arc p s = (res, s') \<Longrightarrow> proxies_inv s'"
    and "unlink_to_death r arc p s = (res, s') \<Longrightarrow> proxies_inv s'"
proof -
  have put: "proxies_inv (put_proxy arc (p\<lparr>recipients := rs\<rparr>) t)" if "proxies_inv t" "proxies t = proxies s" for t rs
    by (rule put_proxies_inv [OF that(1), where p = p]) (simp_all add: that(2) p)
  then show "link_to_death alive r arc p s = (res, s') \<Longrightarrow> proxies_inv s'"
    using s by (auto simp: link_to_death_def Let_def push_command_def [THEN arg_cong, of proxies] split: if_splits)
  show "unlink_to_death r arc p s = (res, s') \<Longrightarrow> proxies_inv s'"
    using s put by (auto simp: unlink_to_death_def Let_def split: if_splits)
qed

lemma classify_strong:
  "classify_extension p z s = StrongExt (ExtProxy b) \<Longrightarrow>
    z = ExtProxy b \<and> (\<forall>r. map_of (proxies s) b = Some r \<longrightarrow> ph_handle r \<noteq> ph_handle p)"
  by (cases z) (auto simp: classify_extension_def split: option.splits if_splits)

lemma extension_proxies_inv:
  assumes s: "proxies_inv s" and p: "map_of (proxies s) arc = Some p"
    and live: "\<And>a. answer = Ok (Some (Ok (Some (ExtProxy a)))) \<Longrightarrow> upgrade s a"
    and g: "get_extension answer arc p s = (res, s')"
  shows "proxies_inv s'"
proof -
  have "proxies_inv (put_proxy arc (p\<lparr>extension := Queried (map_option (\<lambda>sib. classify_extension p sib s) ext)\<rparr>) s)"
    if q: "query_extension answer p = Ok ext" for ext
  proof (rule put_proxies_inv [OF s p], simp_all, intro disjI2 allI impI)
    fix b assume b: "\<exists>z. ext = Some z \<and> classify_extension p z s = StrongExt (ExtProxy b)"
    then have e: "ext = Some (ExtProxy b)" and h: "\<And>r. map_of (proxies s) b = Some r \<Longrightarrow> ph_handle r \<noteq> ph_handle p"
      using classify_strong by blast+
    have "upgrade s b"
      using q live unfolding e by (auto simp: query_extension_def submit_transact_def split: outcome.splits option.splits StatusCode.splits if_splits)
    then show "b < next_proxy s \<and> (\<forall>r. map_of (proxies s) b = Some r \<longrightarrow> ph_handle r \<noteq> ph_handle p)"
      using s h by (auto simp: proxies_inv_def numbered_def upgrade_def)
  qed
  then show ?thesis
    using s g unfolding get_extension_def Let_def
    by (cases "query_extension answer p")
      (auto split: ExtensionCache.splits option.splits CachedExtension.splits outcome.splits)
qed

lemma cache_step_proxies: "cache_step \<sigma> \<sigma>' \<Longrightarrow> proxies_inv (cache \<sigma>) \<Longrightarrow> proxies_inv (cache \<sigma>')"
proof (induction rule: cache_step.induct)
  case (obituary \<sigma> h E alive res s')
  then show ?case
    by (auto simp: send_obituary_for_handle_def Let_def dest: obituary_proxies_inv(1) [rotated 2] split: option.splits)
next
  case (extended \<sigma> arc p answer res s')
  then show ?case using extension_proxies_inv [of "cache \<sigma>" arc p answer res s'] by simp
qed (auto intro: phase_proxies_inv obituary_proxies_inv drop_proxies_inv death_link_proxies_inv
    simp: pc_setter_defs elim: proxies_inv_frame)

lemma cache_init_proxies: "cache_sys_init \<sigma> \<Longrightarrow> proxies_inv (cache \<sigma>)"
  by (simp add: cache_sys_init_def cache_init_def proxies_inv_def numbered_def counted_right_def strongs_held_def no_self_cycle_def
      proxy_bag_def proxy_counts_new_def get_binder_proxy_count_for_uid_def)

interpretation live_proxies: inductive_invariant cache_sys_init cache_step "\<lambda>\<sigma>. proxies_inv (cache \<sigma>)"
  by unfold_locales (auto intro: cache_init_proxies cache_step_proxies)

lemma p1_needs_ipc: "slow_path_p1 E h s = (Ok dec, s') \<Longrightarrow> cached_live h s = None \<Longrightarrow> \<exists>plan. dec = NeedIpc plan"
  by (auto simp: slow_path_p1_def andThen_Ok_iff split: option.splits outcome.splits)

text \<open>A lookup with no other thread in between is a path of its phases, and so is an obituary.\<close>

lemma lookup_is_a_path:
  assumes \<sigma>: "reach init cache_step \<sigma>" and l: "strong_proxy_for_handle_stability E sdk h stab (cache \<sigma>) = (Ok arc, s')"
  shows "reach init cache_step (\<sigma>\<lparr>cache := s'\<rparr>)"
proof (cases "cached_live h (cache \<sigma>)")
  case None
  obtain dec s0 where "slow_path_p1 E h (cache \<sigma>) = (Ok dec, s0)"
    using None l by (auto simp: strong_proxy_for_handle_stability_def andThen_Ok_iff)
  with p1_needs_ipc [OF this None] obtain plan s1 r s2 where p1: "slow_path_p1 E h (cache \<sigma>) = (Ok (NeedIpc plan), s1)"
    and p2: "slow_path_p2 E sdk h plan s1 = (Ok r, s2)" and p3: "slow_path_p3 E h stab r s2 = (Ok arc, s')"
    using None l by (auto simp: strong_proxy_for_handle_stability_def andThen_Ok_iff)
  define \<sigma>1 where "\<sigma>1 = \<sigma>\<lparr>cache := s1, lookups := (h, Planned plan) # lookups \<sigma>\<rparr>"
  define \<sigma>2 where "\<sigma>2 = \<sigma>1\<lparr>cache := s2, lookups := [] @ (h, Ready r) # lookups \<sigma>\<rparr>"
  have "cache_step \<sigma> \<sigma>1" unfolding \<sigma>1_def by (rule cache_step.phase1 [OF p1])
  moreover have "cache_step \<sigma>1 \<sigma>2"
    unfolding \<sigma>2_def by (rule cache_step.phase2 [where plan = plan]) (use p2 in \<open>simp_all add: \<sigma>1_def\<close>)
  moreover have "cache_step \<sigma>2 (\<sigma>2\<lparr>cache := s', lookups := [] @ lookups \<sigma>\<rparr>)"
    by (rule cache_step.phase3 [where r = r and res = "Ok arc"]) (use p3 in \<open>simp_all add: \<sigma>2_def\<close>)
  moreover have "\<sigma>2\<lparr>cache := s', lookups := [] @ lookups \<sigma>\<rparr> = \<sigma>\<lparr>cache := s'\<rparr>"
    by (cases \<sigma>) (simp add: \<sigma>2_def \<sigma>1_def)
  ultimately show ?thesis using \<sigma> by (metis reach_step)
next
  case (Some a)
  then have "\<sigma>\<lparr>cache := s'\<rparr> = \<sigma>" using l by (cases \<sigma>) (simp add: strong_proxy_for_handle_stability_def)
  then show ?thesis using \<sigma> by simp
qed

lemma obituary_is_a_path:
  assumes \<sigma>: "reach init cache_step \<sigma>" and e: "map_of (handle_to_proxy (cache \<sigma>)) h \<noteq> None" and fl: "eng_flush E = Ok ()"
    and o: "send_obituary_for_handle E alive h (cache \<sigma>) = (res, s1)" and r: "release_obituary_pin E h s1 = (res', s2)"
  shows "reach init cache_step (\<sigma>\<lparr>cache := s2\<rparr>)"
proof -
  define \<sigma>1 where "\<sigma>1 = \<sigma>\<lparr>cache := s1, obituaries := h # obituaries \<sigma>\<rparr>"
  have "cache_step \<sigma> \<sigma>1" unfolding \<sigma>1_def by (rule cache_step.obituary [OF e o])
  moreover have "cache_step \<sigma>1 (\<sigma>1\<lparr>cache := s2, obituaries := [] @ obituaries \<sigma>\<rparr>)"
    by (rule cache_step.obituary_done [where E = E and h = h]) (use fl r in \<open>simp_all add: \<sigma>1_def\<close>)
  moreover have "\<sigma>1\<lparr>cache := s2, obituaries := [] @ obituaries \<sigma>\<rparr> = \<sigma>\<lparr>cache := s2\<rparr>"
    by (cases \<sigma>) (simp add: \<sigma>1_def)
  ultimately show ?thesis using \<sigma> by (metis reach_step)
qed

section \<open>Properties\<close>




subsection \<open>A life of a handle\<close>

text \<open>A lookup, the object's obituary while its proxy is still held, and a lookup that caches the handle
  again.\<close>

definition sample_engine :: engine where
  "sample_engine = \<lparr>eng_queue = (\<lambda>_. Ok ()), eng_flush = Ok (), eng_ping = (\<lambda>_. Ok ()), eng_query = (\<lambda>_. Ok ''IFoo''), eng_uid = 10\<rparr>"

definition sample_proxy :: ProxyHandle where
  "sample_proxy = \<lparr>ph_handle = 1, ph_descriptor = ''IFoo'', tracked_uid = 10, count_acquired = True, counted_by_uid = False,
     ph_stability = Local, obituary_sent = False, recipients = [], extension = NotQueried\<rparr>"

definition sample_first :: cache_state where
  "sample_first = \<lparr>handle_to_proxy = [(1, \<lparr>ce_weak = 0, ce_descriptor = ''IFoo'', ce_generation = 1\<rparr>)], next_generation = 2,
     proxies = [(0, sample_proxy)], next_proxy = 1, commands = [BC_INCREFS 1, BC_ACQUIRE 1], notified = [],
     counts = proxy_counts_new\<lparr>PROXY_COUNT := 1\<rparr>, deferral = no_deferral\<rparr>"

definition sample_dead :: cache_state where
  "sample_dead = sample_first\<lparr>handle_to_proxy := [], proxies := [(0, sample_proxy\<lparr>obituary_sent := True\<rparr>)]\<rparr>"

definition sample_again :: cache_state where
  "sample_again = sample_dead\<lparr>handle_to_proxy := [(1, \<lparr>ce_weak = 1, ce_descriptor = ''IFoo'', ce_generation = 2\<rparr>)],
     next_generation := 3, proxies := (1, sample_proxy) # proxies sample_dead, next_proxy := 2,
     commands := [BC_INCREFS 1, BC_ACQUIRE 1, BC_DECREFS 1, BC_INCREFS 1, BC_ACQUIRE 1], counts := proxy_counts_new\<lparr>PROXY_COUNT := 2\<rparr>\<rparr>"

abbreviation "at_rest s \<equiv> \<lparr>cache = s, lookups = [], obituaries = []\<rparr>"

lemmas sample_cache_defs = sample_engine_def sample_proxy_def sample_first_def sample_dead_def sample_again_def
  strong_proxy_for_handle_stability_def slow_path_p1_def slow_path_p2_def slow_path_p3_def slow_path_p3_locked_def
  commit_new_acquired_def new_acquired_def cached_live_def upgrade_def push_command_def
  defer_guard_new_def defer_guard_drop_def on_proxy_create_def no_deferral_def proxy_counts_new_def

lemma sample_first_reached: "reach cache_sys_init cache_step (at_rest sample_first)"
proof -
  have "reach cache_sys_init cache_step (at_rest cache_init)" by (rule reach_init) (simp add: cache_sys_init_def)
  moreover have "strong_proxy_for_handle_stability sample_engine False 1 Local cache_init = (Ok 0, sample_first)"
    by (simp add: sample_cache_defs cache_init_def Let_def)
  ultimately show ?thesis using lookup_is_a_path [of cache_sys_init "at_rest cache_init"] by fastforce
qed

lemma sample_again_reached:
  assumes first: "reach init cache_step (at_rest sample_first)"
  shows "reach init cache_step (at_rest sample_again)"
proof -
  define s1 where "s1 = push_command (BC_DECREFS 1) sample_dead"
  have "send_obituary_for_handle sample_engine (\<lambda>_. True) 1 sample_first = (Ok (), sample_dead)"
    by (simp add: sample_cache_defs send_obituary_for_handle_def send_obituary_def dispatch_obituary_callbacks_def put_proxy_def
        cache_generation_for_def Let_def)
  moreover have "release_obituary_pin sample_engine 1 sample_dead = (Ok (), s1)"
    by (simp add: sample_cache_defs release_obituary_pin_def s1_def)
  ultimately have "reach init cache_step ((at_rest sample_first)\<lparr>cache := s1\<rparr>)"
    using obituary_is_a_path [OF first, of 1 sample_engine] by (simp add: sample_cache_defs)
  moreover have "strong_proxy_for_handle_stability sample_engine False 1 Local s1 = (Ok 1, sample_again)"
    by (simp add: sample_cache_defs s1_def Let_def)
  ultimately show ?thesis using lookup_is_a_path [of init "(at_rest sample_first)\<lparr>cache := s1\<rparr>"] by fastforce
qed


subsection \<open>Witnesses\<close>



text \<open>The proxy dropped and made anew from its cache entry.\<close>

definition sample_revived :: cache_state where
  "sample_revived = sample_first\<lparr>handle_to_proxy := [(1, \<lparr>ce_weak = 1, ce_descriptor = ''IFoo'', ce_generation = 1\<rparr>)],
     proxies := [(1, sample_proxy)], next_proxy := 2, commands := [BC_INCREFS 1, BC_ACQUIRE 1, BC_RELEASE 1, BC_ACQUIRE 1]\<rparr>"

lemma sample_revived_reached: "reach (\<lambda>t. t = at_rest sample_first) cache_step (at_rest sample_revived)"
proof -
  define s1 where "s1 = proxy_drop 0 sample_first"
  have "cache_step (at_rest sample_first) (at_rest s1)"
    using cache_step.dropped [of "at_rest sample_first" 0] by (simp add: s1_def)
  then have "reach (\<lambda>t. t = at_rest sample_first) cache_step (at_rest s1)"
    by (rule reach_step [rotated]) (simp add: reach_init)
  moreover have "strong_proxy_for_handle_stability sample_engine False 1 Local s1 = (Ok 1, sample_revived)"
    by (simp add: sample_revived_def s1_def proxy_drop_def on_proxy_drop_def sample_cache_defs Let_def)
  ultimately show ?thesis using lookup_is_a_path [of _ "at_rest s1"] by fastforce
qed


text \<open>Without an entry the obituary does nothing, and giving back its pin takes a weak reference nobody
  took for it.\<close>

lemma uncached_obituary_takes_a_pin:
  assumes "map_of (handle_to_proxy s) h = None" "eng_flush E = Ok ()"
  shows "send_obituary_for_handle E alive h s = (Ok (), s\<lparr>handle_to_proxy := AList.delete h (handle_to_proxy s)\<rparr>)"
    and "release_obituary_pin E h s = (res, s') \<Longrightarrow> pins (commands s') h = pins (commands s) h - 1"
  using assms
  by (simp add: send_obituary_for_handle_def cached_live_def)
    (cases "eng_queue E (BC_DECREFS h)"; auto simp: release_obituary_pin_def push_command_def assms)

end
