(* ===== verification/Rpc_Wire.thy ===== *)
theory Rpc_Wire
  imports Rpc_Address Rpc_Stream
begin

text \<open>
  The RPC wire messages and the android-12 codec, \<open>rsbinder/src/rpc/wire.rs\<close>. The trait
  \<open>WireCodec\<close> is the locale \<open>wire_codec\<close>: its laws are what the session relies on whichever codec it
  holds, and \<open>R34Codec\<close> is interpreted here (\<open>Android13PlusCodec\<close> in \<open>Rpc_Wire13\<close>).
\<close>

section \<open>Messages\<close>

record WireTransaction =
  txn_address :: RpcAddress
  txn_code :: u32
  txn_flags :: u32
  async_number :: u64
  txn_data :: "byte list"
  txn_object_positions :: "u32 list"

record WireReply =
  reply_status :: i32
  reply_data :: "byte list"
  reply_object_positions :: "u32 list"

datatype WireMessage = Transact WireTransaction | Reply WireReply | DecStrong RpcAddress u32

definition WIRE_HEADER_LEN :: usize where
  "WIRE_HEADER_LEN = 16"

definition WIRE_TXN_FIXED_LEN :: usize where
  "WIRE_TXN_FIXED_LEN = RPC_ADDR_LEN + 4 + 4 + 8 + 16"

definition CMD_TRANSACT :: u32 where "CMD_TRANSACT = 0"
definition CMD_REPLY :: u32 where "CMD_REPLY = 1"
definition CMD_DEC_STRONG :: u32 where "CMD_DEC_STRONG = 2"

definition wire_header :: "u32 \<Rightarrow> usize \<Rightarrow> byte list rpc_result" where
  "wire_header command body_size =
    (if body_size > MAX_FRAME_LEN then Err (FrameTooLarge body_size MAX_FRAME_LEN)
     else Ok (splice (splice (replicate WIRE_HEADER_LEN 0) 0 (le_bytes command)) 4
       (le_bytes (word_of_nat body_size :: u32))))"

section \<open>Bounds-checked readers\<close>

text \<open>The offsets are constants of the callers, so \<open>off.checked_add\<close> cannot overflow.\<close>

definition rd_u32 :: "byte list \<Rightarrow> usize \<Rightarrow> u32 rpc_result" where
  "rd_u32 buf off =
    (case slice_get buf off (off + 4) of
       None \<Rightarrow> Err (Protocol ''truncated u32'')
     | Some s \<Rightarrow> Ok (of_le_bytes s))"

definition rd_i32 :: "byte list \<Rightarrow> usize \<Rightarrow> i32 rpc_result" where
  "rd_i32 buf off = rd_u32 buf off"

definition rd_u64 :: "byte list \<Rightarrow> usize \<Rightarrow> u64 rpc_result" where
  "rd_u64 buf off =
    (case slice_get buf off (off + 8) of
       None \<Rightarrow> Err (Protocol ''truncated u64'')
     | Some s \<Rightarrow> Ok (of_le_bytes s))"

definition rd_addr :: "byte list \<Rightarrow> usize \<Rightarrow> RpcAddress rpc_result" where
  "rd_addr buf off =
    (case slice_get buf off (off + RPC_ADDR_LEN) of
       None \<Rightarrow> Err (Protocol ''truncated address'')
     | Some s \<Rightarrow> Ok (RpcAddress s))"

section \<open>The android-12 codec\<close>

definition r34_encode_transact :: "WireTransaction \<Rightarrow> byte list rpc_result" where
  "r34_encode_transact txn =
    (if txn_object_positions txn \<noteq> []
     then Err (Protocol ''r34 wire has no object table (object_positions must be empty)'')
     else bind_out (wire_header CMD_TRANSACT (WIRE_TXN_FIXED_LEN + length (txn_data txn))) (\<lambda>h.
       Ok (h @ as_wire_bytes (txn_address txn) @ le_bytes (txn_code txn) @ le_bytes (txn_flags txn) @
           le_bytes (async_number txn) @ replicate 16 0 @ txn_data txn)))"

definition r34_encode_reply :: "WireReply \<Rightarrow> byte list rpc_result" where
  "r34_encode_reply reply =
    (if reply_object_positions reply \<noteq> []
     then Err (Protocol ''r34 wire has no object table (object_positions must be empty)'')
     else bind_out (wire_header CMD_REPLY (4 + length (reply_data reply))) (\<lambda>h.
       Ok (h @ le_bytes (reply_status reply) @ reply_data reply)))"

text \<open>\<open>expect\<close> on the header panics if the constant length were over the bound.\<close>

definition r34_encode_dec_strong :: "RpcAddress \<Rightarrow> byte list rpc_result" where
  "r34_encode_dec_strong addr =
    (case wire_header CMD_DEC_STRONG RPC_ADDR_LEN of
       Ok h \<Rightarrow> Ok (h @ as_wire_bytes addr)
     | _ \<Rightarrow> Panic)"

definition r34_decode_body :: "u32 \<Rightarrow> byte list \<Rightarrow> WireMessage rpc_result" where
  "r34_decode_body command body =
    (if command = CMD_TRANSACT then
       if length body < WIRE_TXN_FIXED_LEN then Err (Protocol ''RpcWireTransaction truncated'')
       else bind_out (rd_addr body 0) (\<lambda>address.
         bind_out (rd_u32 body RPC_ADDR_LEN) (\<lambda>code.
         bind_out (rd_u32 body (RPC_ADDR_LEN + 4)) (\<lambda>flags.
         bind_out (rd_u64 body (RPC_ADDR_LEN + 8)) (\<lambda>n.
         bind_out (slice_index body WIRE_TXN_FIXED_LEN (length body)) (\<lambda>data.
           Ok (Transact \<lparr>txn_address = address, txn_code = code, txn_flags = flags,
                async_number = n, txn_data = data, txn_object_positions = []\<rparr>))))))
     else if command = CMD_REPLY then
       if length body < 4 then Err (Protocol ''RpcWireReply truncated'')
       else bind_out (rd_i32 body 0) (\<lambda>status.
         bind_out (slice_index body 4 (length body)) (\<lambda>data.
           Ok (Reply \<lparr>reply_status = status, reply_data = data, reply_object_positions = []\<rparr>)))
     else if command = CMD_DEC_STRONG then
       if length body \<noteq> RPC_ADDR_LEN then Err (Protocol ''DEC_STRONG body != 32 bytes'')
       else bind_out (rd_addr body 0) (\<lambda>a. Ok (DecStrong a 1))
     else Err (Protocol ''unknown RpcWireHeader.command''))"

text \<open>The part of \<open>decode_message\<close> both codecs share: the header and the body it announces.\<close>

definition decode_header :: "byte list \<Rightarrow> (u32 \<times> byte list) rpc_result" where
  "decode_header frame =
    (if length frame < WIRE_HEADER_LEN then Err (Protocol ''frame shorter than RpcWireHeader'')
     else bind_out (rd_u32 frame 0) (\<lambda>command.
       bind_out (rd_u32 frame 4) (\<lambda>sz.
         let body_size = unat sz in
         if body_size > MAX_FRAME_LEN then Err (FrameTooLarge body_size MAX_FRAME_LEN)
         else if length frame \<noteq> WIRE_HEADER_LEN + body_size
         then Err (Protocol ''frame length != header + bodySize'')
         else bind_out (slice_index frame WIRE_HEADER_LEN (length frame)) (\<lambda>body.
           Ok (command, body)))))"

definition r34_decode_message :: "byte list \<Rightarrow> WireMessage rpc_result" where
  "r34_decode_message frame =
    bind_out (decode_header frame) (\<lambda>(command, body). r34_decode_body command body)"

definition r34_encode_session_preamble :: "i32 \<Rightarrow> byte list" where
  "r34_encode_session_preamble session_id = le_bytes session_id"

definition r34_decode_session_preamble :: "byte list \<Rightarrow> i32 rpc_result" where
  "r34_decode_session_preamble buf =
    (if length buf \<noteq> 4 then Err (Protocol ''session preamble must be exactly 4 bytes'')
     else Ok (of_le_bytes buf))"

section \<open>The codec contract\<close>

text \<open>What a session relies on in its codec. \<open>txn_ok\<close>, \<open>reply_ok\<close> and \<open>addr_sendable\<close> say which
  messages the codec can carry; \<open>amount\<close> of a \<open>DEC_STRONG\<close> sent is 1.\<close>

locale wire_codec =
  fixes encode_transact :: "WireTransaction \<Rightarrow> byte list rpc_result"
    and encode_reply :: "WireReply \<Rightarrow> byte list rpc_result"
    and encode_dec_strong :: "RpcAddress \<Rightarrow> byte list rpc_result"
    and decode_message :: "byte list \<Rightarrow> WireMessage rpc_result"
    and txn_ok :: "WireTransaction \<Rightarrow> bool"
    and reply_ok :: "WireReply \<Rightarrow> bool"
    and addr_sendable :: "RpcAddress \<Rightarrow> bool"
  assumes transact_decodes: "txn_ok t \<Longrightarrow>
      \<exists>f. encode_transact t = Ok f \<and> decode_message f = Ok (Transact t)"
    and reply_decodes: "reply_ok r \<Longrightarrow> \<exists>f. encode_reply r = Ok f \<and> decode_message f = Ok (Reply r)"
    and dec_strong_decodes: "addr_sendable a \<Longrightarrow>
      \<exists>f. encode_dec_strong a = Ok f \<and> decode_message f = Ok (DecStrong a 1)"
    and decode_no_panic: "decode_message f \<noteq> Panic"
    and decode_exact_length: "decode_message f = Ok m \<Longrightarrow>
      \<exists>n. rd_u32 f 4 = Ok n \<and> length f = WIRE_HEADER_LEN + unat n \<and> unat n \<le> MAX_FRAME_LEN"
begin

text \<open>One encoder over all messages, and which messages are sendable.\<close>

definition encode :: "WireMessage \<Rightarrow> byte list rpc_result" where
  "encode m = (case m of Transact t \<Rightarrow> encode_transact t | Reply r \<Rightarrow> encode_reply r
     | DecStrong a _ \<Rightarrow> encode_dec_strong a)"

definition sendable :: "WireMessage \<Rightarrow> bool" where
  "sendable m = (case m of Transact t \<Rightarrow> txn_ok t | Reply r \<Rightarrow> reply_ok r
     | DecStrong a n \<Rightarrow> addr_sendable a \<and> n = 1)"

lemma encode_decodes:
  assumes "sendable m"
  shows "\<exists>f. encode m = Ok f \<and> decode_message f = Ok m"
  using assms transact_decodes reply_decodes dec_strong_decodes
  by (cases m) (simp_all add: sendable_def encode_def)

lemma encode_inj:
  assumes "sendable m" "sendable m'" "encode m = encode m'"
  shows "m = m'"
  using encode_decodes [OF assms(1)] encode_decodes [OF assms(2)] assms(3) by auto

text \<open>A sendable message is one whole message of the raw stream: its header announces its length.\<close>

lemma encode_frame_length:
  assumes "sendable m" "encode m = Ok f"
  shows "\<exists>n. rd_u32 f 4 = Ok n \<and> length f = WIRE_HEADER_LEN + unat n \<and> unat n \<le> MAX_FRAME_LEN"
  using encode_decodes [OF assms(1)] assms(2) decode_exact_length by auto

text \<open>Through the length-prefixed transport.\<close>

lemma frame_delivers:
  assumes "sendable m" "encode m = Ok f" "length f \<le> MAX_FRAME_LEN"
    and "list_all clean es" "payload es = framed f @ rest"
  shows "\<exists>es'. andThen (read_frame es) (\<lambda>b e. (decode_message b, e)) = (Ok m, es') \<and>
    list_all clean es' \<and> payload es' = rest"
proof -
  obtain es' where "read_frame es = (Ok f, es')" "list_all clean es'" "payload es' = rest"
    using read_frame_framed [OF assms(4,5,3)] by auto
  with encode_decodes [OF assms(1)] assms(2) show ?thesis by auto
qed

end

section \<open>Reading back what was written\<close>

lemma rd_u32_at: "drop off buf = le_bytes w @ rest \<Longrightarrow> rd_u32 buf off = Ok w"
  and rd_u64_at: "drop off buf = le_bytes v @ rest \<Longrightarrow> rd_u64 buf off = Ok v"
  and rd_addr_at: "drop off buf = as_wire_bytes a @ rest \<Longrightarrow> addr_ok a \<Longrightarrow> rd_addr buf off = Ok a"
proof -
  have len: "off + n \<le> length buf" if "drop off buf = xs @ rest" "length xs = n" "0 < n" for xs :: "byte list" and n
    using arg_cong [where f = length, OF that(1)] that(2,3) by simp
  show "rd_u32 buf off = Ok w" if "drop off buf = le_bytes w @ rest"
    using len [OF that] that by (simp add: rd_u32_def slice_get_def)
  show "rd_u64 buf off = Ok v" if "drop off buf = le_bytes v @ rest"
    using len [OF that] that by (simp add: rd_u64_def slice_get_def)
  show "rd_addr buf off = Ok a" if "drop off buf = as_wire_bytes a @ rest" "addr_ok a"
  proof -
    have l: "length (as_wire_bytes a) = 32" using that(2) by (simp add: addr_ok_def RPC_ADDR_LEN_def)
    from len [OF that(1) this] that(1) l show ?thesis
      by (simp add: rd_addr_def slice_get_def RPC_ADDR_LEN_def)
  qed
qed

lemma rd_no_panic [simp]:
  "rd_u32 b i \<noteq> Panic" "rd_u64 b i \<noteq> Panic" "rd_addr b i \<noteq> Panic" "rd_i32 b i \<noteq> Panic"
  by (auto simp: rd_u32_def rd_u64_def rd_addr_def rd_i32_def split: option.splits)

lemma bind_out_Panic_iff: "bind_out r f = Panic \<longleftrightarrow> r = Panic \<or> (\<exists>a. r = Ok a \<and> f a = Panic)"
  by (cases r) auto

lemma slice_index_tail [simp]:
  "m = length xs \<Longrightarrow> n \<le> m \<Longrightarrow> slice_index xs n m = Ok (drop n xs)"
  by (simp add: slice_index_def slice_get_def)

lemma wire_header_bytes:
  "n \<le> MAX_FRAME_LEN \<Longrightarrow>
    wire_header c n = Ok (le_bytes c @ le_bytes (word_of_nat n :: u32) @ replicate 8 0)"
proof -
  have "replicate WIRE_HEADER_LEN (0 :: byte) = replicate 4 0 @ replicate 4 0 @ replicate 8 0"
    by (simp add: WIRE_HEADER_LEN_def flip: replicate_add)
  moreover assume "n \<le> MAX_FRAME_LEN"
  ultimately show ?thesis by (simp add: wire_header_def splice_def)
qed

lemma decode_header_encoded:
  assumes "length body \<le> MAX_FRAME_LEN"
  shows "decode_header (le_bytes c @ le_bytes (word_of_nat (length body) :: u32) @ replicate 8 0 @ body) =
    Ok (c, body)"
proof -
  let ?f = "le_bytes c @ le_bytes (word_of_nat (length body) :: u32) @ replicate 8 0 @ body"
  have "rd_u32 ?f 0 = Ok c" by (rule rd_u32_at) simp
  moreover have "rd_u32 ?f 4 = Ok (word_of_nat (length body))" by (rule rd_u32_at) simp
  ultimately show ?thesis
    using assms unat_frame_len [OF assms]
    by (simp add: decode_header_def WIRE_HEADER_LEN_def slice_index_def slice_get_def)
qed

lemma decode_header_no_panic: "decode_header f \<noteq> Panic"
  by (simp add: decode_header_def Let_def bind_out_Panic_iff)

lemma decode_header_Ok:
  assumes "decode_header f = Ok (c, b)"
  shows "\<exists>n. rd_u32 f 4 = Ok n \<and> length f = WIRE_HEADER_LEN + unat n \<and> unat n \<le> MAX_FRAME_LEN"
  using assms by (auto simp: decode_header_def Let_def bind_out_Ok_iff split: if_splits)

section \<open>The android-12 codec meets the contract\<close>

definition r34_txn_ok :: "WireTransaction \<Rightarrow> bool" where
  "r34_txn_ok t \<longleftrightarrow> addr_ok (txn_address t) \<and> txn_object_positions t = [] \<and>
    WIRE_TXN_FIXED_LEN + length (txn_data t) \<le> MAX_FRAME_LEN"

definition r34_reply_ok :: "WireReply \<Rightarrow> bool" where
  "r34_reply_ok r \<longleftrightarrow> reply_object_positions r = [] \<and> 4 + length (reply_data r) \<le> MAX_FRAME_LEN"

lemma r34_transact:
  assumes "r34_txn_ok t"
  shows "\<exists>f. r34_encode_transact t = Ok f \<and> r34_decode_message f = Ok (Transact t)"
proof -
  define body where "body = as_wire_bytes (txn_address t) @ le_bytes (txn_code t) @
    le_bytes (txn_flags t) @ le_bytes (async_number t) @ replicate 16 0 @ txn_data t"
  have a: "addr_ok (txn_address t)" and n: "WIRE_TXN_FIXED_LEN + length (txn_data t) \<le> MAX_FRAME_LEN"
    using assms by (auto simp: r34_txn_ok_def)
  have la: "length (as_wire_bytes (txn_address t)) = 32"
    using a by (simp add: addr_ok_def RPC_ADDR_LEN_def)
  have len: "length body = WIRE_TXN_FIXED_LEN + length (txn_data t)"
    by (simp add: body_def la WIRE_TXN_FIXED_LEN_def RPC_ADDR_LEN_def)
  have rd: "rd_addr body 0 = Ok (txn_address t)" "rd_u32 body 32 = Ok (txn_code t)"
    "rd_u32 body 36 = Ok (txn_flags t)" "rd_u64 body 40 = Ok (async_number t)"
    by (rule rd_addr_at rd_u32_at rd_u64_at, simp add: body_def la a, simp add: a)
      (rule rd_u32_at rd_u64_at, simp add: body_def la)+
  have data: "drop WIRE_TXN_FIXED_LEN body = txn_data t"
    by (simp add: body_def la WIRE_TXN_FIXED_LEN_def RPC_ADDR_LEN_def)
  have "\<lparr>txn_address = txn_address t, txn_code = txn_code t, txn_flags = txn_flags t,
      async_number = async_number t, txn_data = txn_data t, txn_object_positions = []\<rparr> = t"
    using assms by (cases t) (simp add: r34_txn_ok_def)
  then have "r34_decode_body CMD_TRANSACT body = Ok (Transact t)"
    using rd data len by (simp add: r34_decode_body_def RPC_ADDR_LEN_def)
  moreover have "r34_encode_transact t =
      Ok (le_bytes CMD_TRANSACT @ le_bytes (word_of_nat (length body) :: u32) @ replicate 8 0 @ body)"
    using assms n by (simp add: r34_encode_transact_def r34_txn_ok_def wire_header_bytes len [symmetric])
      (simp add: body_def)
  ultimately show ?thesis
    using decode_header_encoded [of body] n unfolding len [symmetric] by (simp add: r34_decode_message_def)
qed

lemma r34_reply:
  assumes "r34_reply_ok r"
  shows "\<exists>f. r34_encode_reply r = Ok f \<and> r34_decode_message f = Ok (Reply r)"
proof -
  define body where "body = le_bytes (reply_status r) @ reply_data r"
  have len: "length body = 4 + length (reply_data r)" by (simp add: body_def)
  have rd: "rd_u32 body 0 = Ok (reply_status r)" and data: "drop 4 body = reply_data r"
    by (rule rd_u32_at) (simp_all add: body_def)
  have "\<lparr>reply_status = reply_status r, reply_data = reply_data r, reply_object_positions = []\<rparr> = r"
    using assms by (cases r) (simp add: r34_reply_ok_def)
  then have "r34_decode_body CMD_REPLY body = Ok (Reply r)"
    using rd data len by (simp add: r34_decode_body_def rd_i32_def CMD_REPLY_def CMD_TRANSACT_def)
  then show ?thesis
    using assms decode_header_encoded [of body CMD_REPLY]
    by (simp add: r34_encode_reply_def r34_reply_ok_def wire_header_bytes r34_decode_message_def len)
      (simp add: body_def)
qed

lemma r34_dec_strong:
  assumes "addr_ok a"
  shows "\<exists>f. r34_encode_dec_strong a = Ok f \<and> r34_decode_message f = Ok (DecStrong a 1)"
proof -
  have len: "length (as_wire_bytes a) = RPC_ADDR_LEN" using assms by (simp add: addr_ok_def)
  have le: "RPC_ADDR_LEN \<le> MAX_FRAME_LEN" by (simp add: RPC_ADDR_LEN_def MAX_FRAME_LEN_def)
  have "rd_addr (as_wire_bytes a) 0 = Ok a" using assms by (intro rd_addr_at) simp_all
  then have "r34_decode_body CMD_DEC_STRONG (as_wire_bytes a) = Ok (DecStrong a 1)"
    using len by (simp add: r34_decode_body_def CMD_DEC_STRONG_def CMD_REPLY_def CMD_TRANSACT_def)
  then show ?thesis
    using le len decode_header_encoded [of "as_wire_bytes a" CMD_DEC_STRONG]
    by (simp add: r34_encode_dec_strong_def wire_header_bytes r34_decode_message_def)
qed

lemma r34_decode_no_panic: "r34_decode_message f \<noteq> Panic"
  by (auto simp: r34_decode_message_def r34_decode_body_def decode_header_no_panic bind_out_Panic_iff)

interpretation r34: wire_codec r34_encode_transact r34_encode_reply r34_encode_dec_strong
    r34_decode_message r34_txn_ok r34_reply_ok addr_ok
proof unfold_locales
  fix f m
  assume "r34_decode_message f = Ok m"
  then show "\<exists>n. rd_u32 f 4 = Ok n \<and> length f = WIRE_HEADER_LEN + unat n \<and> unat n \<le> MAX_FRAME_LEN"
    by (auto simp: r34_decode_message_def bind_out_Ok_iff dest: decode_header_Ok)
qed (auto intro: r34_transact r34_reply r34_dec_strong simp: r34_decode_no_panic)

section \<open>Properties\<close>

text \<open>All three encoders of the codec as one, and the messages it can carry.\<close>

fun r34_encode :: "WireMessage \<Rightarrow> byte list rpc_result" where
  "r34_encode (Transact t) = r34_encode_transact t"
| "r34_encode (Reply r) = r34_encode_reply r"
| "r34_encode (DecStrong a n) = r34_encode_dec_strong a"

fun r34_sendable :: "WireMessage \<Rightarrow> bool" where
  "r34_sendable (Transact t) = r34_txn_ok t"
| "r34_sendable (Reply r) = r34_reply_ok r"
| "r34_sendable (DecStrong a n) = (addr_ok a \<and> n = 1)"

lemma r34_encode_eq: "r34.encode m = r34_encode m" and r34_sendable_eq: "r34.sendable m = r34_sendable m"
  by (cases m; simp add: r34.encode_def r34.sendable_def)+

text \<open>C38: Messages of the android-12 wire arrive as they were sent. A sendable message is encoded
  (never an error) and its frame, read from a stream that cuts it anywhere, decodes to the same message
  and leaves the reader at the next one; two sendable messages with the same encoding are the same
  message, so a transaction is never taken for a reply or a reference drop.\<close>

theorem r34_message_delivery:
  assumes "r34_sendable m"
  shows "\<exists>f. r34_encode m = Ok f \<and> (\<forall>m'. r34_sendable m' \<and> r34_encode m' = Ok f \<longrightarrow> m' = m) \<and>
    (length f \<le> MAX_FRAME_LEN \<and> list_all clean es \<and> payload es = framed f @ rest \<longrightarrow>
     (\<exists>es'. andThen (read_frame es) (\<lambda>b e. (r34_decode_message b, e)) = (Ok m, es') \<and>
       list_all clean es' \<and> payload es' = rest))"
proof -
  have m: "r34.sendable m" using assms by (simp add: r34_sendable_eq)
  then obtain f where f: "r34_encode m = Ok f" using r34.encode_decodes by (auto simp: r34_encode_eq)
  then show ?thesis
    using r34.frame_delivers [OF m, of f es rest] r34.encode_inj [OF m]
    by (auto simp: r34_encode_eq r34_sendable_eq)
qed

lemma reserved_words: "replicate 8 0 = [0, 0, 0, 0, 0, 0, 0, 0]"
  by (simp add: eval_nat_numeral)

definition demo_reply :: WireReply where
  "demo_reply = \<lparr>reply_status = 0, reply_data = [5], reply_object_positions = []\<rparr>"

theorem r34_message_delivery_witness:
  "\<exists>es'. andThen (read_frame [Chunk [21, 0, 0], Chunk [0, 1, 0, 0, 0, 5, 0, 0, 0, 0, 0],
        Chunk [0, 0, 0, 0, 0, 0, 0, 0, 0, 0, 5]]) (\<lambda>b e. (r34_decode_message b, e)) =
      (Ok (Reply demo_reply), es') \<and> list_all clean es' \<and> payload es' = []"
  using r34_message_delivery [of "Reply demo_reply" "[Chunk [21, 0, 0], Chunk [0, 1, 0, 0, 0, 5, 0, 0, 0, 0, 0],
        Chunk [0, 0, 0, 0, 0, 0, 0, 0, 0, 0, 5]]" "[]"]
  by (simp add: demo_reply_def r34_reply_ok_def r34_encode_reply_def wire_header_bytes MAX_FRAME_LEN_def
      le_bytes_u32_bytes CMD_REPLY_def framed_def reserved_words)

end
