(* ===== verification/Rpc_Wire13.thy ===== *)
theory Rpc_Wire13
  imports Rpc_Wire
begin

text \<open>
  The versioned android-13+ wire, \<open>rsbinder/src/rpc/wire_android13.rs\<close>: the 8-byte wire address, the
  handshake structures, the codec with its trailing object table, and the raw message framing. The
  codec's version is 0, 1, 2 or the experimental sentinel; every version is an instance of the locale
  \<open>wire_codec\<close>.
\<close>

section \<open>Constants and versions\<close>

definition A13_ADDR_LEN :: usize where "A13_ADDR_LEN = 8"
definition A13_TXN_FIXED_LEN :: usize where "A13_TXN_FIXED_LEN = A13_ADDR_LEN + 4 + 4 + 8 + 16"
definition A13_DEC_STRONG_LEN :: usize where "A13_DEC_STRONG_LEN = A13_ADDR_LEN + 4 + 4"
definition A13_CONN_HEADER_LEN :: usize where "A13_CONN_HEADER_LEN = 16"
definition A13_NEW_SESSION_RESP_LEN :: usize where "A13_NEW_SESSION_RESP_LEN = 8"
definition A13_CONN_INIT_LEN :: usize where "A13_CONN_INIT_LEN = 8"

definition ADDR_OPTION_CREATED :: u32 where "ADDR_OPTION_CREATED = 1"
definition ADDR_OPTION_FOR_SERVER :: u32 where "ADDR_OPTION_FOR_SERVER = 2"
definition CONN_OPTION_INCOMING :: byte where "CONN_OPTION_INCOMING = 1"
definition CONN_INIT_OKAY :: "byte list" where "CONN_INIT_OKAY = [99, 99, 105, 0]"

definition PROTOCOL_V0 :: u32 where "PROTOCOL_V0 = 0"
definition PROTOCOL_V1 :: u32 where "PROTOCOL_V1 = 1"
definition PROTOCOL_V2 :: u32 where "PROTOCOL_V2 = 2"
definition SUPPORTED_MAX_VERSION :: u32 where "SUPPORTED_MAX_VERSION = PROTOCOL_V2"
definition RPC_WIRE_PROTOCOL_VERSION_NEXT :: u32 where "RPC_WIRE_PROTOCOL_VERSION_NEXT = 3"
definition RPC_WIRE_PROTOCOL_VERSION_EXPERIMENTAL :: u32 where
  "RPC_WIRE_PROTOCOL_VERSION_EXPERIMENTAL = 0xF0000000"

definition FD_MODE_NONE :: byte where "FD_MODE_NONE = 0"
definition FD_MODE_UNIX :: byte where "FD_MODE_UNIX = 1"
definition FD_MODE_TRUSTY :: byte where "FD_MODE_TRUSTY = 2"

lemmas version_defs = PROTOCOL_V0_def PROTOCOL_V1_def PROTOCOL_V2_def SUPPORTED_MAX_VERSION_def
  RPC_WIRE_PROTOCOL_VERSION_NEXT_def RPC_WIRE_PROTOCOL_VERSION_EXPERIMENTAL_def

definition is_supported_protocol_version :: "u32 \<Rightarrow> bool" where
  "is_supported_protocol_version version \<longleftrightarrow>
    version \<le> SUPPORTED_MAX_VERSION \<or> version = RPC_WIRE_PROTOCOL_VERSION_EXPERIMENTAL"

definition reply_fixed_len :: "u32 \<Rightarrow> usize" where
  "reply_fixed_len version = (if version = PROTOCOL_V0 then 4 else 20)"

definition has_object_table :: "u32 \<Rightarrow> bool" where
  "has_object_table version \<longleftrightarrow> version \<ge> PROTOCOL_V1"

record Android13PlusCodec =
  codec_version :: u32

definition android13 :: Android13PlusCodec where "android13 = \<lparr>codec_version = PROTOCOL_V0\<rparr>"
definition android14_15 :: Android13PlusCodec where "android14_15 = \<lparr>codec_version = PROTOCOL_V1\<rparr>"
definition android16 :: Android13PlusCodec where "android16 = \<lparr>codec_version = PROTOCOL_V2\<rparr>"

definition with_version :: "u32 \<Rightarrow> Android13PlusCodec rpc_result" where
  "with_version version =
    (if \<not> is_supported_protocol_version version
     then Err (Protocol ''unsupported RPC wire protocol version'')
     else Ok \<lparr>codec_version = version\<rparr>)"

section \<open>Wire addresses\<close>

definition encode_addr :: "RpcAddress \<Rightarrow> byte list" where
  "encode_addr addr =
    (if is_zero addr then replicate A13_ADDR_LEN 0
     else
       let raw = as_wire_bytes addr;
           address = of_le_bytes [raw ! 0, raw ! 1, raw ! 2, raw ! 3] :: u32;
           options = (if raw ! 8 = 2 then ADDR_OPTION_CREATED OR ADDR_OPTION_FOR_SERVER
                      else ADDR_OPTION_CREATED)
       in le_bytes options @ le_bytes address)"

definition decode_addr :: "byte list \<Rightarrow> usize \<Rightarrow> RpcAddress rpc_result" where
  "decode_addr buf off =
    bind_out (rd_u32 buf off) (\<lambda>options.
    bind_out (rd_u32 buf (off + 4)) (\<lambda>address.
      if options AND ADDR_OPTION_CREATED = 0 \<and> address = 0 then Ok addr_zero
      else Ok (RpcAddress ((splice (replicate RPC_ADDR_LEN 0) 0 (le_bytes address))
        [8 := (if options AND ADDR_OPTION_FOR_SERVER \<noteq> 0 then 2 else 1)]))))"

section \<open>Handshake structures\<close>

definition encode_connection_header ::
    "Android13PlusCodec \<Rightarrow> bool \<Rightarrow> byte \<Rightarrow> byte list \<Rightarrow> byte list rpc_result" where
  "encode_connection_header c incoming fd_mode session_id =
    (if length session_id > 65535 then Err (Protocol ''session_id length exceeds u16'')
     else Ok (le_bytes (codec_version c) @ [if incoming then CONN_OPTION_INCOMING else 0] @
       (if codec_version c = PROTOCOL_V0 then replicate 9 0 else fd_mode # replicate 8 0) @
       le_bytes (word_of_nat (length session_id) :: u16) @ session_id))"

definition fd_mode_known :: "byte \<Rightarrow> bool" where
  "fd_mode_known m \<longleftrightarrow> m = FD_MODE_NONE \<or> m = FD_MODE_UNIX \<or> m = FD_MODE_TRUSTY"

definition decode_connection_header ::
    "Android13PlusCodec \<Rightarrow> byte list \<Rightarrow> (u32 \<times> byte \<times> byte \<times> byte list) rpc_result" where
  "decode_connection_header c buf =
    (if length buf < A13_CONN_HEADER_LEN then Err (Protocol ''RpcConnectionHeader truncated'')
     else bind_out (rd_u32 buf 0) (\<lambda>version.
       let options = buf ! 4;
           fd_mode = (if version = PROTOCOL_V0 then 0 else buf ! 5)
       in if \<not> fd_mode_known fd_mode
          then Err (Protocol ''unknown RpcConnectionHeader.fileDescriptorTransportMode'')
          else
            let id_size = unat (of_le_bytes [buf ! 14, buf ! 15] :: u16) in
            case slice_get buf A13_CONN_HEADER_LEN (A13_CONN_HEADER_LEN + id_size) of
              None \<Rightarrow> Err (Protocol ''session id truncated'')
            | Some session_id \<Rightarrow>
                if length buf \<noteq> A13_CONN_HEADER_LEN + id_size
                then Err (Protocol ''RpcConnectionHeader length mismatch'')
                else Ok (version, options, fd_mode, session_id)))"

definition encode_new_session_response :: "u32 \<Rightarrow> byte list" where
  "encode_new_session_response version =
    splice (replicate A13_NEW_SESSION_RESP_LEN 0) 0 (le_bytes version)"

definition decode_new_session_response :: "byte list \<Rightarrow> u32 rpc_result" where
  "decode_new_session_response buf =
    (if length buf < A13_NEW_SESSION_RESP_LEN then Err (Protocol ''RpcNewSessionResponse truncated'')
     else bind_out (rd_u32 buf 0) (\<lambda>version.
       if \<not> is_supported_protocol_version version
       then Err (Protocol ''unsupported RPC wire protocol version'') else Ok version))"

definition encode_connection_init :: "byte list" where
  "encode_connection_init = splice (replicate A13_CONN_INIT_LEN 0) 0 CONN_INIT_OKAY"

definition decode_connection_init :: "byte list \<Rightarrow> unit rpc_result" where
  "decode_connection_init buf =
    (if length buf < A13_CONN_INIT_LEN then Err (Protocol ''RpcOutgoingConnectionInit truncated'')
     else if take 4 buf \<noteq> CONN_INIT_OKAY then Err (Protocol ''bad RpcOutgoingConnectionInit msg'')
     else Ok ())"

section \<open>The codec\<close>

definition encode_data_and_table ::
    "byte list \<Rightarrow> u32 \<Rightarrow> byte list \<Rightarrow> u32 list \<Rightarrow> byte list rpc_result" where
  "encode_data_and_table out version data positions =
    (if \<not> has_object_table version then
       if positions \<noteq> []
       then Err (Protocol ''v0 wire has no object table (objects need protocol version >= 1)'')
       else Ok (out @ data)
     else Ok (out @ data @ concat (map le_bytes positions)))"

definition split_data_and_table ::
    "u32 \<Rightarrow> byte list \<Rightarrow> usize \<Rightarrow> (byte list \<times> u32 list) rpc_result" where
  "split_data_and_table version rest parcel_data_size =
    (if \<not> has_object_table version then Ok (rest, [])
     else if parcel_data_size > length rest
     then Err (Protocol ''parcelDataSize larger than available bytes'')
     else
       let data = take parcel_data_size rest; table_bytes = drop parcel_data_size rest in
       if length table_bytes mod 4 \<noteq> 0
       then Err (Protocol ''object table byte size not a multiple of 4'')
       else Ok (data, map of_le_bytes (chunks_exact 4 table_bytes)))"

definition a13_encode_transact :: "Android13PlusCodec \<Rightarrow> WireTransaction \<Rightarrow> byte list rpc_result" where
  "a13_encode_transact c txn =
    (let version = codec_version c;
         table_bytes = (if has_object_table version then 4 * length (txn_object_positions txn) else 0);
         body_len = A13_TXN_FIXED_LEN + length (txn_data txn) + table_bytes;
         parcel_size = (if version = PROTOCOL_V0 then 0 else word_of_nat (length (txn_data txn)) :: u32)
     in bind_out (wire_header CMD_TRANSACT body_len) (\<lambda>header.
       encode_data_and_table
         (header @ encode_addr (txn_address txn) @ le_bytes (txn_code txn) @ le_bytes (txn_flags txn) @
          le_bytes (async_number txn) @ le_bytes parcel_size @ replicate 12 0)
         version (txn_data txn) (txn_object_positions txn)))"

definition a13_encode_reply :: "Android13PlusCodec \<Rightarrow> WireReply \<Rightarrow> byte list rpc_result" where
  "a13_encode_reply c reply =
    (let version = codec_version c;
         table_bytes = (if has_object_table version then 4 * length (reply_object_positions reply) else 0);
         body_len = reply_fixed_len version + length (reply_data reply) + table_bytes
     in bind_out (wire_header CMD_REPLY body_len) (\<lambda>header.
       encode_data_and_table
         (header @ le_bytes (reply_status reply) @
          (if version \<noteq> PROTOCOL_V0
           then le_bytes (word_of_nat (length (reply_data reply)) :: u32) @ replicate 12 0 else []))
         version (reply_data reply) (reply_object_positions reply)))"

definition a13_encode_dec_strong :: "Android13PlusCodec \<Rightarrow> RpcAddress \<Rightarrow> byte list rpc_result" where
  "a13_encode_dec_strong c addr =
    (case wire_header CMD_DEC_STRONG A13_DEC_STRONG_LEN of
       Ok header \<Rightarrow> Ok (header @ encode_addr addr @ le_bytes (1 :: u32) @ le_bytes (0 :: u32))
     | _ \<Rightarrow> Panic)"

definition a13_decode_body :: "Android13PlusCodec \<Rightarrow> u32 \<Rightarrow> byte list \<Rightarrow> WireMessage rpc_result" where
  "a13_decode_body c command body =
    (if command = CMD_TRANSACT then
       if length body < A13_TXN_FIXED_LEN then Err (Protocol ''RpcWireTransaction truncated'')
       else bind_out (decode_addr body 0) (\<lambda>address.
         bind_out (rd_u32 body A13_ADDR_LEN) (\<lambda>code.
         bind_out (rd_u32 body (A13_ADDR_LEN + 4)) (\<lambda>flags.
         bind_out (rd_u64 body (A13_ADDR_LEN + 8)) (\<lambda>n.
         bind_out (rd_u32 body (A13_ADDR_LEN + 16)) (\<lambda>parcel_data_size.
         bind_out (slice_index body A13_TXN_FIXED_LEN (length body)) (\<lambda>rest.
         bind_out (split_data_and_table (codec_version c) rest (unat parcel_data_size))
           (\<lambda>(data, object_positions).
             Ok (Transact \<lparr>txn_address = address, txn_code = code, txn_flags = flags,
               async_number = n, txn_data = data, txn_object_positions = object_positions\<rparr>))))))))
     else if command = CMD_REPLY then
       let fixed = reply_fixed_len (codec_version c) in
       if length body < fixed then Err (Protocol ''RpcWireReply truncated'')
       else bind_out (rd_u32 body 0) (\<lambda>status.
         bind_out (if has_object_table (codec_version c) then rd_u32 body 4 else Ok 0) (\<lambda>parcel_data_size.
         bind_out (slice_index body fixed (length body)) (\<lambda>rest.
         bind_out (split_data_and_table (codec_version c) rest (unat parcel_data_size))
           (\<lambda>(data, object_positions).
             Ok (Reply \<lparr>reply_status = status, reply_data = data,
               reply_object_positions = object_positions\<rparr>)))))
     else if command = CMD_DEC_STRONG then
       if length body \<noteq> A13_DEC_STRONG_LEN then Err (Protocol ''RpcDecStrong body != 16 bytes'')
       else bind_out (decode_addr body 0) (\<lambda>address.
         bind_out (rd_u32 body A13_ADDR_LEN) (\<lambda>amount. Ok (DecStrong address amount)))
     else Err (Protocol ''unknown RpcWireHeader.command''))"

definition a13_decode_message :: "Android13PlusCodec \<Rightarrow> byte list \<Rightarrow> WireMessage rpc_result" where
  "a13_decode_message c frame =
    bind_out (decode_header frame) (\<lambda>(command, body). a13_decode_body c command body)"

definition a13_encode_session_preamble :: "Android13PlusCodec \<Rightarrow> i32 \<Rightarrow> byte list rpc_result" where
  "a13_encode_session_preamble c session_id =
    (case encode_connection_header c False FD_MODE_NONE [] of Ok h \<Rightarrow> Ok h | _ \<Rightarrow> Panic)"

definition a13_decode_session_preamble :: "byte list \<Rightarrow> i32 rpc_result" where
  "a13_decode_session_preamble buf = decode_new_session_response buf"

section \<open>Wire addresses round trip\<close>

text \<open>The addresses the 8-byte form can carry: zero, and those whose counter fits 32 bits.\<close>

definition a13_addr_ok :: "RpcAddress \<Rightarrow> bool" where
  "a13_addr_ok a \<longleftrightarrow> is_zero a \<or>
    (let raw = as_wire_bytes a in
     length raw = RPC_ADDR_LEN \<and> take 4 (drop 4 raw) = replicate 4 0 \<and>
     (raw ! 8 = 1 \<or> raw ! 8 = 2) \<and> drop 9 raw = replicate 23 0)"

lemma a13_addr_bytes:
  assumes "a13_addr_ok a" "\<not> is_zero a"
  shows "\<exists>w :: u32. \<exists>t. as_wire_bytes a = le_bytes w @ replicate 4 0 @ t # replicate 23 0 \<and> (t = 1 \<or> t = 2)"
proof -
  define raw where "raw = as_wire_bytes a"
  have raw: "length raw = 32" "take 4 (drop 4 raw) = replicate 4 0" "raw ! 8 = 1 \<or> raw ! 8 = 2"
    "drop 9 raw = replicate 23 0"
    using assms by (simp_all add: a13_addr_ok_def raw_def Let_def RPC_ADDR_LEN_def)
  have "raw = take 4 raw @ drop 4 raw" by simp
  also have "drop 4 raw = take 4 (drop 4 raw) @ drop 8 raw"
    by (metis append_take_drop_id drop_drop add.commute numeral_Bit0)
  also have "drop 8 raw = raw ! 8 # drop 9 raw"
    using raw(1) by (simp add: Cons_nth_drop_Suc [symmetric])
  also have "take 4 raw = le_bytes (of_le_bytes (take 4 raw) :: u32)"
    using raw(1) by (intro le_bytes_of_le_bytes [symmetric]) simp
  finally show ?thesis unfolding raw(2,4) raw_def [symmetric] using raw(3) by blast
qed

lemma encode_addr_bytes:
  assumes "as_wire_bytes a = le_bytes (w :: u32) @ replicate 4 0 @ t # replicate 23 0" "t = 1 \<or> t = 2"
  shows "encode_addr a = le_bytes (if t = 2 then 3 else 1 :: u32) @ le_bytes w"
proof -
  have "as_wire_bytes a ! 8 = t" using assms(1) by (simp add: nth_append)
  moreover have "\<not> is_zero a"
    using assms \<open>as_wire_bytes a ! 8 = t\<close> by (auto simp: is_zero_def RPC_ADDR_LEN_def)
  moreover have "[as_wire_bytes a ! 0, as_wire_bytes a ! 1, as_wire_bytes a ! 2, as_wire_bytes a ! 3] = le_bytes w"
    by (rule nth_equalityI) (auto simp: assms(1) nth_append less_Suc_eq numeral_eq_Suc)
  ultimately show ?thesis
    by (simp add: encode_addr_def ADDR_OPTION_CREATED_def ADDR_OPTION_FOR_SERVER_def)
qed

lemma length_encode_addr [simp]: "length (encode_addr a) = 8"
  by (simp add: encode_addr_def A13_ADDR_LEN_def Let_def)

lemma addr_from_counter:
  "(splice (replicate RPC_ADDR_LEN 0) 0 (le_bytes (w :: u32)))[8 := t] =
    le_bytes w @ replicate 4 0 @ t # replicate 23 0"
proof -
  have "splice (replicate RPC_ADDR_LEN 0) 0 (le_bytes w) =
      (le_bytes w @ replicate 4 0) @ 0 # replicate 23 0"
    by (simp add: splice_def RPC_ADDR_LEN_def flip: replicate_add replicate_Suc)
  then show ?thesis by (simp add: list_update_append)
qed

lemma decode_addr_encode_addr:
  assumes "drop off buf = encode_addr a @ rest" "a13_addr_ok a"
  shows "decode_addr buf off = Ok a"
proof (cases "is_zero a")
  case True
  then have "as_wire_bytes a = as_wire_bytes addr_zero" by (simp add: is_zero_def addr_zero_def)
  then have a: "a = addr_zero" by (cases a) (simp add: addr_zero_def)
  have z: "encode_addr a = le_bytes (0 :: u32) @ le_bytes (0 :: u32)"
    using True by (simp add: encode_addr_def A13_ADDR_LEN_def le_bytes_def flip: replicate_add)
  have "drop (off + 4) buf = drop 4 (drop off buf)" by (simp add: add.commute)
  then have "rd_u32 buf off = Ok 0" "rd_u32 buf (off + 4) = Ok 0"
    using assms(1) rd_u32_at [of off buf 0 "le_bytes (0 :: u32) @ rest"] rd_u32_at [of "off + 4" buf 0 rest]
    unfolding z by simp_all
  then show ?thesis using a by (simp add: decode_addr_def)
next
  case False
  then obtain w t where b: "as_wire_bytes a = le_bytes (w :: u32) @ replicate 4 0 @ t # replicate 23 0"
    and t: "t = 1 \<or> t = 2"
    using a13_addr_bytes [OF assms(2)] by blast
  have "drop (off + 4) buf = drop 4 (drop off buf)" by (simp add: add.commute)
  then have "rd_u32 buf off = Ok (if t = 2 then 3 else 1)" "rd_u32 buf (off + 4) = Ok w"
    using assms(1) rd_u32_at [of off buf "if t = 2 then 3 else 1" "le_bytes w @ rest"]
      rd_u32_at [of "off + 4" buf w rest]
    unfolding encode_addr_bytes [OF b t] by simp_all
  then have "decode_addr buf off = Ok (RpcAddress (le_bytes w @ replicate 4 0 @ t # replicate 23 0))"
    using t by (auto simp: decode_addr_def ADDR_OPTION_CREATED_def ADDR_OPTION_FOR_SERVER_def addr_from_counter)
  with b show ?thesis by (cases a) simp
qed

lemma decode_addr_no_panic [simp]: "decode_addr b i \<noteq> Panic"
  by (simp add: decode_addr_def bind_out_Panic_iff)

lemma addr_unique_a13_ok:
  assumes "unat (c + 1) < 2 ^ 32"
  shows "a13_addr_ok (fst (addr_unique c s))"
proof -
  have "le_bytes (c + 1) = le_nat 4 (unat (c + 1)) @ le_nat 4 (unat (c + 1) div 256 ^ 4)"
    using le_nat_add [of 4 4 "unat (c + 1)"] by (simp add: le_bytes_def)
  moreover have "unat (c + 1) div 256 ^ 4 = 0" using assms by simp
  ultimately have "le_bytes (c + 1) = le_nat 4 (unat (c + 1)) @ replicate 4 0" by (simp only: le_nat_zero)
  moreover have "tag s = 1 \<or> tag s = 2" by (cases s) auto
  ultimately show ?thesis
    by (auto simp: a13_addr_ok_def addr_unique_bytes RPC_ADDR_LEN_def nth_append)
qed

section \<open>The codec meets the contract at every version\<close>

definition a13_txn_ok :: "Android13PlusCodec \<Rightarrow> WireTransaction \<Rightarrow> bool" where
  "a13_txn_ok c t \<longleftrightarrow> a13_addr_ok (txn_address t) \<and>
    (has_object_table (codec_version c) \<or> txn_object_positions t = []) \<and>
    A13_TXN_FIXED_LEN + length (txn_data t) + 4 * length (txn_object_positions t) \<le> MAX_FRAME_LEN"

definition a13_reply_ok :: "Android13PlusCodec \<Rightarrow> WireReply \<Rightarrow> bool" where
  "a13_reply_ok c r \<longleftrightarrow>
    (has_object_table (codec_version c) \<or> reply_object_positions r = []) \<and>
    reply_fixed_len (codec_version c) + length (reply_data r) + 4 * length (reply_object_positions r)
      \<le> MAX_FRAME_LEN"

lemma has_object_table_iff: "has_object_table v \<longleftrightarrow> v \<noteq> PROTOCOL_V0"
  by (simp add: has_object_table_def version_defs word_le_nat_alt unat_gt_0 Suc_le_eq)

lemma length_table [simp]: "length (concat (map le_bytes (ps :: u32 list))) = 4 * length ps"
  by (simp add: length_concat_const)

lemma split_table:
  assumes "has_object_table v \<or> ps = []"
  shows "split_data_and_table v (data @ concat (map le_bytes ps)) (length data) = Ok (data, ps)"
proof -
  have "chunks_exact 4 (concat (map le_bytes ps)) = map le_bytes ps"
    by (rule chunks_exact_concat) simp_all
  then have "map of_le_bytes (chunks_exact 4 (concat (map le_bytes ps))) = ps"
    by (simp add: comp_def)
  then show ?thesis using assms by (auto simp: split_data_and_table_def Let_def)
qed

lemma split_v0 [simp]: "\<not> has_object_table v \<Longrightarrow> split_data_and_table v rest n = Ok (rest, [])"
  by (simp add: split_data_and_table_def)

lemma split_no_panic [simp]: "split_data_and_table v rest n \<noteq> Panic"
  by (simp add: split_data_and_table_def Let_def)

lemma encode_table:
  "has_object_table v \<or> ps = [] \<Longrightarrow>
    encode_data_and_table out v data ps = Ok (out @ data @ concat (map le_bytes ps))"
  by (auto simp: encode_data_and_table_def)

lemma table_bytes_eq:
  "has_object_table v \<or> ps = [] \<Longrightarrow> (if has_object_table v then 4 * length ps else 0) = 4 * length ps"
  by auto

lemma a13_transact:
  assumes "a13_txn_ok c t"
  shows "\<exists>f. a13_encode_transact c t = Ok f \<and> a13_decode_message c f = Ok (Transact t)"
proof -
  define sz where "sz = (if codec_version c = PROTOCOL_V0 then 0 else word_of_nat (length (txn_data t)) :: u32)"
  define tab where "tab = concat (map le_bytes (txn_object_positions t))"
  define body where "body = encode_addr (txn_address t) @ le_bytes (txn_code t) @ le_bytes (txn_flags t) @
    le_bytes (async_number t) @ le_bytes sz @ replicate 12 0 @ txn_data t @ tab"
  have a: "a13_addr_ok (txn_address t)" and n: "40 + length (txn_data t) + 4 * length (txn_object_positions t) \<le> MAX_FRAME_LEN"
    and tb: "has_object_table (codec_version c) \<or> txn_object_positions t = []"
    using assms by (simp_all add: a13_txn_ok_def A13_TXN_FIXED_LEN_def A13_ADDR_LEN_def)
  have len: "length body = 40 + length (txn_data t) + 4 * length (txn_object_positions t)"
    by (simp add: body_def tab_def)
  have rd: "decode_addr body 0 = Ok (txn_address t)" "rd_u32 body 8 = Ok (txn_code t)"
    "rd_u32 body 12 = Ok (txn_flags t)" "rd_u64 body 16 = Ok (async_number t)" "rd_u32 body 24 = Ok sz"
    by (rule decode_addr_encode_addr rd_u32_at rd_u64_at, simp add: body_def, (simp add: a)?)+
  have data: "drop 40 body = txn_data t @ tab" by (simp add: body_def)
  have "unat (word_of_nat (length (txn_data t)) :: u32) = length (txn_data t)"
    using n by (intro unat_frame_len) simp
  then have sp: "split_data_and_table (codec_version c) (txn_data t @ tab) (unat sz) =
      Ok (txn_data t, txn_object_positions t)"
    using split_table [OF tb, of "txn_data t"] tb
    by (cases "codec_version c = PROTOCOL_V0") (auto simp: sz_def tab_def has_object_table_iff)
  have "a13_decode_body c CMD_TRANSACT body = Ok (Transact t)"
    using rd data len sp by (simp add: a13_decode_body_def A13_TXN_FIXED_LEN_def A13_ADDR_LEN_def)
  moreover have "a13_encode_transact c t =
      Ok (le_bytes CMD_TRANSACT @ le_bytes (word_of_nat (length body) :: u32) @ replicate 8 0 @ body)"
    using n unfolding len [symmetric]
    by (simp add: a13_encode_transact_def A13_TXN_FIXED_LEN_def A13_ADDR_LEN_def Let_def table_bytes_eq [OF tb]
        encode_table [OF tb] wire_header_bytes len [symmetric] del: of_nat_add)
      (simp add: body_def tab_def sz_def)
  ultimately show ?thesis
    using decode_header_encoded [of body] n unfolding len [symmetric] by (simp add: a13_decode_message_def)
qed

lemma a13_reply:
  assumes "a13_reply_ok c r"
  shows "\<exists>f. a13_encode_reply c r = Ok f \<and> a13_decode_message c f = Ok (Reply r)"
proof -
  define ext where "ext = (if codec_version c \<noteq> PROTOCOL_V0
    then le_bytes (word_of_nat (length (reply_data r)) :: u32) @ replicate 12 0 else [])"
  define tab where "tab = concat (map le_bytes (reply_object_positions r))"
  define body where "body = le_bytes (reply_status r) @ ext @ reply_data r @ tab"
  have fixed: "reply_fixed_len (codec_version c) = 4 + length ext"
    by (simp add: reply_fixed_len_def ext_def)
  have n: "4 + length ext + length (reply_data r) + 4 * length (reply_object_positions r) \<le> MAX_FRAME_LEN"
    and tb: "has_object_table (codec_version c) \<or> reply_object_positions r = []"
    using assms fixed by (simp_all add: a13_reply_ok_def)
  have len: "length body = 4 + length ext + length (reply_data r) + 4 * length (reply_object_positions r)"
    by (simp add: body_def tab_def)
  have data: "drop (4 + length ext) body = reply_data r @ tab" by (simp add: body_def)
  have rd: "rd_u32 body 0 = Ok (reply_status r)" by (rule rd_u32_at) (simp add: body_def)
  define sz where "sz = (if codec_version c = PROTOCOL_V0 then 0 else word_of_nat (length (reply_data r)) :: u32)"
  have "unat (word_of_nat (length (reply_data r)) :: u32) = length (reply_data r)"
    using n by (intro unat_frame_len) simp
  then have sp: "split_data_and_table (codec_version c) (reply_data r @ tab) (unat sz) =
      Ok (reply_data r, reply_object_positions r)"
    using split_table [OF tb, of "reply_data r"] tb
    by (cases "codec_version c = PROTOCOL_V0") (auto simp: sz_def tab_def has_object_table_iff)
  have "codec_version c \<noteq> PROTOCOL_V0 \<Longrightarrow> rd_u32 body 4 = Ok (word_of_nat (length (reply_data r)))"
    by (rule rd_u32_at) (simp add: body_def ext_def)
  then have "(if has_object_table (codec_version c) then rd_u32 body 4 else Ok 0) = Ok sz"
    by (simp add: sz_def has_object_table_iff)
  then have "a13_decode_body c CMD_REPLY body = Ok (Reply r)"
    using rd data len sp by (simp add: a13_decode_body_def fixed CMD_REPLY_def CMD_TRANSACT_def Let_def)
  moreover have "a13_encode_reply c r =
      Ok (le_bytes CMD_REPLY @ le_bytes (word_of_nat (length body) :: u32) @ replicate 8 0 @ body)"
    using n unfolding len [symmetric]
    by (simp add: a13_encode_reply_def fixed Let_def table_bytes_eq [OF tb]
        encode_table [OF tb] wire_header_bytes len [symmetric] del: of_nat_add)
      (simp add: body_def tab_def ext_def)
  ultimately show ?thesis
    using decode_header_encoded [of body] n unfolding len [symmetric] by (simp add: a13_decode_message_def)
qed

lemma a13_dec_strong:
  assumes "a13_addr_ok a"
  shows "\<exists>f. a13_encode_dec_strong c a = Ok f \<and> a13_decode_message c f = Ok (DecStrong a 1)"
proof -
  define body where "body = encode_addr a @ le_bytes (1 :: u32) @ le_bytes (0 :: u32)"
  have len: "length body = 16" and le: "(16 :: nat) \<le> MAX_FRAME_LEN"
    by (simp_all add: body_def MAX_FRAME_LEN_def)
  have "decode_addr body 0 = Ok a" "rd_u32 body 8 = Ok 1"
    by (rule decode_addr_encode_addr rd_u32_at, simp add: body_def, (simp add: assms)?)+
  then have "a13_decode_body c CMD_DEC_STRONG body = Ok (DecStrong a 1)"
    using len by (simp add: a13_decode_body_def CMD_DEC_STRONG_def CMD_REPLY_def CMD_TRANSACT_def
        A13_DEC_STRONG_LEN_def A13_ADDR_LEN_def)
  moreover have "a13_encode_dec_strong c a =
      Ok (le_bytes CMD_DEC_STRONG @ le_bytes (word_of_nat (length body) :: u32) @ replicate 8 0 @ body)"
    using le by (simp add: a13_encode_dec_strong_def A13_DEC_STRONG_LEN_def A13_ADDR_LEN_def wire_header_bytes len)
      (simp add: body_def)
  ultimately show ?thesis
    using decode_header_encoded [of body] len le by (simp add: a13_decode_message_def)
qed

lemma a13_decode_no_panic: "a13_decode_message c f \<noteq> Panic"
  by (auto simp: a13_decode_message_def a13_decode_body_def decode_header_no_panic bind_out_Panic_iff Let_def
      split: if_splits)

interpretation a13: wire_codec "a13_encode_transact c" "a13_encode_reply c" "a13_encode_dec_strong c"
    "a13_decode_message c" "a13_txn_ok c" "a13_reply_ok c" a13_addr_ok
  for c :: Android13PlusCodec
proof unfold_locales
  fix f m
  assume "a13_decode_message c f = Ok m"
  then show "\<exists>n. rd_u32 f 4 = Ok n \<and> length f = WIRE_HEADER_LEN + unat n \<and> unat n \<le> MAX_FRAME_LEN"
    by (auto simp: a13_decode_message_def bind_out_Ok_iff dest: decode_header_Ok)
qed (auto intro: a13_transact a13_reply a13_dec_strong simp: a13_decode_no_panic)

end
