(* ===== verification/Rpc_Handshake.thy ===== *)
theory Rpc_Handshake
  imports Rpc_Wire13
begin

text \<open>
  Raw message framing and the connection handshake of \<open>rsbinder/src/rpc/wire_android13.rs\<close>. A raw
  message has no length prefix: its 16-byte header announces its body. A connection end is what it can
  still read and what it has written. The client and the server functions are run on the two ends of
  one connection.
\<close>

section \<open>Raw messages\<close>

definition write_all_raw :: "byte list \<Rightarrow> sink \<Rightarrow> unit rpc_result \<times> sink" where
  "write_all_raw buf w =
    (case write_all buf w of
       (Ok u, w') \<Rightarrow> (Ok u, w')
     | (Err e, w') \<Rightarrow> (Err (RpcErr_of_io e), w')
     | (Panic, w') \<Rightarrow> (Panic, w'))"

definition write_aosp_message :: "byte list \<Rightarrow> sink \<Rightarrow> unit rpc_result \<times> sink" where
  "write_aosp_message msg w =
    (if length msg < WIRE_HEADER_LEN then (Err (Protocol ''message shorter than RpcWireHeader''), w)
     else if length msg - WIRE_HEADER_LEN > MAX_FRAME_LEN
     then (Err (FrameTooLarge (length msg - WIRE_HEADER_LEN) MAX_FRAME_LEN), w)
     else write_all_raw msg w)"

fun body_error :: "RpcErr \<Rightarrow> RpcErr" where
  "body_error Timeout = Truncated"
| "body_error PeerClosed = Truncated"
| "body_error e = e"

fun map_err :: "('e \<Rightarrow> 'f) \<Rightarrow> ('e, 'a) outcome \<times> 's \<Rightarrow> ('f, 'a) outcome \<times> 's" where
  "map_err g (Ok a, s) = (Ok a, s)"
| "map_err g (Err e, s) = (Err (g e), s)"
| "map_err g (Panic, s) = (Panic, s)"

definition header_body_size :: "byte list \<Rightarrow> usize" where
  "header_body_size header = unat (of_le_bytes [header ! 4, header ! 5, header ! 6, header ! 7] :: u32)"

definition read_aosp_message :: "read_event list \<Rightarrow> byte list rpc_result \<times> read_event list" where
  "read_aosp_message es =
    andThen (read_exact_raw WIRE_HEADER_LEN es) (\<lambda>header es.
      let body_size = header_body_size header in
      if body_size > MAX_FRAME_LEN then (Err (FrameTooLarge body_size MAX_FRAME_LEN), es)
      else if body_size > 0 then
        andThen (map_err body_error (read_exact_raw body_size es)) (\<lambda>body es. (Ok (header @ body), es))
      else (Ok header, es))"

subsection \<open>With ancillary descriptors\<close>

text \<open>What successive \<open>recv_raw_with_fds\<close> calls find: a chunk of bytes with the descriptors that come
  with its first byte, or an error of the transport. \<open>total_read\<close> counts the bytes of the message so far.\<close>

datatype recv_event = Recv "byte list" "nat list" | RecvErr RpcErr

definition MAX_FDS_PER_FRAME :: usize where
  "MAX_FDS_PER_FRAME = 64"

type_synonym fill_state = "usize \<times> nat list \<times> recv_event list"

fun fill :: "nat \<Rightarrow> byte list \<Rightarrow> usize \<Rightarrow> nat list \<Rightarrow> recv_event list \<Rightarrow> byte list rpc_result \<times> fill_state" where
  "fill need buf total_read fds [] =
    (if need = 0 then (Ok buf, total_read, fds, [])
     else (Err (if total_read = 0 then PeerClosed else Truncated), total_read, fds, []))"
| "fill need buf total_read fds (RecvErr e # es) =
    (if need = 0 then (Ok buf, total_read, fds, RecvErr e # es)
     else if e = Timeout then (Err (if total_read = 0 then Timeout else Truncated), total_read, fds, es)
     else (Err e, total_read, fds, es))"
| "fill need buf total_read fds (Recv bs extra # es) =
    (if need = 0 then (Ok buf, total_read, fds, Recv bs extra # es)
     else if length (fds @ extra) > MAX_FDS_PER_FRAME
     then (Err (Protocol ''RPC message exceeded MAX_FDS_PER_FRAME (ancillary fd budget)''),
           total_read, fds @ extra, es)
     else if bs = [] then (Err (if total_read = 0 then PeerClosed else Truncated), total_read, fds @ extra, es)
     else if length bs \<le> need
     then fill (need - length bs) (buf @ bs) (total_read + length bs) (fds @ extra) es
     else (Ok (buf @ take need bs), total_read + need, fds @ extra, Recv (drop need bs) [] # es))"

definition read_aosp_message_with_fds ::
    "recv_event list \<Rightarrow> (byte list \<times> nat list) rpc_result \<times> recv_event list" where
  "read_aosp_message_with_fds es =
    (case fill WIRE_HEADER_LEN [] 0 [] es of
       (Ok header, total_read, fds, es) \<Rightarrow>
         let body_size = header_body_size header in
         if body_size > MAX_FRAME_LEN then (Err (FrameTooLarge body_size MAX_FRAME_LEN), es)
         else if body_size > 0 then
           (case fill body_size [] total_read fds es of
              (Ok body, total_read, fds, es) \<Rightarrow> (Ok (header @ body, fds), es)
            | (Err e, total_read, fds, es) \<Rightarrow> (Err e, es)
            | (Panic, total_read, fds, es) \<Rightarrow> (Panic, es))
         else (Ok (header, fds), es)
     | (Err e, total_read, fds, es) \<Rightarrow> (Err e, es)
     | (Panic, total_read, fds, es) \<Rightarrow> (Panic, es))"

section \<open>Handshake\<close>

record duplex =
  rx :: "read_event list"
  tx :: sink

definition dx_read :: "nat \<Rightarrow> duplex \<Rightarrow> byte list rpc_result \<times> duplex" where
  "dx_read n d = (case read_exact_raw n (rx d) of (r, es) \<Rightarrow> (r, d\<lparr>rx := es\<rparr>))"

definition dx_write :: "byte list \<Rightarrow> duplex \<Rightarrow> unit rpc_result \<times> duplex" where
  "dx_write bs d = (case write_all_raw bs (tx d) of (r, w) \<Rightarrow> (r, d\<lparr>tx := w\<rparr>))"

definition pure_out :: "('e, 'a) outcome \<Rightarrow> 's \<Rightarrow> ('e, 'a) outcome \<times> 's" where
  "pure_out r = (\<lambda>s. (r, s))"

definition client_connect_with_id ::
    "u32 \<Rightarrow> bool \<Rightarrow> byte \<Rightarrow> byte list \<Rightarrow> duplex \<Rightarrow> Android13PlusCodec rpc_result \<times> duplex" where
  "client_connect_with_id max_version incoming fd_mode session_id d =
    andThen (pure_out (with_version max_version) d) (\<lambda>hdr_codec d.
    andThen (pure_out (encode_connection_header hdr_codec incoming fd_mode session_id) d) (\<lambda>header d.
    andThen (dx_write header d) (\<lambda>_ d.
    andThen (if incoming
       then andThen (dx_read A13_CONN_INIT_LEN d) (\<lambda>init d. pure_out (decode_connection_init init) d)
       else dx_write encode_connection_init d) (\<lambda>_ d.
    if session_id = [] then
      andThen (dx_read A13_NEW_SESSION_RESP_LEN d) (\<lambda>resp d.
      andThen (pure_out (decode_new_session_response resp) d) (\<lambda>negotiated d.
        if negotiated > max_version
        then (Err (Protocol ''server upgraded the protocol version past the client cap''), d)
        else if negotiated = codec_version hdr_codec then (Ok hdr_codec, d)
        else pure_out (with_version negotiated) d))
    else (Ok hdr_codec, d)))))"

definition client_connect ::
    "u32 \<Rightarrow> bool \<Rightarrow> byte \<Rightarrow> duplex \<Rightarrow> Android13PlusCodec rpc_result \<times> duplex" where
  "client_connect max_version incoming fd_mode d = client_connect_with_id max_version incoming fd_mode [] d"

definition server_accept ::
    "u32 \<Rightarrow> duplex \<Rightarrow> (Android13PlusCodec \<times> byte \<times> byte list \<times> bool) rpc_result \<times> duplex" where
  "server_accept server_max_version d =
    andThen (dx_read A13_CONN_HEADER_LEN d) (\<lambda>head d.
      let client_version = of_le_bytes [head ! 0, head ! 1, head ! 2, head ! 3] :: u32;
          options = head ! 4;
          incoming = (options AND CONN_OPTION_INCOMING \<noteq> 0);
          id_size = unat (of_le_bytes [head ! 14, head ! 15] :: u16)
      in andThen (if id_size > 0 then dx_read id_size d else (Ok [], d)) (\<lambda>session_id d.
        let fd_mode = (if client_version = PROTOCOL_V0 then FD_MODE_NONE else head ! 5) in
        if \<not> fd_mode_known fd_mode
        then (Err (Protocol ''unknown RpcConnectionHeader.fileDescriptorTransportMode''), d)
        else
          let negotiated = min client_version server_max_version in
          andThen (pure_out (with_version negotiated) d) (\<lambda>codec d.
          andThen (if session_id = [] then dx_write (encode_new_session_response negotiated) d
                   else (Ok (), d)) (\<lambda>_ d.
          if session_id = [] \<and> incoming
          then (Err (Protocol ''new-session request set RPC_CONNECTION_OPTION_INCOMING''), d)
          else andThen (if incoming then dx_write encode_connection_init d
               else andThen (dx_read A13_CONN_INIT_LEN d) (\<lambda>init d.
                 pure_out (decode_connection_init init) d)) (\<lambda>_ d.
            (Ok (codec, fd_mode, session_id, incoming), d))))))"

section \<open>Reading a raw message\<close>

lemma read_exact_raw_clean:
  assumes "list_all chunk_only es" "payload es = a @ b" "length a = n"
  shows "\<exists>es'. read_exact_raw n es = (Ok a, es') \<and> list_all chunk_only es' \<and> payload es' = b"
  using read_exact_clean [OF assms(1), of n "[]"] assms(2,3) by (auto simp: read_exact_raw_def)

lemma header_body_size_rd:
  assumes "rd_u32 f 4 = Ok n"
  shows "header_body_size (take 16 f) = unat n"
proof -
  have l: "8 \<le> length f" and n: "n = of_le_bytes (take 4 (drop 4 f))"
    using assms by (auto simp: rd_u32_def slice_get_def split: option.splits if_splits)
  have "take 4 (drop 4 f) = [f ! 4, f ! 5, f ! 6, f ! 7]"
    using l by (intro nth_equalityI) (auto simp: less_Suc_eq numeral_eq_Suc)
  then show ?thesis using n by (simp add: header_body_size_def)
qed

lemma read_aosp_message_whole:
  assumes "list_all chunk_only es" "payload es = f @ rest"
    and "rd_u32 f 4 = Ok n" "length f = WIRE_HEADER_LEN + unat n" "unat n \<le> MAX_FRAME_LEN"
  shows "\<exists>es'. read_aosp_message es = (Ok f, es') \<and> list_all chunk_only es' \<and> payload es' = rest"
proof -
  have "payload es = take 16 f @ drop 16 f @ rest" using assms(2) by simp
  then obtain es1 where h: "read_exact_raw WIRE_HEADER_LEN es = (Ok (take 16 f), es1)"
    "list_all chunk_only es1" "payload es1 = drop 16 f @ rest"
    using read_exact_raw_clean [OF assms(1), of "take 16 f" "drop 16 f @ rest" 16] assms(4)
    by (auto simp: WIRE_HEADER_LEN_def)
  obtain es2 where b: "read_exact_raw (unat n) es1 = (Ok (drop 16 f), es2)"
    "list_all chunk_only es2" "payload es2 = rest"
    using read_exact_raw_clean [OF h(2,3), of "unat n"] assms(4) by (auto simp: WIRE_HEADER_LEN_def)
  show ?thesis
  proof (cases "unat n = 0")
    case True
    then have "take 16 f = f" "drop 16 f = []" using assms(4) by (simp_all add: WIRE_HEADER_LEN_def)
    with h True header_body_size_rd [OF assms(3)] show ?thesis by (simp add: read_aosp_message_def)
  next
    case False
    with h b header_body_size_rd [OF assms(3)] assms(5) show ?thesis
      by (simp add: read_aosp_message_def Let_def)
  qed
qed

section \<open>The two ends of a connection\<close>

text \<open>A healthy end: it will read exactly \<open>bs\<close>, in any chunks, and has written \<open>out\<close>.\<close>

definition dx_ok :: "duplex \<Rightarrow> byte list \<Rightarrow> byte list \<Rightarrow> bool" where
  "dx_ok d bs out \<longleftrightarrow>
    list_all chunk_only (rx d) \<and> payload (rx d) = bs \<and> sent (tx d) = out \<and> broken (tx d) = None"

lemma dx_read_ok:
  assumes "dx_ok d (a @ b) out" "length a = n"
  shows "\<exists>d'. dx_read n d = (Ok a, d') \<and> dx_ok d' b out"
  using assms read_exact_raw_clean [of "rx d" a b n] by (auto simp: dx_ok_def dx_read_def)

lemma dx_write_ok:
  assumes "dx_ok d bs out"
  shows "\<exists>d'. dx_write msg d = (Ok (), d') \<and> dx_ok d' bs (out @ msg)"
  using assms by (simp add: dx_ok_def dx_write_def write_all_raw_def write_all_open)

lemma tx_dx_read [simp]: "tx (snd (dx_read n d)) = tx d"
  by (simp add: dx_read_def split: prod.splits)

definition conn_header_bytes :: "u32 \<Rightarrow> bool \<Rightarrow> byte \<Rightarrow> byte list \<Rightarrow> byte list" where
  "conn_header_bytes v incoming fd_mode session_id =
    le_bytes v @ [if incoming then CONN_OPTION_INCOMING else 0] @
    (if v = PROTOCOL_V0 then replicate 9 0 else fd_mode # replicate 8 0) @
    le_bytes (word_of_nat (length session_id) :: u16)"

lemma length_conn_header_bytes [simp]: "length (conn_header_bytes v i m sid) = 16"
  by (simp add: conn_header_bytes_def)

lemma encode_connection_header_bytes:
  "length sid \<le> 65535 \<Longrightarrow>
    encode_connection_header c i m sid = Ok (conn_header_bytes (codec_version c) i m sid @ sid)"
  by (simp add: encode_connection_header_def conn_header_bytes_def)

lemma tx_andThen:
  assumes "\<And>a e. tx (snd (f a e)) = tx e"
  shows "tx (snd (andThen r f)) = tx (snd r)"
  using assms by (cases "(r, f)" rule: andThen.cases) auto

lemma tx_pure_out [simp]: "snd (pure_out r d) = d"
  by (simp add: pure_out_def)

text \<open>What the client writes does not depend on what it reads.\<close>

lemma client_sends:
  assumes "dx_ok d bs []" "is_supported_protocol_version cmax" "length sid \<le> 65535"
  shows "sent (tx (snd (client_connect_with_id cmax incoming fd sid d))) =
    conn_header_bytes cmax incoming fd sid @ sid @ (if incoming then [] else encode_connection_init)"
proof -
  obtain d1 where d1: "dx_write (conn_header_bytes cmax incoming fd sid @ sid) d = (Ok (), d1)"
    "dx_ok d1 bs (conn_header_bytes cmax incoming fd sid @ sid)"
    using dx_write_ok [OF assms(1)] by auto
  obtain d2 where d2: "dx_write encode_connection_init d1 = (Ok (), d2)"
    "dx_ok d2 bs (conn_header_bytes cmax incoming fd sid @ sid @ encode_connection_init)"
    using dx_write_ok [OF d1(2)] by auto
  show ?thesis
    using assms(2,3) d1 d2
    by (auto simp: client_connect_with_id_def with_version_def pure_out_def
        encode_connection_header_bytes dx_ok_def tx_andThen)
qed

lemma supported_min:
  "is_supported_protocol_version a \<Longrightarrow> is_supported_protocol_version b \<Longrightarrow>
    is_supported_protocol_version (min a b)"
  by (simp add: min_def)

lemma init_bytes: "encode_connection_init = CONN_INIT_OKAY @ replicate 4 0"
  by (simp add: encode_connection_init_def splice_def A13_CONN_INIT_LEN_def CONN_INIT_OKAY_def)

lemma length_init [simp]: "length encode_connection_init = 8"
  by (simp add: init_bytes CONN_INIT_OKAY_def)

lemma decode_init_ok [simp]: "decode_connection_init encode_connection_init = Ok ()"
  by (simp add: decode_connection_init_def init_bytes A13_CONN_INIT_LEN_def CONN_INIT_OKAY_def)

lemma resp_bytes: "encode_new_session_response v = le_bytes v @ replicate 4 0"
  by (simp add: encode_new_session_response_def splice_def A13_NEW_SESSION_RESP_LEN_def)

lemma length_resp [simp]: "length (encode_new_session_response v) = 8"
  by (simp add: resp_bytes)

lemma decode_resp [simp]:
  "is_supported_protocol_version v \<Longrightarrow> decode_new_session_response (encode_new_session_response v) = Ok v"
  using rd_u32_at [of 0 "encode_new_session_response v" v "replicate 4 0"]
  by (simp add: decode_new_session_response_def A13_NEW_SESSION_RESP_LEN_def resp_bytes)

lemma le_bytes_u16_bytes: "le_bytes (w :: u16) = le_nat (Suc (Suc 0)) (unat w)"
proof -
  have "LENGTH(16) div 8 = Suc (Suc 0)" by simp
  then show ?thesis by (simp only: le_bytes_def)
qed

text \<open>A version response is never taken for the connection init.\<close>

lemma resp_not_init:
  assumes "is_supported_protocol_version v"
  shows "decode_connection_init (encode_new_session_response v) =
    Err (Protocol ''bad RpcOutgoingConnectionInit msg'')"
proof -
  have "le_bytes v \<noteq> CONN_INIT_OKAY"
  proof
    assume "le_bytes v = CONN_INIT_OKAY"
    then have "v = of_le_bytes CONN_INIT_OKAY" by (metis of_le_bytes_le_bytes_widths(3))
    then have "v = 6906723" by (simp add: of_le_bytes_def CONN_INIT_OKAY_def)
    with assms show False by (simp add: is_supported_protocol_version_def version_defs)
  qed
  then show ?thesis by (simp add: decode_connection_init_def resp_bytes A13_CONN_INIT_LEN_def)
qed

lemma header_fields:
  assumes "length sid \<le> 65535" "h = conn_header_bytes v i m sid"
  shows "of_le_bytes [h ! 0, h ! 1, h ! 2, h ! 3] = v"
    and "(h ! 4 AND CONN_OPTION_INCOMING \<noteq> 0) = i"
    and "v \<noteq> PROTOCOL_V0 \<Longrightarrow> h ! 5 = m"
    and "unat (of_le_bytes [h ! 14, h ! 15] :: u16) = length sid"
proof -
  have "[h ! 0, h ! 1, h ! 2, h ! 3] = le_bytes v"
    by (rule nth_equalityI) (auto simp: assms(2) conn_header_bytes_def nth_append less_Suc_eq numeral_eq_Suc)
  then show "of_le_bytes [h ! 0, h ! 1, h ! 2, h ! 3] = v" by simp
  show "(h ! 4 AND CONN_OPTION_INCOMING \<noteq> 0) = i" "v \<noteq> PROTOCOL_V0 \<Longrightarrow> h ! 5 = m"
    by (simp_all add: assms(2) conn_header_bytes_def nth_append CONN_OPTION_INCOMING_def)
  have "[h ! 14, h ! 15] = le_bytes (word_of_nat (length sid) :: u16)"
    by (simp add: assms(2) conn_header_bytes_def nth_append le_bytes_u16_bytes)
  then show "unat (of_le_bytes [h ! 14, h ! 15] :: u16) = length sid"
    using assms(1) by (simp add: unat_of_nat)
qed

lemma server_runs:
  assumes "dx_ok d (conn_header_bytes cmax incoming fd sid @ sid @
      (if incoming then [] else encode_connection_init)) []"
    and "is_supported_protocol_version cmax" "is_supported_protocol_version smax"
    and "length sid \<le> 65535" "fd_mode_known fd"
  shows "\<exists>d'. server_accept smax d =
      (if sid = [] \<and> incoming
       then Err (Protocol ''new-session request set RPC_CONNECTION_OPTION_INCOMING'')
       else Ok (\<lparr>codec_version = min cmax smax\<rparr>,
         if cmax = PROTOCOL_V0 then FD_MODE_NONE else fd, sid, incoming), d') \<and>
    sent (tx d') = (if sid = [] then encode_new_session_response (min cmax smax) else []) @
      (if incoming \<and> sid \<noteq> [] then encode_connection_init else [])"
proof -
  define h where "h = conn_header_bytes cmax incoming fd sid"
  define tl where "tl = (if incoming then [] else encode_connection_init)"
  define rsp where "rsp = (if sid = [] then encode_new_session_response (min cmax smax) else [])"
  have f: "of_le_bytes [h ! 0, h ! 1, h ! 2, h ! 3] = cmax" "(h ! 4 AND CONN_OPTION_INCOMING \<noteq> 0) = incoming"
    "unat (of_le_bytes [h ! 14, h ! 15] :: u16) = length sid"
    and m: "(if cmax = PROTOCOL_V0 then FD_MODE_NONE else h ! 5) =
      (if cmax = PROTOCOL_V0 then FD_MODE_NONE else fd)"
    using header_fields [OF assms(4) h_def] by simp_all
  have known: "fd_mode_known (if cmax = PROTOCOL_V0 then FD_MODE_NONE else fd)"
    using assms(5) by (simp add: fd_mode_known_def)
  have v: "with_version (min cmax smax) = Ok \<lparr>codec_version = min cmax smax\<rparr>"
    using supported_min [OF assms(2,3)] by (simp add: with_version_def)
  obtain d1 where d1: "dx_read A13_CONN_HEADER_LEN d = (Ok h, d1)" "dx_ok d1 (sid @ tl) []"
    using dx_read_ok [of d h "sid @ tl" "[]" A13_CONN_HEADER_LEN] assms(1)
    by (auto simp: h_def tl_def A13_CONN_HEADER_LEN_def)
  obtain d2 where d2: "(if length sid > 0 then dx_read (length sid) d1 else (Ok [], d1)) = (Ok sid, d2)"
    "dx_ok d2 tl []"
    using dx_read_ok [OF d1(2) refl] d1(2) by (cases "sid = []") auto
  obtain d3 where d3: "(if sid = [] then dx_write (encode_new_session_response (min cmax smax)) d2
      else (Ok (), d2)) = (Ok (), d3)" "dx_ok d3 tl rsp"
    using dx_write_ok [OF d2(2), of "encode_new_session_response (min cmax smax)"] d2(2)
    by (cases "sid = []") (auto simp: rsp_def)
  have run: "server_accept smax d = (if sid = [] \<and> incoming
      then (Err (Protocol ''new-session request set RPC_CONNECTION_OPTION_INCOMING''), d3)
      else andThen (if incoming then dx_write encode_connection_init d3
        else andThen (dx_read A13_CONN_INIT_LEN d3) (\<lambda>init d. pure_out (decode_connection_init init) d))
        (\<lambda>_ d. (Ok (\<lparr>codec_version = min cmax smax\<rparr>,
          if cmax = PROTOCOL_V0 then FD_MODE_NONE else fd, sid, incoming), d)))"
    unfolding server_accept_def d1 andThen.simps Let_def f m d2 v pure_out_def d3 using known by simp
  show ?thesis
  proof (cases incoming)
    case True
    with run dx_write_ok [OF d3(2), of encode_connection_init] d3(2) show ?thesis
      by (cases "sid = []") (auto simp: dx_ok_def rsp_def)
  next
    case False
    then have "dx_ok d3 (encode_connection_init @ []) rsp" using d3(2) by (simp add: tl_def)
    from dx_read_ok [OF this, of A13_CONN_INIT_LEN] False run show ?thesis
      by (auto simp: dx_ok_def rsp_def A13_CONN_INIT_LEN_def pure_out_def)
  qed
qed

lemma client_runs:
  assumes "dx_ok d ((if sid = [] then encode_new_session_response v else []) @
      (if incoming \<and> sid \<noteq> [] then encode_connection_init else [])) []"
    and "is_supported_protocol_version cmax" "is_supported_protocol_version v" "v \<le> cmax"
    and "length sid \<le> 65535"
  shows "fst (client_connect_with_id cmax incoming fd sid d) =
    (if sid = [] \<and> incoming then Err (Protocol ''bad RpcOutgoingConnectionInit msg'')
     else Ok \<lparr>codec_version = if sid = [] then v else cmax\<rparr>)"
proof -
  define inb where "inb = (if sid = [] then encode_new_session_response v else []) @
      (if incoming \<and> sid \<noteq> [] then encode_connection_init else [])"
  define h where "h = conn_header_bytes cmax incoming fd sid @ sid"
  obtain d1 where d1: "dx_write h d = (Ok (), d1)" "dx_ok d1 inb h"
    using dx_write_ok [OF assms(1), of h] by (auto simp: inb_def)
  obtain d2 where d2: "dx_write encode_connection_init d1 = (Ok (), d2)"
    "dx_ok d2 inb (h @ encode_connection_init)"
    using dx_write_ok [OF d1(2)] by blast
  have run: "client_connect_with_id cmax incoming fd sid d =
    andThen (if incoming
       then andThen (dx_read A13_CONN_INIT_LEN d1) (\<lambda>init d. pure_out (decode_connection_init init) d)
       else (Ok (), d2)) (\<lambda>_ d.
    if sid = [] then
      andThen (dx_read A13_NEW_SESSION_RESP_LEN d) (\<lambda>resp d.
      andThen (pure_out (decode_new_session_response resp) d) (\<lambda>negotiated d.
        if negotiated > cmax
        then (Err (Protocol ''server upgraded the protocol version past the client cap''), d)
        else if negotiated = cmax then (Ok \<lparr>codec_version = cmax\<rparr>, d)
        else pure_out (with_version negotiated) d))
    else (Ok \<lparr>codec_version = cmax\<rparr>, d))"
    using assms(2,5) d1(1) d2(1)
    by (simp add: client_connect_with_id_def with_version_def pure_out_def encode_connection_header_bytes h_def
        cong: if_cong)
  consider (bad) "sid = []" incoming | (new) "sid = []" "\<not> incoming"
    | (inc) "sid \<noteq> []" incoming | (out) "sid \<noteq> []" "\<not> incoming" by blast
  then show ?thesis
  proof cases
    case bad
    then have "dx_ok d1 (encode_new_session_response v @ []) h" using d1(2) by (simp add: inb_def)
    from dx_read_ok [OF this, of A13_CONN_INIT_LEN] bad run resp_not_init [OF assms(3)] show ?thesis
      by (auto simp: A13_CONN_INIT_LEN_def pure_out_def)
  next
    case new
    then have "dx_ok d2 (encode_new_session_response v @ []) (h @ encode_connection_init)"
      using d2(2) by (simp add: inb_def)
    from dx_read_ok [OF this, of A13_NEW_SESSION_RESP_LEN] new run assms(3,4) show ?thesis
      by (auto simp: A13_NEW_SESSION_RESP_LEN_def pure_out_def with_version_def not_less)
  next
    case inc
    then have "dx_ok d1 (encode_connection_init @ []) h" using d1(2) by (simp add: inb_def)
    from dx_read_ok [OF this, of A13_CONN_INIT_LEN] inc run show ?thesis
      by (auto simp: A13_CONN_INIT_LEN_def pure_out_def)
  next
    case out
    then show ?thesis using run by simp
  qed
qed

section \<open>Properties\<close>

text \<open>C36: The handshake agrees. Run the client and the server on the two ends of one connection whose
  bytes all arrive, in any fragmentation, with supported version caps on both sides and a known
  descriptor mode. A request for a new session over an incoming connection fails on both ends. Otherwise
  both succeed: the server learns the client's session id, direction and descriptor mode (none at
  version 0); on a new session both hold the codec of the smaller cap, never above the client's; on an
  attach the server takes the smaller cap and the client its own, so the two agree exactly when the
  client's cap is not above the server's.\<close>

theorem handshake_agreement:
  assumes "client_connect_with_id cmax incoming fd sid dc = (rc, dc')" "server_accept smax ds = (rs, ds')"
    and "dx_ok dc (sent (tx ds')) []" "dx_ok ds (sent (tx dc')) []"
    and "is_supported_protocol_version cmax" "is_supported_protocol_version smax"
    and "length sid \<le> 65535" "fd_mode_known fd"
  shows "if sid = [] \<and> incoming then \<not> is_ok rc \<and> \<not> is_ok rs
    else rs = Ok (\<lparr>codec_version = min cmax smax\<rparr>,
           if cmax = PROTOCOL_V0 then FD_MODE_NONE else fd, sid, incoming) \<and>
      rc = Ok \<lparr>codec_version = if sid = [] then min cmax smax else cmax\<rparr>"
proof -
  have "sent (tx dc') = conn_header_bytes cmax incoming fd sid @ sid @
      (if incoming then [] else encode_connection_init)"
    using client_sends [OF assms(3,5,7), of incoming fd] assms(1) by simp
  then obtain d where d: "server_accept smax ds =
      (if sid = [] \<and> incoming
       then Err (Protocol ''new-session request set RPC_CONNECTION_OPTION_INCOMING'')
       else Ok (\<lparr>codec_version = min cmax smax\<rparr>,
         if cmax = PROTOCOL_V0 then FD_MODE_NONE else fd, sid, incoming), d)"
    "sent (tx d) = (if sid = [] then encode_new_session_response (min cmax smax) else []) @
      (if incoming \<and> sid \<noteq> [] then encode_connection_init else [])"
    using server_runs [of ds cmax incoming fd sid smax] assms(4-8) by auto
  have "ds' = d" using d(1) assms(2) by simp
  then have "fst (client_connect_with_id cmax incoming fd sid dc) =
    (if sid = [] \<and> incoming then Err (Protocol ''bad RpcOutgoingConnectionInit msg'')
     else Ok \<lparr>codec_version = if sid = [] then min cmax smax else cmax\<rparr>)"
    using client_runs [of dc sid "min cmax smax" incoming cmax fd] assms(3) d(2) assms(5,7)
      supported_min [OF assms(5,6)] by simp
  then show ?thesis using d(1) assms(1,2) by auto
qed

definition demo_end :: "byte list \<Rightarrow> duplex" where
  "demo_end bs = \<lparr>rx = [Chunk bs], tx = \<lparr>sent = [], broken = None\<rparr>\<rparr>"

definition demo_hello :: "byte list" where
  "demo_hello = [2, 0, 0, 0, 0, 1, 0, 0, 0, 0, 0, 0, 0, 0, 0, 0, 99, 99, 105, 0, 0, 0, 0, 0]"

lemma replicate_4: "replicate 4 0 = [0, 0, 0, 0]"
  by (simp add: eval_nat_numeral)

theorem handshake_agreement_witness:
  "fst (client_connect_with_id 2 False 1 [] (demo_end [1, 0, 0, 0, 0, 0, 0, 0])) = Ok \<lparr>codec_version = 1\<rparr> \<and>
   fst (server_accept 1 (demo_end demo_hello)) = Ok (\<lparr>codec_version = 1\<rparr>, 1, [], False)"
proof -
  let ?c = "client_connect_with_id 2 False 1 [] (demo_end [1, 0, 0, 0, 0, 0, 0, 0])"
  let ?s = "server_accept 1 (demo_end demo_hello)"
  have sup: "is_supported_protocol_version 2" "is_supported_protocol_version 1" "fd_mode_known 1"
    by (simp_all add: is_supported_protocol_version_def version_defs fd_mode_known_def FD_MODE_UNIX_def)
  have ends: "dx_ok (demo_end [1, 0, 0, 0, 0, 0, 0, 0]) [1, 0, 0, 0, 0, 0, 0, 0] []"
    "dx_ok (demo_end demo_hello) demo_hello []"
    by (simp_all add: dx_ok_def demo_end_def demo_hello_def)
  have m: "min (2 :: u32) 1 = 1" by (simp add: min_def word_le_nat_alt)
  have hello: "conn_header_bytes 2 False 1 [] @ [] @ encode_connection_init = demo_hello"
    by (simp add: conn_header_bytes_def init_bytes CONN_INIT_OKAY_def demo_hello_def le_bytes_u32_bytes
        le_bytes_u16_bytes PROTOCOL_V0_def reserved_words replicate_4)
  have "sent (tx (snd ?c)) = demo_hello"
    using client_sends [OF ends(1) sup(1), of "[]" False 1] hello by simp
  moreover have "sent (tx (snd ?s)) = [1, 0, 0, 0, 0, 0, 0, 0]"
    using server_runs [of "demo_end demo_hello" 2 False 1 "[]" 1] ends(2) sup hello
    by (auto simp: resp_bytes le_bytes_u32_bytes replicate_4 m)
  ultimately show ?thesis
    using ends sup
    using handshake_agreement [of 2 False 1 "[]" "demo_end [1, 0, 0, 0, 0, 0, 0, 0]" "fst ?c" "snd ?c"
        1 "demo_end demo_hello" "fst ?s" "snd ?s"]
    by (simp add: PROTOCOL_V0_def m)
qed


definition demo_txn :: WireTransaction where
  "demo_txn = \<lparr>txn_address = addr_zero, txn_code = 1, txn_flags = 0, async_number = 0,
    txn_data = [9, 9, 9, 9], txn_object_positions = [0]\<rparr>"


text \<open>C40: All versions from 1 on share one wire. Two codecs whose versions carry an object table encode
  every transaction, reply and reference drop to the same bytes and decode every frame to the same
  message; a version 0 codec differs, and refuses a message that has object positions.\<close>

theorem wire_versions_equivalent:
  assumes "codec_version c \<noteq> PROTOCOL_V0" "codec_version c' \<noteq> PROTOCOL_V0" "codec_version c0 = PROTOCOL_V0"
  shows "a13_encode_transact c t = a13_encode_transact c' t \<and> a13_encode_reply c r = a13_encode_reply c' r \<and>
    a13_encode_dec_strong c a = a13_encode_dec_strong c' a \<and>
    a13_decode_message c f = a13_decode_message c' f \<and>
    (txn_object_positions t \<noteq> [] \<longrightarrow> \<not> is_ok (a13_encode_transact c0 t)) \<and>
    (reply_object_positions r \<noteq> [] \<longrightarrow> \<not> is_ok (a13_encode_reply c0 r))"
proof -
  have sp: "split_data_and_table (codec_version c) = split_data_and_table (codec_version c')"
    using assms(1,2) by (auto simp: split_data_and_table_def has_object_table_iff fun_eq_iff)
  have en: "encode_data_and_table h (codec_version c) d ps = encode_data_and_table h (codec_version c') d ps"
    for h d ps using assms(1,2) by (simp add: encode_data_and_table_def has_object_table_iff)
  have v0: "ps \<noteq> [] \<Longrightarrow> encode_data_and_table h PROTOCOL_V0 d ps =
      Err (Protocol ''v0 wire has no object table (objects need protocol version >= 1)'')" for h d ps
    by (simp add: encode_data_and_table_def has_object_table_iff)
  have no: "\<not> is_ok (bind_out x (\<lambda>h. Err e))" for x :: "byte list rpc_result" and e :: RpcErr
    by (cases x) simp_all
  have "a13_decode_body c = a13_decode_body c'"
    using assms(1,2) sp by (simp add: fun_eq_iff a13_decode_body_def has_object_table_iff reply_fixed_len_def)
  then show ?thesis
    using assms
    by (simp add: en v0 no a13_encode_transact_def a13_encode_reply_def a13_encode_dec_strong_def a13_decode_message_def
        has_object_table_iff reply_fixed_len_def Let_def)
qed

theorem wire_versions_equivalent_witness:
  "a13_encode_transact android14_15 demo_txn = a13_encode_transact android16 demo_txn \<and>
   \<not> is_ok (a13_encode_transact android13 demo_txn)"
  using wire_versions_equivalent [of android14_15 android16 android13 demo_txn]
  by (simp add: android14_15_def android16_def android13_def version_defs demo_txn_def)

text \<open>C39: The decoders are total and strict. On any bytes at all neither codec panics, and a frame is
  accepted only if it is exactly its 16-byte header followed by the announced number of body bytes,
  which is at most \<open>MAX_FRAME_LEN\<close>.\<close>

theorem wire_decoders_strict:
  "r34_decode_message f \<noteq> Panic \<and> a13_decode_message c f \<noteq> Panic \<and>
   (is_ok (r34_decode_message f) \<or> is_ok (a13_decode_message c f) \<longrightarrow>
     (\<exists>n. rd_u32 f 4 = Ok n \<and> length f = WIRE_HEADER_LEN + unat n \<and> unat n \<le> MAX_FRAME_LEN))"
  using r34.decode_no_panic [of f] a13.decode_no_panic [of c f] r34.decode_exact_length [of f]
    a13.decode_exact_length [of c f]
  by (cases "r34_decode_message f"; cases "a13_decode_message c f") auto

theorem wire_decoders_strict_witness:
  "\<exists>n. rd_u32 [1, 0, 0, 0, 4, 0, 0, 0, 0, 0, 0, 0, 0, 0, 0, 0, 7, 0, 0, 0] 4 = Ok n \<and> unat n = 4"
proof -
  let ?f = "[1, 0, 0, 0, 4, 0, 0, 0, 0, 0, 0, 0, 0, 0, 0, 0, 7, 0, 0, 0] :: byte list"
  have "is_ok (r34_decode_message ?f)"
    by (simp add: r34_decode_message_def decode_header_def rd_u32_def slice_get_def WIRE_HEADER_LEN_def
        of_le_bytes_def MAX_FRAME_LEN_def r34_decode_body_def CMD_TRANSACT_def CMD_REPLY_def rd_i32_def)
  with wire_decoders_strict [of ?f android13] show ?thesis by (auto simp: WIRE_HEADER_LEN_def)
qed

section \<open>The two readers of raw messages\<close>

lemma fill_budget:
  assumes "fill need buf total_read fds es = (Ok b, t, fds', es')" "length fds \<le> MAX_FDS_PER_FRAME"
  shows "length fds' \<le> MAX_FDS_PER_FRAME"
  using assms by (induction need buf total_read fds es rule: fill.induct) (auto split: if_splits)

text \<open>The same stream seen through \<open>recv_raw_with_fds\<close>, without descriptors.\<close>

fun plain_event :: "read_event \<Rightarrow> recv_event" where
  "plain_event (Chunk bs) = Recv bs []"
| "plain_event (ReadErr e) = RecvErr (if io_kind e = KTimedOut then Timeout else RpcErr_of_io e)"

fun not_closing :: "read_event \<Rightarrow> bool" where
  "not_closing (Chunk bs) = True"
| "not_closing (ReadErr e) = (RpcErr_of_io e \<noteq> PeerClosed)"

lemma RpcErr_of_io_not_Timeout [simp]: "RpcErr_of_io e \<noteq> Timeout"
  by (simp add: RpcErr_of_io_def)

lemma body_error_io [simp]: "RpcErr_of_io e \<noteq> PeerClosed \<Longrightarrow> body_error (RpcErr_of_io e) = RpcErr_of_io e"
  by (auto simp: RpcErr_of_io_def)

lemma fill_header:
  "\<exists>t. fill need buf (length buf) [] (map plain_event es) =
    (fst (read_exact_loop need buf es), t, [], map plain_event (snd (read_exact_loop need buf es))) \<and>
    (is_ok (fst (read_exact_loop need buf es)) \<longrightarrow> t = length buf + need)"
  by (induction need buf es rule: read_exact_loop.induct) (auto simp: MAX_FDS_PER_FRAME_def)

lemma fill_body:
  assumes "list_all not_closing es" "total_read > 0"
  shows "\<exists>t. fill need buf total_read [] (map plain_event es) =
    (fst (map_err body_error (read_exact_loop need buf es)), t, [],
     map plain_event (snd (map_err body_error (read_exact_loop need buf es))))"
  using assms
  by (induction need buf es arbitrary: total_read rule: read_exact_loop.induct)
    (auto simp: MAX_FDS_PER_FRAME_def)

lemma read_exact_loop_not_closing:
  "list_all not_closing es \<Longrightarrow> list_all not_closing (snd (read_exact_loop need buf es))"
  by (induction need buf es rule: read_exact_loop.induct) auto

text \<open>Descriptors do not disturb the message stream. \<open>read_aosp_message_with_fds\<close> never returns more
  than \<open>MAX_FDS_PER_FRAME\<close> descriptors for one message, however many receives it took; and on a
  stream that carries none and on which no receive fails with a disconnect error, it returns what
  \<open>read_aosp_message\<close> returns, errors included, and leaves the same bytes.\<close>

theorem fd_reader_agrees:
  assumes "list_all not_closing es"
  shows "read_aosp_message_with_fds (map plain_event es) =
      (case read_aosp_message es of
         (Ok m, es') \<Rightarrow> (Ok (m, []), map plain_event es')
       | (Err e, es') \<Rightarrow> (Err e, map plain_event es')
       | (Panic, es') \<Rightarrow> (Panic, map plain_event es')) \<and>
    (read_aosp_message_with_fds rs = (Ok (m, fds), rs') \<longrightarrow> length fds \<le> MAX_FDS_PER_FRAME)"
proof
  obtain r es1 where x: "read_exact_loop WIRE_HEADER_LEN [] es = (r, es1)" by (meson surj_pair)
  have nc: "list_all not_closing es1"
    using read_exact_loop_not_closing [OF assms, of WIRE_HEADER_LEN "[]"] x by simp
  obtain t where h: "fill WIRE_HEADER_LEN [] 0 [] (map plain_event es) = (r, t, [], map plain_event es1)"
    "is_ok r \<longrightarrow> t = WIRE_HEADER_LEN"
    using fill_header [of WIRE_HEADER_LEN "[]" es] x by auto
  show "read_aosp_message_with_fds (map plain_event es) =
      (case read_aosp_message es of
         (Ok m, es') \<Rightarrow> (Ok (m, []), map plain_event es')
       | (Err e, es') \<Rightarrow> (Err e, map plain_event es')
       | (Panic, es') \<Rightarrow> (Panic, map plain_event es'))"
  proof (cases r)
    case (Ok hd')
    let ?n = "header_body_size hd'"
    have "t > 0" using h(2) Ok by (simp add: WIRE_HEADER_LEN_def)
    then obtain t' where b: "fill ?n [] t [] (map plain_event es1) =
      (fst (map_err body_error (read_exact_loop ?n [] es1)), t', [],
       map plain_event (snd (map_err body_error (read_exact_loop ?n [] es1))))"
      using fill_body [OF nc] by blast
    obtain q es2 where q: "map_err body_error (read_exact_loop ?n [] es1) = (q, es2)" by (meson surj_pair)
    show ?thesis using Ok x h(1) b q
      by (cases q) (simp_all add: read_aosp_message_with_fds_def read_aosp_message_def read_exact_raw_def Let_def)
  qed (use x h(1) in \<open>simp_all add: read_aosp_message_with_fds_def read_aosp_message_def read_exact_raw_def\<close>)
  show "read_aosp_message_with_fds rs = (Ok (m, fds), rs') \<longrightarrow> length fds \<le> MAX_FDS_PER_FRAME"
    by (auto simp: read_aosp_message_with_fds_def Let_def split: prod.splits outcome.splits if_splits
        dest!: fill_budget)
qed

theorem fd_reader_agrees_witness:
  "list_all not_closing [Chunk [1, 2], ReadErr \<lparr>io_kind = KTimedOut, io_raw_os_error = None\<rparr>] \<and>
   fst (read_aosp_message_with_fds (map plain_event [Chunk [1, 2],
     ReadErr \<lparr>io_kind = KTimedOut, io_raw_os_error = None\<rparr>])) = Err Truncated"
  using fd_reader_agrees [of "[Chunk [1, 2], ReadErr \<lparr>io_kind = KTimedOut, io_raw_os_error = None\<rparr>]"]
  by (simp add: RpcErr_of_io_def read_aosp_message_def read_exact_raw_def WIRE_HEADER_LEN_def
      del: list.map)

end
