(* ===== verification/Rpc_State.thy ===== *)
theory Rpc_State
  imports Rpc_Handshake
begin

text \<open>
  The per-session object table, \<open>rsbinder/src/rpc/state.rs\<close>: the local objects a session has sent to
  its peer with the reference count the peer holds, the remote proxies it caches, and the ordering of
  one-way calls. Objects and proxies are identified by the address of their \<open>Arc\<close> allocation, a number.
  A hash table is a partial map. A \<open>Weak\<close> pointer is the number it points to; whether it upgrades is
  what \<open>alive\<close> says. The min-heap of parked calls is a list sorted by sequence number; the order of
  equal numbers, which \<open>BinaryHeap\<close> leaves open, is last in first out here.
\<close>

section \<open>State\<close>

type_synonym ptr = nat

record AsyncTodo =
  todo_async_number :: u64
  todo_transaction :: WireTransaction
  todo_in_fds :: "nat list"

datatype DropReason = UnknownAddress | StaleAsyncNumber

datatype AsyncDecision =
    Dispatch WireTransaction "nat list"
  | Enqueued
  | DropCall DropReason
  | Terminate usize

record LocalNode =
  node_binder :: ptr
  node_strong :: int
  next_async_number :: u64
  async_todo :: "AsyncTodo list"

record RpcState =
  local_nodes :: "RpcAddress \<rightharpoonup> LocalNode"
  local_by_ptr :: "ptr \<rightharpoonup> RpcAddress"
  remote_proxies :: "RpcAddress \<rightharpoonup> ptr"
  remote_send_async_counters :: "RpcAddress \<rightharpoonup> u64"
  addr_counter :: u64
  addr_space :: AddressSpace

definition ASYNC_TODO_TERMINATE_LEVEL :: usize where
  "ASYNC_TODO_TERMINATE_LEVEL = 10000"

definition rpc_state_new :: "AddressSpace \<Rightarrow> RpcState" where
  "rpc_state_new space =
    \<lparr>local_nodes = Map.empty, local_by_ptr = Map.empty, remote_proxies = Map.empty,
     remote_send_async_counters = Map.empty, addr_counter = 0, addr_space = space\<rparr>"

section \<open>Local objects\<close>

definition on_binder_leaving :: "ptr \<Rightarrow> RpcState \<Rightarrow> RpcAddress result \<times> RpcState" where
  "on_binder_leaving b st =
    (case local_by_ptr st b of
       Some addr \<Rightarrow>
         (Ok addr,
          (case local_nodes st addr of
             Some node \<Rightarrow> st\<lparr>local_nodes := (local_nodes st)(addr \<mapsto> node\<lparr>node_strong := node_strong node + 1\<rparr>)\<rparr>
           | None \<Rightarrow> st))
     | None \<Rightarrow>
         if unat (addr_counter st) \<ge> u32_max then (Err FailedTransaction, st)
         else
           (case addr_unique (addr_counter st) (addr_space st) of (addr, counter) \<Rightarrow>
             (Ok addr,
              st\<lparr>addr_counter := counter,
                 local_nodes := (local_nodes st)(addr \<mapsto>
                   \<lparr>node_binder = b, node_strong = 1, next_async_number = 0, async_todo = []\<rparr>),
                 local_by_ptr := (local_by_ptr st)(b \<mapsto> addr)\<rparr>)))"

definition lookup_local :: "RpcAddress \<Rightarrow> RpcState \<Rightarrow> ptr option" where
  "lookup_local addr st = map_option node_binder (local_nodes st addr)"

text \<open>\<open>local_nodes.remove(addr)\<close> and \<open>local_by_ptr.retain(|_, a| a != addr)\<close>.\<close>

definition remove_node :: "RpcAddress \<Rightarrow> RpcState \<Rightarrow> RpcState" where
  "remove_node addr st =
    st\<lparr>local_nodes := (local_nodes st)(addr := None),
       local_by_ptr := (\<lambda>p. if local_by_ptr st p = Some addr then None else local_by_ptr st p)\<rparr>"

definition dec_strong_local :: "RpcAddress \<Rightarrow> u32 \<Rightarrow> RpcState \<Rightarrow> bool \<times> RpcState" where
  "dec_strong_local addr amount st =
    (case local_nodes st addr of
       Some node \<Rightarrow>
         let node = node\<lparr>node_strong := node_strong node - int (unat amount)\<rparr>;
             st = st\<lparr>local_nodes := (local_nodes st)(addr \<mapsto> node)\<rparr>
         in if node_strong node \<le> 0 then (True, remove_node addr st) else (False, st)
     | None \<Rightarrow> (False, st))"

definition cancel_binder_leaving :: "RpcAddress \<Rightarrow> RpcState \<Rightarrow> RpcState" where
  "cancel_binder_leaving addr st =
    (case local_nodes st addr of
       Some node \<Rightarrow>
         let node = node\<lparr>node_strong := node_strong node - 1\<rparr>;
             st = st\<lparr>local_nodes := (local_nodes st)(addr \<mapsto> node)\<rparr>
         in if node_strong node \<le> 0 then remove_node addr st else st
     | None \<Rightarrow> st)"

section \<open>Remote proxies\<close>

text \<open>\<open>fresh\<close> is the allocation the closure \<open>make\<close> returns.\<close>

definition remote_proxy :: "(ptr \<Rightarrow> bool) \<Rightarrow> RpcAddress \<Rightarrow> ptr \<Rightarrow> RpcState \<Rightarrow> (ptr \<times> bool) \<times> RpcState" where
  "remote_proxy alive addr fresh st =
    (case remote_proxies st addr of
       Some p \<Rightarrow> if alive p then ((p, True), st)
                 else ((fresh, False), st\<lparr>remote_proxies := (remote_proxies st)(addr \<mapsto> fresh)\<rparr>)
     | None \<Rightarrow> ((fresh, False), st\<lparr>remote_proxies := (remote_proxies st)(addr \<mapsto> fresh)\<rparr>))"

definition forget_remote_if :: "RpcAddress \<Rightarrow> ptr \<Rightarrow> RpcState \<Rightarrow> RpcState" where
  "forget_remote_if addr who st =
    (if remote_proxies st addr = Some who
     then st\<lparr>remote_proxies := (remote_proxies st)(addr := None),
             remote_send_async_counters := (remote_send_async_counters st)(addr := None)\<rparr>
     else st)"

section \<open>One-way ordering\<close>

definition next_send_async_number :: "RpcAddress \<Rightarrow> RpcState \<Rightarrow> u64 \<times> RpcState" where
  "next_send_async_number addr st =
    (let n = (case remote_send_async_counters st addr of Some c \<Rightarrow> c | None \<Rightarrow> 0)
     in (n, st\<lparr>remote_send_async_counters := (remote_send_async_counters st)(addr \<mapsto> n + 1)\<rparr>))"

definition cancel_send_async_number :: "RpcAddress \<Rightarrow> u64 \<Rightarrow> RpcState \<Rightarrow> RpcState" where
  "cancel_send_async_number addr consumed st =
    (case remote_send_async_counters st addr of
       Some counter \<Rightarrow>
         if counter = consumed + 1
         then st\<lparr>remote_send_async_counters := (remote_send_async_counters st)(addr \<mapsto> consumed)\<rparr> else st
     | None \<Rightarrow> st)"

definition heap_push :: "AsyncTodo \<Rightarrow> AsyncTodo list \<Rightarrow> AsyncTodo list" where
  "heap_push t h = insort_key todo_async_number t h"

definition dispatch_async_or_enqueue ::
    "RpcAddress \<Rightarrow> u64 \<Rightarrow> WireTransaction \<Rightarrow> nat list \<Rightarrow> RpcState \<Rightarrow> AsyncDecision \<times> RpcState" where
  "dispatch_async_or_enqueue addr wire_async txn in_fds st =
    (case local_nodes st addr of
       None \<Rightarrow> (DropCall UnknownAddress, st)
     | Some node \<Rightarrow>
         if wire_async = next_async_number node then (Dispatch txn in_fds, st)
         else if wire_async > next_async_number node then
           let todo = heap_push \<lparr>todo_async_number = wire_async, todo_transaction = txn,
                 todo_in_fds = in_fds\<rparr> (async_todo node);
               num_pending = length todo
           in if num_pending \<ge> ASYNC_TODO_TERMINATE_LEVEL
              then (Terminate num_pending,
                st\<lparr>local_nodes := (local_nodes st)(addr \<mapsto> node\<lparr>async_todo := []\<rparr>)\<rparr>)
              else (Enqueued, st\<lparr>local_nodes := (local_nodes st)(addr \<mapsto> node\<lparr>async_todo := todo\<rparr>)\<rparr>)
         else (DropCall StaleAsyncNumber, st))"

text \<open>The \<open>while let\<close> loop that drops stale entries from the top of the heap.\<close>

fun drop_stale :: "u64 \<Rightarrow> AsyncTodo list \<Rightarrow> AsyncTodo list" where
  "drop_stale n [] = []"
| "drop_stale n (t # ts) = (if todo_async_number t \<ge> n then t # ts else drop_stale n ts)"

definition advance_and_pop_async ::
    "RpcAddress \<Rightarrow> RpcState \<Rightarrow> (WireTransaction \<times> nat list) option \<times> RpcState" where
  "advance_and_pop_async addr st =
    (case local_nodes st addr of
       None \<Rightarrow> (None, st)
     | Some node \<Rightarrow>
         let n = next_async_number node + 1;
             todo = drop_stale n (async_todo node);
             put = (\<lambda>ts. st\<lparr>local_nodes := (local_nodes st)(addr \<mapsto>
                     node\<lparr>next_async_number := n, async_todo := ts\<rparr>)\<rparr>)
         in (case todo of
               [] \<Rightarrow> (None, put [])
             | t # ts \<Rightarrow>
                 if todo_async_number t = n then (Some (todo_transaction t, todo_in_fds t), put ts)
                 else (None, put (t # ts))))"

section \<open>Well-formed tables\<close>

text \<open>The two tables of local objects mirror each other, counts are positive, every address was minted
  by this session, and parked calls are in order and below the limit.\<close>

definition minted :: "RpcState \<Rightarrow> RpcAddress \<Rightarrow> bool" where
  "minted st a \<longleftrightarrow> (\<exists>c. unat c < unat (addr_counter st) \<and> a = fst (addr_unique c (addr_space st)))"

definition node_ok :: "LocalNode \<Rightarrow> bool" where
  "node_ok n \<longleftrightarrow> 0 < node_strong n \<and> sorted (map todo_async_number (async_todo n)) \<and>
    length (async_todo n) < ASYNC_TODO_TERMINATE_LEVEL"

definition state_wf :: "RpcState \<Rightarrow> bool" where
  "state_wf st \<longleftrightarrow> unat (addr_counter st) \<le> u32_max \<and>
    (\<forall>a n. local_nodes st a = Some n \<longrightarrow>
       node_ok n \<and> minted st a \<and> local_by_ptr st (node_binder n) = Some a) \<and>
    (\<forall>p a. local_by_ptr st p = Some a \<longrightarrow> (\<exists>n. local_nodes st a = Some n \<and> node_binder n = p))"

lemma state_wfD:
  assumes "state_wf st"
  shows "unat (addr_counter st) \<le> u32_max"
    and "local_nodes st a = Some n \<Longrightarrow> node_ok n \<and> minted st a \<and> local_by_ptr st (node_binder n) = Some a"
    and "local_by_ptr st p = Some a \<Longrightarrow> \<exists>n. local_nodes st a = Some n \<and> node_binder n = p"
  using assms by (simp_all add: state_wf_def)

lemma state_wf_new: "state_wf (rpc_state_new space)"
  by (simp add: state_wf_def rpc_state_new_def)

lemma not_minted_next: "\<not> minted st (fst (addr_unique (addr_counter st) (addr_space st)))"
  by (auto simp: minted_def addr_unique_eq_iff)

lemma unat_inc: "unat (w :: u64) < u32_max \<Longrightarrow> unat (w + 1) = Suc (unat w)"
  by (simp add: unat_word_ariths)

lemma minted_step:
  assumes "addr_counter st' = addr_counter st + 1" "addr_space st' = addr_space st"
    and "unat (addr_counter st) < u32_max"
  shows "minted st' a \<longleftrightarrow> minted st a \<or> a = fst (addr_unique (addr_counter st) (addr_space st))"
proof -
  have u: "unat (addr_counter st + 1) = Suc (unat (addr_counter st))"
    using assms(3) by (rule unat_inc)
  show ?thesis
    unfolding minted_def assms(1,2) u by (auto simp: less_Suc_eq word_unat_eq_iff [symmetric])
qed

text \<open>Changing one node's count or queue, or removing it.\<close>

lemma state_wfI:
  assumes "unat (addr_counter st) \<le> u32_max"
    and "\<And>a n. local_nodes st a = Some n \<Longrightarrow> node_ok n \<and> minted st a \<and> local_by_ptr st (node_binder n) = Some a"
    and "\<And>p a. local_by_ptr st p = Some a \<Longrightarrow> \<exists>n. local_nodes st a = Some n \<and> node_binder n = p"
  shows "state_wf st"
  using assms unfolding state_wf_def by blast

lemma state_wf_put:
  assumes "state_wf st" "local_nodes st a = Some n" "node_ok n'" "node_binder n' = node_binder n"
  shows "state_wf (st\<lparr>local_nodes := (local_nodes st)(a \<mapsto> n')\<rparr>)" (is "state_wf ?t")
proof (rule state_wfI)
  show "unat (addr_counter ?t) \<le> u32_max" using state_wfD(1) [OF assms(1)] by simp
next
  fix b m
  assume "local_nodes ?t b = Some m"
  then show "node_ok m \<and> minted ?t b \<and> local_by_ptr ?t (node_binder m) = Some b"
    using state_wfD(2) [OF assms(1)] assms(2-4) by (auto simp: minted_def split: if_splits)
next
  fix p b
  assume "local_by_ptr ?t p = Some b"
  then obtain m where "local_nodes st b = Some m" "node_binder m = p"
    using state_wfD(3) [OF assms(1)] by auto
  then show "\<exists>m. local_nodes ?t b = Some m \<and> node_binder m = p" using assms(2,4) by auto
qed

lemma state_wf_remove:
  assumes "state_wf st"
  shows "state_wf (remove_node a (st\<lparr>local_nodes := (local_nodes st)(a \<mapsto> n)\<rparr>))" (is "state_wf ?t")
proof (rule state_wfI)
  show "unat (addr_counter ?t) \<le> u32_max" using state_wfD(1) [OF assms(1)] by (simp add: remove_node_def)
next
  fix b m
  assume "local_nodes ?t b = Some m"
  then have "b \<noteq> a" "local_nodes st b = Some m" by (auto simp: remove_node_def split: if_splits)
  then show "node_ok m \<and> minted ?t b \<and> local_by_ptr ?t (node_binder m) = Some b"
    using state_wfD(2) [OF assms(1)] by (auto simp: minted_def remove_node_def)
next
  fix p b
  assume "local_by_ptr ?t p = Some b"
  then have "b \<noteq> a" "local_by_ptr st p = Some b" by (auto simp: remove_node_def split: if_splits)
  then show "\<exists>m. local_nodes ?t b = Some m \<and> node_binder m = p"
    using state_wfD(3) [OF assms(1)] by (auto simp: remove_node_def)
qed

lemma cancel_is_dec: "cancel_binder_leaving a st = snd (dec_strong_local a 1 st)"
  by (simp add: cancel_binder_leaving_def dec_strong_local_def Let_def split: option.split)

lemma dec_strong_nodes:
  "local_nodes (snd (dec_strong_local a k st)) =
    (local_nodes st)(a := (case local_nodes st a of None \<Rightarrow> None
      | Some n \<Rightarrow> if node_strong n - int (unat k) \<le> 0 then None
                  else Some (n\<lparr>node_strong := node_strong n - int (unat k)\<rparr>)))"
  by (auto simp: dec_strong_local_def remove_node_def Let_def split: option.split)

lemma dec_strong_frame [simp]:
  "addr_counter (snd (dec_strong_local a k st)) = addr_counter st"
  "addr_space (snd (dec_strong_local a k st)) = addr_space st"
  "minted (snd (dec_strong_local a k st)) = minted st"
  by (simp_all add: dec_strong_local_def remove_node_def Let_def minted_def fun_eq_iff split: option.split)

lemma state_wf_dec:
  assumes "state_wf st"
  shows "state_wf (snd (dec_strong_local a k st))"
proof (cases "local_nodes st a")
  case (Some n)
  then have "node_ok n" using state_wfD(2) [OF assms] by blast
  then show ?thesis
    using Some state_wf_remove [OF assms]
      state_wf_put [OF assms Some, of "n\<lparr>node_strong := node_strong n - int (unat k)\<rparr>"]
    by (simp add: dec_strong_local_def Let_def node_ok_def)
qed (simp add: dec_strong_local_def assms)

lemma leaving_nodes:
  assumes "state_wf st" "on_binder_leaving b st = (Ok a, st')"
  shows "state_wf st'"
    and "\<exists>n. local_nodes st' = (local_nodes st)(a \<mapsto> n) \<and> node_binder n = b \<and>
      (case local_nodes st a of Some m \<Rightarrow> node_binder m = b \<and> node_strong n = node_strong m + 1
       | None \<Rightarrow> node_strong n = 1 \<and> \<not> minted st a)"
    and "minted st' x \<longleftrightarrow> minted st x \<or> x = a"
proof -
  have *: "state_wf st' \<and> (\<exists>n. local_nodes st' = (local_nodes st)(a \<mapsto> n) \<and> node_binder n = b \<and>
      (case local_nodes st a of Some m \<Rightarrow> node_binder m = b \<and> node_strong n = node_strong m + 1
       | None \<Rightarrow> node_strong n = 1 \<and> \<not> minted st a)) \<and> (minted st' x \<longleftrightarrow> minted st x \<or> x = a)" for x
  proof (cases "local_by_ptr st b")
    case (Some c)
    then obtain m where m: "local_nodes st c = Some m" "node_binder m = b"
      using state_wfD(3) [OF assms(1)] by blast
    then have ok: "node_ok m" "minted st c" using state_wfD(2) [OF assms(1)] by blast+
    then have "node_ok (m\<lparr>node_strong := node_strong m + 1\<rparr>)" by (simp add: node_ok_def)
    with m ok Some assms(2) state_wf_put [OF assms(1) m(1) this] show ?thesis
      by (auto simp: on_binder_leaving_def minted_def)
  next
    case None
    define f where "f = fst (addr_unique (addr_counter st) (addr_space st))"
    have lt: "unat (addr_counter st) < u32_max" and a: "a = f"
      and st': "st' = st\<lparr>addr_counter := addr_counter st + 1,
        local_nodes := (local_nodes st)(f \<mapsto>
          \<lparr>node_binder = b, node_strong = 1, next_async_number = 0, async_todo = []\<rparr>),
        local_by_ptr := (local_by_ptr st)(b \<mapsto> f)\<rparr>"
      using assms(2) None
      by (auto simp: on_binder_leaving_def f_def case_prod_unfold not_le split: if_splits)
    have mint: "minted st' x \<longleftrightarrow> minted st x \<or> x = f" for x
      using minted_step [of st' st x] lt st' by (simp add: f_def)
    have nf: "\<not> minted st f" unfolding f_def by (rule not_minted_next)
    then have free: "local_nodes st f = None" using state_wfD(2) [OF assms(1)] by (cases "local_nodes st f") auto
    have u: "unat (addr_counter st + 1) = Suc (unat (addr_counter st))"
      using lt by (rule unat_inc)
    have np: "local_by_ptr st p \<noteq> Some f" for p
      using state_wfD(3) [OF assms(1), of p f] free by auto
    have "state_wf st'"
      unfolding state_wf_def mint using np assms(1) None free nf lt u
      by (auto simp: st' state_wf_def node_ok_def ASYNC_TODO_TERMINATE_LEVEL_def)
    moreover have "\<exists>n. local_nodes st' = (local_nodes st)(a \<mapsto> n) \<and> node_binder n = b \<and> node_strong n = 1"
      using st' a by (intro exI [of _ "\<lparr>node_binder = b, node_strong = 1, next_async_number = 0,
        async_todo = []\<rparr>"]) simp
    ultimately show ?thesis using mint nf free a by simp
  qed
  show "state_wf st'" "\<exists>n. local_nodes st' = (local_nodes st)(a \<mapsto> n) \<and> node_binder n = b \<and>
      (case local_nodes st a of Some m \<Rightarrow> node_binder m = b \<and> node_strong n = node_strong m + 1
       | None \<Rightarrow> node_strong n = 1 \<and> \<not> minted st a)" "minted st' x \<longleftrightarrow> minted st x \<or> x = a"
    using * by blast+
qed

lemma minted_addr_ok:
  assumes "state_wf st" "minted st x"
  shows "a13_addr_ok x \<and> addr_ok x \<and> \<not> is_zero x"
proof -
  obtain c where c: "unat c < unat (addr_counter st)" "x = fst (addr_unique c (addr_space st))"
    using assms(2) by (auto simp: minted_def)
  have "unat c < u32_max" using c(1) state_wfD(1) [OF assms(1)] by simp
  then have "unat (c + 1) < 2 ^ 32" by (simp add: unat_inc)
  then show ?thesis using c(2) addr_unique_a13_ok addr_unique_not_zero by simp
qed

lemma decode_encode_addr: "a13_addr_ok x \<Longrightarrow> decode_addr (encode_addr x) 0 = Ok x"
  by (rule decode_addr_encode_addr [where rest = "[]"]) simp_all

section \<open>Properties\<close>

text \<open>Live addresses survive the wire. Every address of a session's live objects is carried exactly by
  both wire formats, and two live objects never share an 8-byte android-13+ address: the cap on the
  address counter makes the 32-bit truncation harmless.\<close>

theorem live_addresses_travel:
  assumes "state_wf st" "local_nodes st a = Some n" "local_nodes st b = Some m"
  shows "decode_addr (encode_addr a) 0 = Ok a \<and> rd_addr (as_wire_bytes a) 0 = Ok a \<and>
    (encode_addr a = encode_addr b \<longleftrightarrow> a = b) \<and> \<not> is_zero a"
proof -
  have min: "minted st a" "minted st b"
    using state_wfD(2) [OF assms(1)] assms(2,3) by blast+
  have ok: "a13_addr_ok a" "addr_ok a" "\<not> is_zero a" "a13_addr_ok b"
    using minted_addr_ok [OF assms(1) min(1)] minted_addr_ok [OF assms(1) min(2)] by simp_all
  have da: "decode_addr (encode_addr a) 0 = Ok a" and db: "decode_addr (encode_addr b) 0 = Ok b"
    by (rule decode_encode_addr [OF ok(1)], rule decode_encode_addr [OF ok(4)])
  have "encode_addr a = encode_addr b \<longleftrightarrow> a = b"
  proof
    assume "encode_addr a = encode_addr b"
    then have "Ok a = (Ok b :: RpcAddress rpc_result)" using da db by (simp only:)
    then show "a = b" by simp
  qed simp
  moreover have "rd_addr (as_wire_bytes a) 0 = Ok a"
    using ok(2) by (intro rd_addr_at [where rest = "[]"]) simp_all
  ultimately show ?thesis using da ok(3) by simp
qed

theorem live_addresses_travel_witness:
  "\<exists>st a n. state_wf st \<and> local_nodes st a = Some n \<and> decode_addr (encode_addr a) 0 = Ok a"
proof -
  let ?r = "on_binder_leaving 7 (rpc_state_new Acceptor)"
  obtain a st where r: "?r = (Ok a, st)"
    by (simp add: rpc_state_new_def on_binder_leaving_def case_prod_unfold)
  have wf: "state_wf st" by (rule leaving_nodes(1) [OF state_wf_new r])
  obtain n where n: "local_nodes st a = Some n"
    using leaving_nodes(2) [OF state_wf_new r] by auto
  show ?thesis using live_addresses_travel [OF wf n n] wf n by blast
qed

text \<open>\<open>n\<close> further one-way sends to \<open>a\<close>: the state, and the number the next one would get.\<close>

fun send_oneways :: "nat \<Rightarrow> RpcAddress \<Rightarrow> RpcState \<Rightarrow> RpcState" where
  "send_oneways 0 a st = st"
| "send_oneways (Suc n) a st = send_oneways n a (snd (next_send_async_number a st))"

lemma send_oneways_counter:
  "remote_send_async_counters st a = Some c \<Longrightarrow>
    remote_send_async_counters (send_oneways n a st) a = Some (c + of_nat n)"
  by (induction n arbitrary: st c) (simp_all add: next_send_async_number_def Let_def add.assoc)

lemma send_oneways_fresh:
  assumes "remote_send_async_counters st a = None"
  shows "fst (next_send_async_number a (send_oneways n a st)) = of_nat n"
proof (cases n)
  case (Suc k)
  have "remote_send_async_counters (snd (next_send_async_number a st)) a = Some 1"
    using assms by (simp add: next_send_async_number_def Let_def)
  from send_oneways_counter [OF this, of k] Suc show ?thesis
    by (simp add: next_send_async_number_def Let_def)
qed (use assms in \<open>simp add: next_send_async_number_def Let_def\<close>)

text \<open>Forgetting a proxy restarts its numbering. When a proxy is dropped and its address comes back
  while the peer's object lives on, the next one-way calls are numbered from zero again, and the peer
  silently drops as stale every one of them whose number is below what it expects: as many calls are
  lost as it had received before, not one.\<close>

theorem forgotten_numbering_loses_calls:
  assumes "remote_proxies st a = Some p" "local_nodes peer a = Some node"
    and "n < unat (next_async_number node)"
  shows "dispatch_async_or_enqueue a
      (fst (next_send_async_number a (send_oneways n a (forget_remote_if a p st)))) t fds peer =
    (DropCall StaleAsyncNumber, peer)"
proof -
  have "remote_send_async_counters (forget_remote_if a p st) a = None"
    using assms(1) by (simp add: forget_remote_if_def)
  from send_oneways_fresh [OF this, of n]
  have eq: "fst (next_send_async_number a (send_oneways n a (forget_remote_if a p st))) = of_nat n" .
  have "n < 2 ^ 64" using assms(3) unsigned_less [of "next_async_number node", where ?'a = nat] by simp
  then have "unat (of_nat n :: u64) = n" by (simp add: unat_of_nat)
  then have "(of_nat n :: u64) < next_async_number node" using assms(3) by (simp add: word_less_nat_alt)
  then have "of_nat n \<noteq> next_async_number node" "\<not> of_nat n > next_async_number node" by auto
  then show ?thesis using assms(2) by (simp add: eq dispatch_async_or_enqueue_def)
qed

definition demo_peer :: RpcState where
  "demo_peer = (rpc_state_new Acceptor)\<lparr>local_nodes := [addr_zero \<mapsto>
    \<lparr>node_binder = 7, node_strong = 1, next_async_number = 5, async_todo = []\<rparr>]\<rparr>"

theorem forgotten_numbering_loses_calls_witness:
  "fst (dispatch_async_or_enqueue addr_zero
      (fst (next_send_async_number addr_zero (send_oneways 3 addr_zero
        (forget_remote_if addr_zero 9 ((rpc_state_new Initiator)\<lparr>remote_proxies := [addr_zero \<mapsto> 9]\<rparr>)))))
      demo_txn [] demo_peer) = DropCall StaleAsyncNumber"
  using forgotten_numbering_loses_calls
    [of "(rpc_state_new Initiator)\<lparr>remote_proxies := [addr_zero \<mapsto> 9]\<rparr>" addr_zero 9 demo_peer _ 3 demo_txn "[]"]
  by (simp add: demo_peer_def)

end
