(* ===== verification/Rpc_Refs.thy ===== *)
theory Rpc_Refs
  imports Rpc_State Transition
begin

text \<open>
  Reference counting between the two ends of an RPC session. The owner sends objects, the user caches
  proxies and returns one \<open>DEC_STRONG\<close> per reference, over any number of connections, so messages of
  different kinds overtake each other. The steps are the calls \<open>RpcSessionInner\<close> makes on the two
  object tables (\<open>rpc/session.rs\<close>: \<open>write_binder\<close>, \<open>rollback_outgoing\<close>, \<open>read_binder\<close>,
  \<open>serve_once_on_slot\<close>) and the two halves of a proxy's death (\<open>rpc/proxy.rs\<close>: the last \<open>Arc\<close> goes,
  then \<open>Drop\<close> runs), interleaved arbitrarily.
\<close>

section \<open>The system\<close>

text \<open>\<open>lk_sent a\<close> counts transmissions of \<open>a\<close> under way or reserved, \<open>lk_decs a\<close> the decrements under way;
  \<open>lk_proxy p\<close> is the address of the proxy allocated at \<open>p\<close> and whether it is still alive, until its
  \<open>Drop\<close> has run; \<open>lk_obj\<close> records which object an address was minted for.\<close>

record rpc_link =
  lk_owner :: RpcState
  lk_user :: RpcState
  lk_sent :: "RpcAddress \<Rightarrow> nat"
  lk_decs :: "RpcAddress \<Rightarrow> nat"
  lk_proxy :: "ptr \<rightharpoonup> RpcAddress \<times> bool"
  lk_obj :: "RpcAddress \<rightharpoonup> ptr"

definition lk_alive :: "rpc_link \<Rightarrow> ptr \<Rightarrow> bool" where
  "lk_alive \<sigma> p \<longleftrightarrow> (case lk_proxy \<sigma> p of Some (_, l) \<Rightarrow> l | None \<Rightarrow> False)"

text \<open>An allocation is fresh if no proxy occupies it and no \<open>Weak\<close> in the cache keeps it reserved.\<close>

definition lk_fresh :: "rpc_link \<Rightarrow> ptr \<Rightarrow> bool" where
  "lk_fresh \<sigma> p \<longleftrightarrow> lk_proxy \<sigma> p = None \<and> p \<notin> ran (remote_proxies (lk_user \<sigma>))"

definition link_init :: "rpc_link \<Rightarrow> bool" where
  "link_init \<sigma> \<longleftrightarrow> lk_owner \<sigma> = rpc_state_new (addr_space (lk_owner \<sigma>)) \<and>
    lk_user \<sigma> = rpc_state_new (addr_space (lk_user \<sigma>)) \<and>
    lk_sent \<sigma> = (\<lambda>_. 0) \<and> lk_decs \<sigma> = (\<lambda>_. 0) \<and> lk_proxy \<sigma> = Map.empty \<and> lk_obj \<sigma> = Map.empty"

inductive link_step :: "rpc_link \<Rightarrow> rpc_link \<Rightarrow> bool" where
  send: "on_binder_leaving b (lk_owner \<sigma>) = (Ok a, ow) \<Longrightarrow>
    link_step \<sigma> (\<sigma>\<lparr>lk_owner := ow, lk_sent := (lk_sent \<sigma>)(a := lk_sent \<sigma> a + 1),
      lk_obj := (lk_obj \<sigma>)(a \<mapsto> b)\<rparr>)"
| rollback: "0 < lk_sent \<sigma> a \<Longrightarrow>
    link_step \<sigma> (\<sigma>\<lparr>lk_owner := cancel_binder_leaving a (lk_owner \<sigma>),
      lk_sent := (lk_sent \<sigma>)(a := lk_sent \<sigma> a - 1)\<rparr>)"
| receive_again: "0 < lk_sent \<sigma> a \<Longrightarrow> lk_fresh \<sigma> p \<Longrightarrow>
    remote_proxy (lk_alive \<sigma>) a p (lk_user \<sigma>) = ((q, True), us) \<Longrightarrow>
    link_step \<sigma> (\<sigma>\<lparr>lk_user := us, lk_sent := (lk_sent \<sigma>)(a := lk_sent \<sigma> a - 1),
      lk_decs := (lk_decs \<sigma>)(a := lk_decs \<sigma> a + 1)\<rparr>)"
| receive_new: "0 < lk_sent \<sigma> a \<Longrightarrow> lk_fresh \<sigma> p \<Longrightarrow>
    remote_proxy (lk_alive \<sigma>) a p (lk_user \<sigma>) = ((q, False), us) \<Longrightarrow>
    link_step \<sigma> (\<sigma>\<lparr>lk_user := us, lk_sent := (lk_sent \<sigma>)(a := lk_sent \<sigma> a - 1),
      lk_proxy := (lk_proxy \<sigma>)(p \<mapsto> (a, True))\<rparr>)"
| last_ref: "lk_proxy \<sigma> p = Some (a, True) \<Longrightarrow>
    link_step \<sigma> (\<sigma>\<lparr>lk_proxy := (lk_proxy \<sigma>)(p \<mapsto> (a, False))\<rparr>)"
| drop_runs: "lk_proxy \<sigma> p = Some (a, False) \<Longrightarrow>
    link_step \<sigma> (\<sigma>\<lparr>lk_user := forget_remote_if a p (lk_user \<sigma>), lk_proxy := (lk_proxy \<sigma>)(p := None),
      lk_decs := (lk_decs \<sigma>)(a := lk_decs \<sigma> a + 1)\<rparr>)"
| dec_strong: "unat k \<le> lk_decs \<sigma> a \<Longrightarrow>
    link_step \<sigma> (\<sigma>\<lparr>lk_owner := snd (dec_strong_local a k (lk_owner \<sigma>)),
      lk_decs := (lk_decs \<sigma>)(a := lk_decs \<sigma> a - unat k)\<rparr>)"

section \<open>The invariant\<close>

text \<open>The references to \<open>a\<close> that the owner still has to account for.\<close>

definition proxies_at :: "rpc_link \<Rightarrow> RpcAddress \<Rightarrow> ptr set" where
  "proxies_at \<sigma> a = {p. \<exists>l. lk_proxy \<sigma> p = Some (a, l)}"

definition outstanding :: "rpc_link \<Rightarrow> RpcAddress \<Rightarrow> nat" where
  "outstanding \<sigma> a = lk_sent \<sigma> a + lk_decs \<sigma> a + card (proxies_at \<sigma> a)"

definition balanced :: "rpc_link \<Rightarrow> RpcAddress \<Rightarrow> bool" where
  "balanced \<sigma> a \<longleftrightarrow>
    (case local_nodes (lk_owner \<sigma>) a of
       Some n \<Rightarrow> node_strong n = int (outstanding \<sigma> a) \<and> lk_obj \<sigma> a = Some (node_binder n)
     | None \<Rightarrow> outstanding \<sigma> a = 0)"

definition link_inv :: "rpc_link \<Rightarrow> bool" where
  "link_inv \<sigma> \<longleftrightarrow> state_wf (lk_owner \<sigma>) \<and> finite (dom (lk_proxy \<sigma>)) \<and>
    (\<forall>a. balanced \<sigma> a) \<and>
    (\<forall>p a. lk_proxy \<sigma> p = Some (a, True) \<longrightarrow> remote_proxies (lk_user \<sigma>) a = Some p)"

lemma finite_proxies_at: "finite (dom (lk_proxy \<sigma>)) \<Longrightarrow> finite (proxies_at \<sigma> a)"
  by (rule finite_subset [of _ "dom (lk_proxy \<sigma>)"]) (auto simp: proxies_at_def)

lemma link_invD:
  assumes "link_inv \<sigma>"
  shows "state_wf (lk_owner \<sigma>)" "finite (dom (lk_proxy \<sigma>))" "balanced \<sigma> a" "finite (proxies_at \<sigma> a)"
    and "lk_proxy \<sigma> p = Some (a, True) \<Longrightarrow> remote_proxies (lk_user \<sigma>) a = Some p"
  using assms finite_proxies_at by (simp_all add: link_inv_def)

lemma remote_proxy_cases:
  "remote_proxy alive a p st = ((q, ex), st') \<Longrightarrow>
    if ex then st' = st \<and> remote_proxies st a = Some q \<and> alive q
    else q = p \<and> st' = st\<lparr>remote_proxies := (remote_proxies st)(a \<mapsto> p)\<rparr> \<and>
      (\<forall>r. remote_proxies st a = Some r \<longrightarrow> \<not> alive r)"
  by (auto simp: remote_proxy_def split: option.splits if_splits)

text \<open>Returning \<open>k\<close> references of \<open>a\<close> to the owner keeps every account balanced.\<close>

lemma balanced_dec:
  assumes "balanced \<sigma> b" "state_wf (lk_owner \<sigma>)"
    and "lk_owner \<tau> = snd (dec_strong_local a k (lk_owner \<sigma>))" "lk_obj \<tau> = lk_obj \<sigma>"
    and "outstanding \<sigma> b = outstanding \<tau> b + (if b = a then unat k else 0)"
  shows "balanced \<tau> b"
  using assms by (auto simp: balanced_def dec_strong_nodes split: option.splits if_splits)

lemma balanced_same:
  assumes "balanced \<sigma> b" "lk_owner \<tau> = lk_owner \<sigma>" "lk_obj \<tau> = lk_obj \<sigma>"
    and "outstanding \<tau> b = outstanding \<sigma> b"
  shows "balanced \<tau> b"
  using assms by (simp add: balanced_def split: option.splits)

lemma link_inv_init: "link_init \<sigma> \<Longrightarrow> link_inv \<sigma>"
proof -
  assume i: "link_init \<sigma>"
  then have ow: "lk_owner \<sigma> = rpc_state_new (addr_space (lk_owner \<sigma>))" by (simp add: link_init_def)
  then have "local_nodes (lk_owner \<sigma>) = Map.empty" by (metis rpc_state_new_def RpcState.select_convs(1))
  moreover have "state_wf (lk_owner \<sigma>)" by (subst ow) (rule state_wf_new)
  ultimately show ?thesis
    using i by (simp add: link_inv_def link_init_def balanced_def outstanding_def proxies_at_def)
qed

lemma link_inv_send:
  assumes inv: "link_inv \<sigma>" and lv: "on_binder_leaving b (lk_owner \<sigma>) = (Ok a, ow)"
    and \<tau>: "\<tau> = \<sigma>\<lparr>lk_owner := ow, lk_sent := (lk_sent \<sigma>)(a := lk_sent \<sigma> a + 1), lk_obj := (lk_obj \<sigma>)(a \<mapsto> b)\<rparr>"
  shows "link_inv \<tau>"
proof -
  note d = link_invD [OF inv]
  obtain n where n: "local_nodes ow = (local_nodes (lk_owner \<sigma>))(a \<mapsto> n)" "node_binder n = b"
    "case local_nodes (lk_owner \<sigma>) a of Some m \<Rightarrow> node_binder m = b \<and> node_strong n = node_strong m + 1
     | None \<Rightarrow> node_strong n = 1 \<and> \<not> minted (lk_owner \<sigma>) a"
    using leaving_nodes(2) [OF d(1) lv] by blast
  have "balanced \<tau> c" for c
  proof -
    have "proxies_at \<tau> c = proxies_at \<sigma> c" by (simp add: proxies_at_def \<tau>)
    then show ?thesis
      using d(3) [of c] n by (auto simp: balanced_def outstanding_def \<tau> split: option.splits)
  qed
  then show ?thesis
    using d(2,5) leaving_nodes(1) [OF d(1) lv] by (simp add: link_inv_def \<tau>)
qed

lemma link_inv_receive_new:
  assumes inv: "link_inv \<sigma>" and s: "0 < lk_sent \<sigma> a" and fr: "lk_fresh \<sigma> p"
    and rp: "remote_proxy (lk_alive \<sigma>) a p (lk_user \<sigma>) = ((q, False), us)"
    and \<tau>: "\<tau> = \<sigma>\<lparr>lk_user := us, lk_sent := (lk_sent \<sigma>)(a := lk_sent \<sigma> a - 1),
      lk_proxy := (lk_proxy \<sigma>)(p \<mapsto> (a, True))\<rparr>"
  shows "link_inv \<tau>"
proof -
  note d = link_invD [OF inv]
  have us: "us = (lk_user \<sigma>)\<lparr>remote_proxies := (remote_proxies (lk_user \<sigma>))(a \<mapsto> p)\<rparr>"
    and dead: "remote_proxies (lk_user \<sigma>) a = Some r \<Longrightarrow> \<not> lk_alive \<sigma> r" for r
    using remote_proxy_cases [OF rp] by auto
  have np: "lk_proxy \<sigma> p = None" using fr by (simp add: lk_fresh_def)
  have "balanced \<tau> c" for c
  proof (rule balanced_same [OF d(3)])
    have "proxies_at \<tau> c = (if c = a then insert p (proxies_at \<sigma> c) else proxies_at \<sigma> c)"
      using np by (auto simp: proxies_at_def \<tau> split: if_splits)
    moreover have "p \<notin> proxies_at \<sigma> a" using np by (simp add: proxies_at_def)
    ultimately show "outstanding \<tau> c = outstanding \<sigma> c"
      using d(4) [of a] s by (cases "c = a") (simp_all add: outstanding_def \<tau>)
  qed (simp_all add: \<tau>)
  moreover have "lk_proxy \<tau> r = Some (c, True) \<longrightarrow> remote_proxies (lk_user \<tau>) c = Some r" for r c
    using d(5) [of r c] dead [of r] by (auto simp: \<tau> us lk_alive_def)
  ultimately show ?thesis using d(1,2) by (simp add: link_inv_def \<tau>)
qed

lemma link_inv_drop:
  assumes inv: "link_inv \<sigma>" and p: "lk_proxy \<sigma> p = Some (a, False)"
    and \<tau>: "\<tau> = \<sigma>\<lparr>lk_user := forget_remote_if a p (lk_user \<sigma>), lk_proxy := (lk_proxy \<sigma>)(p := None),
      lk_decs := (lk_decs \<sigma>)(a := lk_decs \<sigma> a + 1)\<rparr>"
  shows "link_inv \<tau>"
proof -
  note d = link_invD [OF inv]
  have "balanced \<tau> c" for c
  proof (rule balanced_same [OF d(3)])
    have "proxies_at \<tau> c = proxies_at \<sigma> c - {p}" by (auto simp: proxies_at_def \<tau> split: if_splits)
    moreover have "p \<in> proxies_at \<sigma> c \<longleftrightarrow> c = a" using p by (auto simp: proxies_at_def)
    moreover have "c = a \<Longrightarrow> card (proxies_at \<sigma> c) = Suc (card (proxies_at \<sigma> c - {p}))"
      using card.remove [OF d(4) [of c], of p] calculation(2) by simp
    ultimately show "outstanding \<tau> c = outstanding \<sigma> c" by (auto simp: outstanding_def \<tau>)
  qed (simp_all add: \<tau>)
  moreover have "lk_proxy \<tau> r = Some (c, True) \<longrightarrow> remote_proxies (lk_user \<tau>) c = Some r" for r c
    using d(5) [of r c] p by (auto simp: \<tau> forget_remote_if_def)
  ultimately show ?thesis using d(1,2) by (simp add: link_inv_def \<tau>)
qed

lemma link_inv_dec:
  assumes inv: "link_inv \<sigma>" and ow: "lk_owner \<tau> = snd (dec_strong_local a k (lk_owner \<sigma>))"
    and same: "lk_obj \<tau> = lk_obj \<sigma>" "lk_proxy \<tau> = lk_proxy \<sigma>" "lk_user \<tau> = lk_user \<sigma>"
    and out: "\<And>b. lk_sent \<sigma> b + lk_decs \<sigma> b = lk_sent \<tau> b + lk_decs \<tau> b + (if b = a then unat k else 0)"
  shows "link_inv \<tau>"
proof -
  note d = link_invD [OF inv]
  have "proxies_at \<tau> = proxies_at \<sigma>" by (simp add: fun_eq_iff proxies_at_def same)
  then have "balanced \<tau> b" for b
    using balanced_dec [OF d(3) d(1) ow same(1), of b] out [of b] by (simp add: outstanding_def)
  then show ?thesis using d state_wf_dec [OF d(1)] by (simp add: link_inv_def same ow)
qed

lemma link_inv_step:
  assumes "link_inv \<sigma>" "link_step \<sigma> \<tau>"
  shows "link_inv \<tau>"
  using assms(2)
proof cases
  case (send b a ow)
  then show ?thesis using link_inv_send [OF assms(1)] by blast
next
  case (rollback a)
  then show ?thesis
    by (intro link_inv_dec [OF assms(1), where a = a and k = 1]) (auto simp: cancel_is_dec)
next
  case (receive_again a p q us)
  then have "us = lk_user \<sigma>" using remote_proxy_cases by fastforce
  with receive_again have "balanced \<tau> b" for b
    by (intro balanced_same [OF link_invD(3) [OF assms(1)]]) (simp_all add: outstanding_def proxies_at_def)
  with receive_again \<open>us = lk_user \<sigma>\<close> link_invD [OF assms(1)] show ?thesis by (simp add: link_inv_def)
next
  case (receive_new a p q us)
  then show ?thesis using link_inv_receive_new [OF assms(1)] by blast
next
  case (last_ref p a)
  then have "proxies_at \<tau> = proxies_at \<sigma>" by (auto simp: fun_eq_iff proxies_at_def)
  with last_ref have "balanced \<tau> b" for b
    by (intro balanced_same [OF link_invD(3) [OF assms(1)]]) (simp_all add: outstanding_def)
  with last_ref link_invD [OF assms(1)] show ?thesis by (auto simp: link_inv_def split: if_splits)
next
  case (drop_runs p a)
  then show ?thesis using link_inv_drop [OF assms(1)] by blast
next
  case (dec_strong k a)
  then show ?thesis by (intro link_inv_dec [OF assms(1), where a = a and k = k]) auto
qed

interpretation rpc_refs: inductive_invariant link_init link_step link_inv
  by unfold_locales (auto intro: link_inv_init link_inv_step)

section \<open>Properties\<close>

text \<open>C23: Remote references are counted exactly. In every state of a session, however sends, receipts,
  roll-backs, proxy deaths and (possibly batched) decrements interleave over its connections: an
  address that a proxy uses or a message carries resolves at the owner to the very object it was minted
  for; the owner keeps the object's entry exactly as long as some transmission, decrement or proxy for
  it exists, so nothing dangles and nothing leaks; and the user never has two live proxies for one
  address.\<close>

theorem rpc_references_balanced:
  assumes "reach link_init link_step \<sigma>"
  shows "(lk_proxy \<sigma> p = Some (a, l) \<or> 0 < lk_sent \<sigma> a \<longrightarrow>
      lookup_local a (lk_owner \<sigma>) = lk_obj \<sigma> a \<and> lk_obj \<sigma> a \<noteq> None) \<and>
    (local_nodes (lk_owner \<sigma>) a = None \<longleftrightarrow>
      lk_sent \<sigma> a = 0 \<and> lk_decs \<sigma> a = 0 \<and> proxies_at \<sigma> a = {}) \<and>
    (lk_proxy \<sigma> p = Some (a, True) \<and> lk_proxy \<sigma> q = Some (a, True) \<longrightarrow> p = q)"
proof -
  have inv: "link_inv \<sigma>" by (rule rpc_refs.inv_reach [OF assms])
  note d = link_invD [OF inv]
  have used: "lk_proxy \<sigma> p = Some (a, l) \<or> 0 < lk_sent \<sigma> a \<Longrightarrow> 0 < outstanding \<sigma> a"
    using d(4) [of a] by (auto simp: outstanding_def card_gt_0_iff proxies_at_def)
  have node: "local_nodes (lk_owner \<sigma>) a = None \<longleftrightarrow> outstanding \<sigma> a = 0"
    using d(3) [of a] state_wfD(2) [OF d(1), of a] by (auto simp: balanced_def node_ok_def split: option.splits)
  have "lookup_local a (lk_owner \<sigma>) = lk_obj \<sigma> a \<and> lk_obj \<sigma> a \<noteq> None" if "0 < outstanding \<sigma> a"
    using d(3) [of a] that by (auto simp: balanced_def lookup_local_def split: option.splits)
  then show ?thesis
    using used node d(4) [of a] d(5) [of p a] d(5) [of q a] by (auto simp: outstanding_def)
qed

definition demo_link :: rpc_link where
  "demo_link = \<lparr>lk_owner = rpc_state_new Acceptor, lk_user = rpc_state_new Initiator, lk_sent = (\<lambda>_. 0),
    lk_decs = (\<lambda>_. 0), lk_proxy = Map.empty, lk_obj = Map.empty\<rparr>"

theorem rpc_references_balanced_witness:
  "\<exists>\<sigma> a. reach link_init link_step \<sigma> \<and> lk_proxy \<sigma> 5 = Some (a, True) \<and>
    lookup_local a (lk_owner \<sigma>) = Some 7 \<and> local_nodes (lk_owner \<sigma>) a \<noteq> None"
proof -
  let ?a = "fst (addr_unique 0 Acceptor)"
  obtain ow where ow: "on_binder_leaving 7 (lk_owner demo_link) = (Ok ?a, ow)"
    by (simp add: demo_link_def rpc_state_new_def on_binder_leaving_def case_prod_unfold)
  let ?s = "demo_link\<lparr>lk_owner := ow, lk_sent := (lk_sent demo_link)(?a := lk_sent demo_link ?a + 1),
    lk_obj := (lk_obj demo_link)(?a \<mapsto> 7)\<rparr>"
  obtain us where us: "remote_proxy (lk_alive ?s) ?a 5 (lk_user ?s) = ((5, False), us)"
    by (simp add: demo_link_def rpc_state_new_def remote_proxy_def)
  let ?t = "?s\<lparr>lk_user := us, lk_sent := (lk_sent ?s)(?a := lk_sent ?s ?a - 1),
    lk_proxy := (lk_proxy ?s)(5 \<mapsto> (?a, True))\<rparr>"
  have "reach link_init link_step demo_link"
    by (rule reach_init) (simp add: link_init_def demo_link_def rpc_state_new_def)
  then have "reach link_init link_step ?s" by (rule reach_step) (rule send [OF ow])
  then have r: "reach link_init link_step ?t"
    by (rule reach_step) (rule receive_new [OF _ _ us]; simp add: lk_fresh_def demo_link_def rpc_state_new_def)
  have "lk_proxy ?t 5 = Some (?a, True)" "lk_obj ?t ?a = Some 7" by simp_all
  with rpc_references_balanced [OF r, of 5 ?a True 5] r show ?thesis
    by (intro exI [of _ ?t] exI [of _ ?a]) (auto simp: lookup_local_def)
qed

end
