(* ===== verification/Rpc_Oneway.thy ===== *)
theory Rpc_Oneway
  imports Rpc_State Transition "HOL-Library.Multiset"
begin

text \<open>
  Ordered delivery of one-way calls to one object (\<open>rpc/session.rs\<close>, \<open>dispatch_oneway_ordered\<close>). Any
  number of connection threads receive calls for the object and run the handler outside the state lock,
  so the system interleaves what each does under the lock: \<open>dispatch_async_or_enqueue\<close> when a call
  arrives, \<open>advance_and_pop_async\<close> when a handler has returned.
\<close>

section \<open>The system\<close>

text \<open>\<open>ow_busy\<close> counts the threads inside the handler, \<open>ow_log\<close> lists the calls in the order their
  handlers were started, \<open>ow_seen\<close> holds the numbers received, \<open>ow_lost\<close> tells that a backlog was
  flushed. A peer numbers its calls from zero, uses no number twice and stops before the counter wraps.\<close>

record oneway_sys =
  ow_st :: RpcState
  ow_busy :: nat
  ow_log :: "WireTransaction list"
  ow_seen :: "u64 set"
  ow_lost :: bool

definition oneway_init :: "RpcAddress \<Rightarrow> oneway_sys \<Rightarrow> bool" where
  "oneway_init a \<sigma> \<longleftrightarrow>
    (\<exists>n. local_nodes (ow_st \<sigma>) a = Some n \<and> next_async_number n = 0 \<and> async_todo n = []) \<and>
    ow_busy \<sigma> = 0 \<and> ow_log \<sigma> = [] \<and> ow_seen \<sigma> = {} \<and> \<not> ow_lost \<sigma>"

inductive oneway_step :: "RpcAddress \<Rightarrow> oneway_sys \<Rightarrow> oneway_sys \<Rightarrow> bool" for a where
  arrive_run: "async_number t \<notin> ow_seen \<sigma> \<Longrightarrow> unat (async_number t) < 2 ^ 64 - 1 \<Longrightarrow>
    dispatch_async_or_enqueue a (async_number t) t fds (ow_st \<sigma>) = (Dispatch t' fds', st) \<Longrightarrow>
    oneway_step a \<sigma> (\<sigma>\<lparr>ow_st := st, ow_busy := ow_busy \<sigma> + 1, ow_log := ow_log \<sigma> @ [t'],
      ow_seen := insert (async_number t) (ow_seen \<sigma>)\<rparr>)"
| arrive_park: "async_number t \<notin> ow_seen \<sigma> \<Longrightarrow> unat (async_number t) < 2 ^ 64 - 1 \<Longrightarrow>
    dispatch_async_or_enqueue a (async_number t) t fds (ow_st \<sigma>) = (Enqueued, st) \<Longrightarrow>
    oneway_step a \<sigma> (\<sigma>\<lparr>ow_st := st, ow_seen := insert (async_number t) (ow_seen \<sigma>)\<rparr>)"
| arrive_flush: "async_number t \<notin> ow_seen \<sigma> \<Longrightarrow> unat (async_number t) < 2 ^ 64 - 1 \<Longrightarrow>
    dispatch_async_or_enqueue a (async_number t) t fds (ow_st \<sigma>) = (Terminate m, st) \<Longrightarrow>
    oneway_step a \<sigma> (\<sigma>\<lparr>ow_st := st, ow_seen := insert (async_number t) (ow_seen \<sigma>), ow_lost := True\<rparr>)"
| finish_next: "0 < ow_busy \<sigma> \<Longrightarrow> advance_and_pop_async a (ow_st \<sigma>) = (Some (t, fds), st) \<Longrightarrow>
    oneway_step a \<sigma> (\<sigma>\<lparr>ow_st := st, ow_log := ow_log \<sigma> @ [t]\<rparr>)"
| finish_idle: "0 < ow_busy \<sigma> \<Longrightarrow> advance_and_pop_async a (ow_st \<sigma>) = (None, st) \<Longrightarrow>
    oneway_step a \<sigma> (\<sigma>\<lparr>ow_st := st, ow_busy := ow_busy \<sigma> - 1\<rparr>)"
| elsewhere: "local_nodes (ow_st \<sigma>) a = Some n \<Longrightarrow> local_nodes st a = Some n' \<Longrightarrow>
    next_async_number n' = next_async_number n \<Longrightarrow> async_todo n' = async_todo n \<Longrightarrow>
    oneway_step a \<sigma> (\<sigma>\<lparr>ow_st := st\<rparr>)"

section \<open>The invariant\<close>

definition queue_ok :: "u64 \<Rightarrow> AsyncTodo list \<Rightarrow> bool" where
  "queue_ok n q \<longleftrightarrow> sorted_wrt (<) (map todo_async_number q) \<and>
    (\<forall>t \<in> set q. n < todo_async_number t \<and> async_number (todo_transaction t) = todo_async_number t) \<and>
    length q < ASYNC_TODO_TERMINATE_LEVEL"

definition oneway_inv :: "RpcAddress \<Rightarrow> oneway_sys \<Rightarrow> bool" where
  "oneway_inv a \<sigma> \<longleftrightarrow> (\<exists>n. local_nodes (ow_st \<sigma>) a = Some n \<and>
    queue_ok (next_async_number n) (async_todo n) \<and> ow_busy \<sigma> \<le> 1 \<and>
    map (\<lambda>t. unat (async_number t)) (ow_log \<sigma>) = [0..<unat (next_async_number n) + ow_busy \<sigma>] \<and>
    async_number ` set (ow_log \<sigma>) \<union> todo_async_number ` set (async_todo n) \<subseteq> ow_seen \<sigma> \<and>
    (\<forall>k \<in> ow_seen \<sigma>. unat k < 2 ^ 64 - 1) \<and>
    (\<not> ow_lost \<sigma> \<longrightarrow> ow_seen \<sigma> = async_number ` set (ow_log \<sigma>) \<union> todo_async_number ` set (async_todo n)))"

text \<open>A number that has been received is below the expected one exactly when its handler was started.\<close>

lemma log_numbers:
  assumes "map (\<lambda>t. unat (async_number t)) ts = [0..<m]"
  shows "k \<in> async_number ` set ts \<longleftrightarrow> unat k < m"
proof -
  have "(\<lambda>t. unat (async_number t)) ` set ts = {0..<m}"
    using arg_cong [where f = set, OF assms] by simp
  then have "unat k \<in> (\<lambda>t. unat (async_number t)) ` set ts \<longleftrightarrow> unat k < m" by auto
  then show ?thesis by (simp add: image_iff word_unat_eq_iff)
qed

lemma queue_ok_push:
  assumes "queue_ok n q" "n < todo_async_number t" "todo_async_number t \<notin> todo_async_number ` set q"
    and "async_number (todo_transaction t) = todo_async_number t"
    and "length (heap_push t q) < ASYNC_TODO_TERMINATE_LEVEL"
  shows "queue_ok n (heap_push t q)"
proof -
  have q: "sorted (map todo_async_number q)" "distinct (map todo_async_number q)"
    using assms(1) by (simp_all add: queue_ok_def strict_sorted_iff)
  have "mset (map todo_async_number (heap_push t q)) = mset (todo_async_number t # map todo_async_number q)"
    by (simp add: heap_push_def)
  then have "distinct (map todo_async_number (heap_push t q)) \<longleftrightarrow>
      distinct (todo_async_number t # map todo_async_number q)"
    by (rule mset_eq_imp_distinct_iff)
  moreover have "sorted (map todo_async_number (heap_push t q))"
    using q(1) by (simp add: heap_push_def sorted_insort_key)
  ultimately have "sorted_wrt (<) (map todo_async_number (heap_push t q))"
    using q(2) assms(3) by (simp add: strict_sorted_iff)
  moreover have "set (heap_push t q) = insert t (set q)" by (simp add: heap_push_def set_insort_key)
  ultimately show ?thesis using assms by (simp add: queue_ok_def)
qed

lemma drop_stale_id: "\<forall>t \<in> set q. n \<le> todo_async_number t \<Longrightarrow> drop_stale n q = q"
  by (cases q) auto

lemma word_succ_le: "(n :: u64) < k \<Longrightarrow> n + 1 \<le> k"
  by (simp add: inc_le)

lemma advance_on:
  assumes "local_nodes st a = Some n" "queue_ok (next_async_number n) (async_todo n)"
    and "unat (next_async_number n) < 2 ^ 64 - 1"
    and "advance_and_pop_async a st = (r, st')"
  shows "\<exists>n'. local_nodes st' a = Some n' \<and> next_async_number n' = next_async_number n + 1 \<and>
    queue_ok (next_async_number n') (async_todo n') \<and>
    (case r of
       Some (t, fds) \<Rightarrow> async_number t = next_async_number n' \<and>
         todo_async_number ` set (async_todo n) = insert (async_number t) (todo_async_number ` set (async_todo n'))
     | None \<Rightarrow> async_todo n' = async_todo n)"
proof -
  define m where "m = next_async_number n + 1"
  have ge: "\<forall>t \<in> set (async_todo n). m \<le> todo_async_number t"
    using assms(2) word_succ_le by (auto simp: queue_ok_def m_def)
  then have ds: "drop_stale m (async_todo n) = async_todo n" by (rule drop_stale_id)
  show ?thesis
  proof (cases "async_todo n")
    case Nil
    then show ?thesis
      using assms ds by (auto simp: advance_and_pop_async_def Let_def m_def queue_ok_def)
  next
    case (Cons t ts)
    have srt: "\<forall>u \<in> set ts. todo_async_number t < todo_async_number u"
      using assms(2) Cons by (auto simp: queue_ok_def)
    show ?thesis
    proof (cases "todo_async_number t = m")
      case True
      have "queue_ok m ts" using assms(2) Cons srt True by (auto simp: queue_ok_def)
      then show ?thesis
        using assms Cons ds True by (auto simp: advance_and_pop_async_def Let_def m_def queue_ok_def)
    next
      case False
      then have "m < todo_async_number t" using ge Cons by (auto simp: order.not_eq_order_implies_strict)
      then have "queue_ok m (t # ts)" using assms(2) Cons srt by (auto simp: queue_ok_def)
      then show ?thesis
        using assms Cons ds False by (auto simp: advance_and_pop_async_def Let_def m_def)
    qed
  qed
qed

lemma oneway_inv_arrive:
  assumes inv: "oneway_inv a \<sigma>" and new: "async_number t \<notin> ow_seen \<sigma>" "unat (async_number t) < 2 ^ 64 - 1"
    and d: "dispatch_async_or_enqueue a (async_number t) t fds (ow_st \<sigma>) = (dec, st)"
  shows "case dec of
      Dispatch t' fds' \<Rightarrow> oneway_inv a (\<sigma>\<lparr>ow_st := st, ow_busy := ow_busy \<sigma> + 1, ow_log := ow_log \<sigma> @ [t'],
        ow_seen := insert (async_number t) (ow_seen \<sigma>)\<rparr>)
    | Enqueued \<Rightarrow> oneway_inv a (\<sigma>\<lparr>ow_st := st, ow_seen := insert (async_number t) (ow_seen \<sigma>)\<rparr>)
    | Terminate m \<Rightarrow> oneway_inv a (\<sigma>\<lparr>ow_st := st, ow_seen := insert (async_number t) (ow_seen \<sigma>), ow_lost := True\<rparr>)
    | DropCall r \<Rightarrow> False"
proof -
  obtain n where n: "local_nodes (ow_st \<sigma>) a = Some n" "queue_ok (next_async_number n) (async_todo n)"
    "ow_busy \<sigma> \<le> 1"
    "map (\<lambda>t. unat (async_number t)) (ow_log \<sigma>) = [0..<unat (next_async_number n) + ow_busy \<sigma>]"
    "async_number ` set (ow_log \<sigma>) \<union> todo_async_number ` set (async_todo n) \<subseteq> ow_seen \<sigma>"
    "\<forall>k \<in> ow_seen \<sigma>. unat k < 2 ^ 64 - 1"
    "\<not> ow_lost \<sigma> \<longrightarrow> ow_seen \<sigma> = async_number ` set (ow_log \<sigma>) \<union> todo_async_number ` set (async_todo n)"
    using inv unfolding oneway_inv_def by blast
  define k where "k = async_number t"
  have "k \<notin> async_number ` set (ow_log \<sigma>)" using new(1) n(5) by (auto simp: k_def)
  then have kge: "unat (next_async_number n) + ow_busy \<sigma> \<le> unat k"
    using log_numbers [OF n(4)] by (simp add: not_less)
  consider (eq) "k = next_async_number n" | (gt) "next_async_number n < k"
    using kge by (force simp: word_less_nat_alt word_unat_eq_iff)
  then show ?thesis
  proof cases
    case eq
    then have b: "ow_busy \<sigma> = 0" using kge by simp
    have "dec = Dispatch t fds" "st = ow_st \<sigma>" using d n(1) eq by (auto simp: dispatch_async_or_enqueue_def k_def)
    with n b eq new(2) show ?thesis by (auto simp: oneway_inv_def k_def)
  next
    case gt
    define e where "e = \<lparr>todo_async_number = k, todo_transaction = t, todo_in_fds = fds\<rparr>"
    define q where "q = heap_push e (async_todo n)"
    have sq: "set q = insert e (set (async_todo n))" by (simp add: q_def heap_push_def set_insort_key)
    have neq: "k \<noteq> next_async_number n" using gt by auto
    show ?thesis
    proof (cases "ASYNC_TODO_TERMINATE_LEVEL \<le> length q")
      case True
      then have "dec = Terminate (length q)"
        "st = (ow_st \<sigma>)\<lparr>local_nodes := (local_nodes (ow_st \<sigma>))(a \<mapsto> n\<lparr>async_todo := []\<rparr>)\<rparr>"
        using d n(1) gt neq by (auto simp: dispatch_async_or_enqueue_def k_def Let_def q_def e_def)
      with n new(2) show ?thesis
        by (auto simp: oneway_inv_def queue_ok_def ASYNC_TODO_TERMINATE_LEVEL_def)
    next
      case False
      then have dec: "dec = Enqueued"
        "st = (ow_st \<sigma>)\<lparr>local_nodes := (local_nodes (ow_st \<sigma>))(a \<mapsto> n\<lparr>async_todo := q\<rparr>)\<rparr>"
        using d n(1) gt neq by (auto simp: dispatch_async_or_enqueue_def k_def Let_def q_def e_def)
      have "queue_ok (next_async_number n) q"
        unfolding q_def using n(2,5) gt new(1) False
        by (intro queue_ok_push) (auto simp: e_def k_def q_def)
      moreover have "todo_async_number ` set q = insert k (todo_async_number ` set (async_todo n))"
        by (simp add: sq e_def)
      ultimately show ?thesis using dec n(3-7) new(2) by (auto simp: oneway_inv_def k_def)
    qed
  qed
qed

lemma oneway_inv_finish:
  assumes inv: "oneway_inv a \<sigma>" and b: "0 < ow_busy \<sigma>"
    and d: "advance_and_pop_async a (ow_st \<sigma>) = (r, st)"
  shows "case r of
      Some (t, fds) \<Rightarrow> oneway_inv a (\<sigma>\<lparr>ow_st := st, ow_log := ow_log \<sigma> @ [t]\<rparr>)
    | None \<Rightarrow> oneway_inv a (\<sigma>\<lparr>ow_st := st, ow_busy := ow_busy \<sigma> - 1\<rparr>)"
proof -
  obtain n where n: "local_nodes (ow_st \<sigma>) a = Some n" "queue_ok (next_async_number n) (async_todo n)"
    "ow_busy \<sigma> = 1"
    "map (\<lambda>t. unat (async_number t)) (ow_log \<sigma>) = [0..<Suc (unat (next_async_number n))]"
    "async_number ` set (ow_log \<sigma>) \<union> todo_async_number ` set (async_todo n) \<subseteq> ow_seen \<sigma>"
    "\<forall>k \<in> ow_seen \<sigma>. unat k < 2 ^ 64 - 1"
    "\<not> ow_lost \<sigma> \<longrightarrow> ow_seen \<sigma> = async_number ` set (ow_log \<sigma>) \<union> todo_async_number ` set (async_todo n)"
    using inv b unfolding oneway_inv_def by (auto simp: le_Suc_eq)
  have "next_async_number n \<in> async_number ` set (ow_log \<sigma>)" using log_numbers [OF n(4)] by simp
  then have lt: "unat (next_async_number n) < 2 ^ 64 - 1" using n(5,6) by auto
  then have inc: "unat (next_async_number n + 1) = Suc (unat (next_async_number n))"
    by (simp add: unat_word_ariths)
  obtain n' where n': "local_nodes st a = Some n'" "next_async_number n' = next_async_number n + 1"
    "queue_ok (next_async_number n') (async_todo n')"
    "case r of
       Some (t, fds) \<Rightarrow> async_number t = next_async_number n' \<and>
         todo_async_number ` set (async_todo n) = insert (async_number t) (todo_async_number ` set (async_todo n'))
     | None \<Rightarrow> async_todo n' = async_todo n"
    using advance_on [OF n(1,2) lt d] by blast
  show ?thesis
  proof (cases r)
    case None
    then show ?thesis using n n' inc by (auto simp: oneway_inv_def)
  next
    case (Some tf)
    obtain t fds where tf: "tf = (t, fds)" by (cases tf)
    have t: "async_number t = next_async_number n'"
      "todo_async_number ` set (async_todo n) = insert (async_number t) (todo_async_number ` set (async_todo n'))"
      using n'(4) Some tf by simp_all
    have "map (\<lambda>t. unat (async_number t)) (ow_log \<sigma> @ [t]) = [0..<unat (next_async_number n') + 1]"
      using n(4) t(1) n'(2) inc by simp
    then have "oneway_inv a (\<sigma>\<lparr>ow_st := st, ow_log := ow_log \<sigma> @ [t]\<rparr>)"
      unfolding oneway_inv_def using n(3,5-7) n'(1,3) t(2) by (intro exI [of _ n']) auto
    then show ?thesis using Some tf by simp
  qed
qed

lemma oneway_inv_step:
  assumes "oneway_inv a \<sigma>" "oneway_step a \<sigma> \<tau>"
  shows "oneway_inv a \<tau>"
  using assms(2)
proof cases
  case (arrive_run t fds t' fds' st)
  then show ?thesis using oneway_inv_arrive [OF assms(1) arrive_run(2-4)] by simp
next
  case (arrive_park t fds st)
  then show ?thesis using oneway_inv_arrive [OF assms(1) arrive_park(2-4)] by simp
next
  case (arrive_flush t fds m st)
  then show ?thesis using oneway_inv_arrive [OF assms(1) arrive_flush(2-4)] by simp
next
  case (finish_next t fds st)
  then show ?thesis using oneway_inv_finish [OF assms(1) finish_next(2,3)] by simp
next
  case (finish_idle st)
  then show ?thesis using oneway_inv_finish [OF assms(1) finish_idle(2,3)] by simp
next
  case (elsewhere n st n')
  then show ?thesis using assms(1) by (auto simp: oneway_inv_def)
qed

lemma oneway_inv_init: "oneway_init a \<sigma> \<Longrightarrow> oneway_inv a \<sigma>"
  by (auto simp: oneway_init_def oneway_inv_def queue_ok_def ASYNC_TODO_TERMINATE_LEVEL_def)

interpretation oneways: inductive_invariant "oneway_init a" "oneway_step a" "oneway_inv a" for a
  by unfold_locales (auto intro: oneway_inv_init oneway_inv_step)

section \<open>Properties\<close>


definition demo_oneway :: oneway_sys where
  "demo_oneway = \<lparr>ow_st = demo_peer\<lparr>local_nodes := [addr_zero \<mapsto>
      \<lparr>node_binder = 7, node_strong = 1, next_async_number = 0, async_todo = []\<rparr>]\<rparr>,
    ow_busy = 0, ow_log = [], ow_seen = {}, ow_lost = False\<rparr>"


end
