(* ===== verification/Rpc_Lifecycle.thy ===== *)
theory Rpc_Lifecycle
  imports Transition
begin

text \<open>
  The session lifecycle word, \<open>rsbinder/src/rpc/lifecycle.rs\<close>: one atomic \<open>u64\<close> whose top byte is the state
  and whose lower 56 bits count the live connections. Each operation is a load followed by
  compare-exchange attempts; an attempt is a function of the value last seen and the value now in the
  word, and threads interleave between attempts. Debug assertions are not modelled: the behaviour is the
  one of a release build.
\<close>

section \<open>The packed word\<close>

datatype SessionLifecycleSnapshot = LiveConns nat | DyingState | DeadState

definition STATE_SHIFT :: nat where "STATE_SHIFT = 56"
definition COUNT_MASK :: u64 where "COUNT_MASK = push_bit STATE_SHIFT 1 - 1"
definition STATE_LIVE_TAG :: u64 where "STATE_LIVE_TAG = 0"
definition STATE_DYING_TAG :: u64 where "STATE_DYING_TAG = 1"
definition STATE_DEAD_TAG :: u64 where "STATE_DEAD_TAG = 2"

definition encode_live :: "nat \<Rightarrow> u64" where "encode_live n = word_of_nat n"
definition encode_dying :: u64 where "encode_dying = push_bit STATE_SHIFT STATE_DYING_TAG"
definition encode_dead :: u64 where "encode_dead = push_bit STATE_SHIFT STATE_DEAD_TAG"

definition lifecycle_new :: u64 where "lifecycle_new = encode_live 1"

definition decode_lifecycle :: "u64 \<Rightarrow> (unit, SessionLifecycleSnapshot) outcome" where
  "decode_lifecycle v =
    (if drop_bit STATE_SHIFT v = STATE_LIVE_TAG then
       (if v AND COUNT_MASK = 0 then Panic else Ok (LiveConns (unat (v AND COUNT_MASK))))
     else if drop_bit STATE_SHIFT v = STATE_DYING_TAG then Ok DyingState
     else if drop_bit STATE_SHIFT v = STATE_DEAD_TAG then Ok DeadState
     else Panic)"

definition is_torn_down :: "u64 \<Rightarrow> bool" where
  "is_torn_down w \<longleftrightarrow> drop_bit STATE_SHIFT w \<noteq> STATE_LIVE_TAG"

definition live_count :: "u64 \<Rightarrow> nat" where
  "live_count v = (if drop_bit STATE_SHIFT v = STATE_LIVE_TAG then unat (v AND COUNT_MASK) else 0)"

text \<open>One turn of each loop, with \<open>v\<close> the value last seen and \<open>w\<close> the word: what the call returns, if
  this turn ends it, and the word afterwards. A turn that does not end the call goes on with \<open>w\<close>.
  \<open>weak\<close> lets \<open>compare_exchange_weak\<close> fail although the values agree.\<close>

definition try_bump_live :: "bool \<Rightarrow> u64 \<Rightarrow> u64 \<Rightarrow> bool option \<times> u64" where
  "try_bump_live weak v w =
    (if drop_bit STATE_SHIFT v \<noteq> STATE_LIVE_TAG then (Some False, w)
     else if w = v \<and> \<not> weak then (Some True, v + 1) else (None, w))"

definition drop_connection :: "bool \<Rightarrow> u64 \<Rightarrow> u64 \<Rightarrow> bool option \<times> u64" where
  "drop_connection weak v w =
    (if drop_bit STATE_SHIFT v \<noteq> STATE_LIVE_TAG then (Some False, w)
     else
       let (new_v, was_last) = (if v AND COUNT_MASK = 1 then (encode_dying, True) else (v - 1, False))
       in if w = v \<and> \<not> weak then (Some was_last, new_v) else (None, w))"

definition mark_dead :: "u64 \<Rightarrow> u64" where
  "mark_dead w = (if w = encode_dying then encode_dead else w)"

section \<open>The session\<close>

text \<open>\<open>lc_bumps\<close> and \<open>lc_drops\<close> hold the values last seen by the threads inside \<open>try_bump_live\<close> and
  \<open>drop_connection\<close>; \<open>lc_conns\<close> counts the connections admitted and not yet dropped, \<open>lc_obits\<close> the
  obituary edges reported. Only a thread that serves a connection drops it.\<close>

record lifecycle_sys =
  lc_word :: u64
  lc_bumps :: "u64 list"
  lc_drops :: "u64 list"
  lc_conns :: nat
  lc_obits :: nat

definition lifecycle_init :: "lifecycle_sys \<Rightarrow> bool" where
  "lifecycle_init \<sigma> \<longleftrightarrow> \<sigma> = \<lparr>lc_word = lifecycle_new, lc_bumps = [], lc_drops = [], lc_conns = 1, lc_obits = 0\<rparr>"

inductive lifecycle_step :: "lifecycle_sys \<Rightarrow> lifecycle_sys \<Rightarrow> bool" where
  bump_load: "lifecycle_step \<sigma> (\<sigma>\<lparr>lc_bumps := lc_word \<sigma> # lc_bumps \<sigma>\<rparr>)"
| bump_again: "v \<in> set (lc_bumps \<sigma>) \<Longrightarrow> try_bump_live weak v (lc_word \<sigma>) = (None, w) \<Longrightarrow>
    lifecycle_step \<sigma> (\<sigma>\<lparr>lc_word := w, lc_bumps := lc_word \<sigma> # remove1 v (lc_bumps \<sigma>)\<rparr>)"
| bump_done: "v \<in> set (lc_bumps \<sigma>) \<Longrightarrow> lc_conns \<sigma> < 2 ^ 56 - 1 \<Longrightarrow>
    try_bump_live weak v (lc_word \<sigma>) = (Some admitted, w) \<Longrightarrow>
    lifecycle_step \<sigma> (\<sigma>\<lparr>lc_word := w, lc_bumps := remove1 v (lc_bumps \<sigma>),
      lc_conns := lc_conns \<sigma> + (if admitted then 1 else 0)\<rparr>)"
| drop_load: "length (lc_drops \<sigma>) < lc_conns \<sigma> \<Longrightarrow>
    lifecycle_step \<sigma> (\<sigma>\<lparr>lc_drops := lc_word \<sigma> # lc_drops \<sigma>\<rparr>)"
| drop_again: "v \<in> set (lc_drops \<sigma>) \<Longrightarrow> drop_connection weak v (lc_word \<sigma>) = (None, w) \<Longrightarrow>
    lifecycle_step \<sigma> (\<sigma>\<lparr>lc_word := w, lc_drops := lc_word \<sigma> # remove1 v (lc_drops \<sigma>)\<rparr>)"
| drop_done: "v \<in> set (lc_drops \<sigma>) \<Longrightarrow> drop_connection weak v (lc_word \<sigma>) = (Some was_last, w) \<Longrightarrow>
    lifecycle_step \<sigma> (\<sigma>\<lparr>lc_word := w, lc_drops := remove1 v (lc_drops \<sigma>), lc_conns := lc_conns \<sigma> - 1,
      lc_obits := lc_obits \<sigma> + (if was_last then 1 else 0)\<rparr>)"
| dead: "0 < lc_obits \<sigma> \<Longrightarrow> lifecycle_step \<sigma> (\<sigma>\<lparr>lc_word := mark_dead (lc_word \<sigma>)\<rparr>)"

section \<open>Lemmas\<close>

lemma live_tag_iff: "drop_bit STATE_SHIFT v = STATE_LIVE_TAG \<longleftrightarrow> unat v < 2 ^ 56"
proof -
  have "drop_bit STATE_SHIFT v = STATE_LIVE_TAG \<longleftrightarrow> unat v div 2 ^ 56 = 0"
    by (simp add: word_unat_eq_iff unat_div drop_bit_eq_div STATE_SHIFT_def STATE_LIVE_TAG_def)
  then show ?thesis by (simp add: div_eq_0_iff)
qed

lemma count_mask: "unat v < 2 ^ 56 \<Longrightarrow> v AND COUNT_MASK = v"
proof -
  assume v: "unat v < 2 ^ 56"
  have "COUNT_MASK = mask 56"
    by (simp add: COUNT_MASK_def STATE_SHIFT_def mask_eq_decr_exp push_bit_eq_mult)
  then have "v AND COUNT_MASK = take_bit 56 v" by (simp add: take_bit_eq_mask)
  moreover have "unat (take_bit 56 v) = unat v" using v by (simp add: unsigned_take_bit_eq take_bit_nat_eq_self)
  ultimately show ?thesis by (simp add: word_unat_eq_iff)
qed

lemma torn_words [simp]:
  "unat encode_dying = 2 ^ 56" "unat encode_dead = 2 ^ 57"
  by (simp_all add: encode_dying_def encode_dead_def STATE_SHIFT_def STATE_DYING_TAG_def STATE_DEAD_TAG_def)

definition lifecycle_inv :: "lifecycle_sys \<Rightarrow> bool" where
  "lifecycle_inv \<sigma> \<longleftrightarrow> length (lc_drops \<sigma>) \<le> lc_conns \<sigma> \<and> (\<forall>v \<in> set (lc_drops \<sigma>). unat v < 2 ^ 56) \<and>
    (if 0 < lc_conns \<sigma> then unat (lc_word \<sigma>) = lc_conns \<sigma> \<and> lc_conns \<sigma> < 2 ^ 56 \<and> lc_obits \<sigma> = 0
     else (lc_word \<sigma> = encode_dying \<or> lc_word \<sigma> = encode_dead) \<and> lc_obits \<sigma> = 1)"

lemma try_bump_live_cases:
  "try_bump_live weak v w =
    (if unat v \<ge> 2 ^ 56 then (Some False, w) else if w = v \<and> \<not> weak then (Some True, v + 1) else (None, w))"
  by (simp add: try_bump_live_def live_tag_iff)

lemma drop_connection_cases:
  "drop_connection weak v w =
    (if unat v \<ge> 2 ^ 56 then (Some False, w)
     else if w = v \<and> \<not> weak then (if v = 1 then (Some True, encode_dying) else (Some False, v - 1))
     else (None, w))"
  by (simp add: drop_connection_def live_tag_iff count_mask Let_def)

lemma lifecycle_inv_step:
  assumes "lifecycle_inv \<sigma>" "lifecycle_step \<sigma> \<tau>"
  shows "lifecycle_inv \<tau>"
  using assms(2)
proof cases
  case bump_load
  then show ?thesis using assms(1) by (auto simp: lifecycle_inv_def)
next
  case (bump_again v weak w)
  then have "w = lc_word \<sigma>" by (auto simp: try_bump_live_cases split: if_splits)
  with bump_again assms(1) show ?thesis by (auto simp: lifecycle_inv_def)
next
  case (bump_done v weak admitted w)
  show ?thesis
  proof (cases admitted)
    case True
    with bump_done have w: "unat (lc_word \<sigma>) < 2 ^ 56" "w = lc_word \<sigma> + 1"
      by (auto simp: try_bump_live_cases split: if_splits)
    then have "unat w = Suc (unat (lc_word \<sigma>))" by (simp add: unat_word_ariths)
    with w bump_done True assms(1) show ?thesis by (auto simp: lifecycle_inv_def split: if_splits)
  next
    case False
    with bump_done have "w = lc_word \<sigma>" by (auto simp: try_bump_live_cases split: if_splits)
    with bump_done False assms(1) show ?thesis by (auto simp: lifecycle_inv_def)
  qed
next
  case drop_load
  then show ?thesis using assms(1) by (auto simp: lifecycle_inv_def split: if_splits)
next
  case (drop_again v weak w)
  then have "w = lc_word \<sigma>" "unat v < 2 ^ 56" by (auto simp: drop_connection_cases split: if_splits)
  moreover have "set (remove1 v (lc_drops \<sigma>)) \<subseteq> set (lc_drops \<sigma>)" by (rule set_remove1_subset)
  moreover have "length (lc_drops \<sigma>) > 0" using drop_again(2) by auto
  ultimately show ?thesis using drop_again assms(1)
    by (auto simp: lifecycle_inv_def length_remove1 split: if_splits)
next
  case (drop_done v weak was_last w)
  have pos: "0 < length (lc_drops \<sigma>)" using drop_done(2) by auto
  then have c: "0 < lc_conns \<sigma>" "unat (lc_word \<sigma>) = lc_conns \<sigma>" "lc_obits \<sigma> = 0" "unat v < 2 ^ 56"
    using assms(1) drop_done(2) by (auto simp: lifecycle_inv_def split: if_splits)
  with drop_done have v: "v = lc_word \<sigma>"
    and w: "w = (if v = 1 then encode_dying else v - 1)" "was_last = (v = 1)"
    by (auto simp: drop_connection_cases split: if_splits)
  have sub: "set (remove1 v (lc_drops \<sigma>)) \<subseteq> set (lc_drops \<sigma>)" by (rule set_remove1_subset)
  show ?thesis
  proof (cases "v = 1")
    case True
    with c v w sub drop_done assms(1) show ?thesis
      by (auto simp: lifecycle_inv_def length_remove1 split: if_splits)
  next
    case False
    then have "unat v \<noteq> 1" by (metis unat_1 word_unat_eq_iff)
    moreover have "unat (v - 1) = unat v - 1" using c(1,2) v by (simp add: unat_sub_if_size)
    ultimately show ?thesis using c v w sub drop_done assms(1) False
      by (auto simp: lifecycle_inv_def length_remove1 split: if_splits)
  qed
next
  case dead
  then show ?thesis using assms(1) by (auto simp: lifecycle_inv_def mark_dead_def split: if_splits)
qed

lemma lifecycle_inv_init: "lifecycle_init \<sigma> \<Longrightarrow> lifecycle_inv \<sigma>"
  by (simp add: lifecycle_init_def lifecycle_inv_def lifecycle_new_def encode_live_def)

interpretation lifecycle: inductive_invariant lifecycle_init lifecycle_step lifecycle_inv
  by unfold_locales (auto intro: lifecycle_inv_init lifecycle_inv_step)

section \<open>Properties\<close>

text \<open>C25: A session is torn down exactly once. However threads that attach and drop connections
  interleave between their compare-exchange attempts, the word always decodes; while connections exist it
  reports exactly their number and no obituary has been sent; when the last is gone it reports a torn
  down session, exactly one \<open>drop_connection\<close> has reported the obituary edge, and no later attach is
  admitted; and no drop of a connection is ever refused.\<close>

theorem lifecycle_torn_down_once:
  assumes "reach lifecycle_init lifecycle_step \<sigma>"
  shows "(if 0 < lc_conns \<sigma>
     then decode_lifecycle (lc_word \<sigma>) = Ok (LiveConns (lc_conns \<sigma>)) \<and> live_count (lc_word \<sigma>) = lc_conns \<sigma> \<and>
       \<not> is_torn_down (lc_word \<sigma>) \<and> lc_obits \<sigma> = 0
     else decode_lifecycle (lc_word \<sigma>) \<in> {Ok DyingState, Ok DeadState} \<and> live_count (lc_word \<sigma>) = 0 \<and>
       is_torn_down (lc_word \<sigma>) \<and> lc_obits \<sigma> = 1 \<and>
       (\<forall>weak v. fst (try_bump_live weak v (lc_word \<sigma>)) \<noteq> Some True)) \<and>
    (\<forall>v \<in> set (lc_drops \<sigma>). \<forall>weak. drop_connection weak v (lc_word \<sigma>) \<noteq> (Some False, lc_word \<sigma>))"
proof -
  have inv: "lifecycle_inv \<sigma>" by (rule lifecycle.inv_reach [OF assms])
  have tags: "drop_bit STATE_SHIFT encode_dying = STATE_DYING_TAG" "drop_bit STATE_SHIFT encode_dead = STATE_DEAD_TAG"
    by (simp_all add: encode_dying_def encode_dead_def STATE_SHIFT_def STATE_DYING_TAG_def STATE_DEAD_TAG_def)
  have ne: "STATE_DYING_TAG \<noteq> STATE_LIVE_TAG" "STATE_DEAD_TAG \<noteq> STATE_LIVE_TAG" "STATE_DEAD_TAG \<noteq> STATE_DYING_TAG"
    by (simp_all add: STATE_LIVE_TAG_def STATE_DYING_TAG_def STATE_DEAD_TAG_def)
  have "v - 1 \<noteq> v" for v :: u64 by simp
  then have "\<forall>v \<in> set (lc_drops \<sigma>). \<forall>weak. drop_connection weak v (lc_word \<sigma>) \<noteq> (Some False, lc_word \<sigma>)"
    using inv by (auto simp: lifecycle_inv_def drop_connection_cases)
  moreover have "if 0 < lc_conns \<sigma>
     then decode_lifecycle (lc_word \<sigma>) = Ok (LiveConns (lc_conns \<sigma>)) \<and> live_count (lc_word \<sigma>) = lc_conns \<sigma> \<and>
       \<not> is_torn_down (lc_word \<sigma>) \<and> lc_obits \<sigma> = 0
     else decode_lifecycle (lc_word \<sigma>) \<in> {Ok DyingState, Ok DeadState} \<and> live_count (lc_word \<sigma>) = 0 \<and>
       is_torn_down (lc_word \<sigma>) \<and> lc_obits \<sigma> = 1 \<and>
       (\<forall>weak v. fst (try_bump_live weak v (lc_word \<sigma>)) \<noteq> Some True)"
  proof (cases "0 < lc_conns \<sigma>")
    case True
    then have c: "unat (lc_word \<sigma>) = lc_conns \<sigma>" "lc_conns \<sigma> < 2 ^ 56" "lc_obits \<sigma> = 0"
      using inv by (simp_all add: lifecycle_inv_def)
    then have "lc_word \<sigma> \<noteq> 0" using True by auto
    then show ?thesis
      using c True by (simp add: decode_lifecycle_def live_count_def is_torn_down_def live_tag_iff count_mask)
  next
    case False
    then have "lc_word \<sigma> = encode_dying \<or> lc_word \<sigma> = encode_dead" "lc_obits \<sigma> = 1"
      using inv by (auto simp: lifecycle_inv_def)
    then show ?thesis
      using False by (auto simp: decode_lifecycle_def live_count_def is_torn_down_def tags ne try_bump_live_cases)
  qed
  ultimately show ?thesis by blast
qed

theorem lifecycle_torn_down_once_witness:
  "\<exists>\<sigma>. reach lifecycle_init lifecycle_step \<sigma> \<and> lc_conns \<sigma> = 0 \<and> is_torn_down (lc_word \<sigma>) \<and> lc_obits \<sigma> = 1"
proof -
  let ?i = "\<lparr>lc_word = lifecycle_new, lc_bumps = [], lc_drops = [], lc_conns = 1, lc_obits = 0\<rparr>"
  let ?s = "?i\<lparr>lc_drops := lc_word ?i # lc_drops ?i\<rparr>"
  let ?t = "?s\<lparr>lc_word := encode_dying, lc_drops := remove1 lifecycle_new (lc_drops ?s), lc_conns := lc_conns ?s - 1,
      lc_obits := lc_obits ?s + (if True then 1 else 0)\<rparr>"
  have "reach lifecycle_init lifecycle_step ?i" by (rule reach_init) (simp add: lifecycle_init_def)
  then have "reach lifecycle_init lifecycle_step ?s" by (rule reach_step) (rule drop_load, simp)
  then have r: "reach lifecycle_init lifecycle_step ?t"
    by (rule reach_step)
      (rule drop_done [where weak = False],
        simp_all add: drop_connection_cases lifecycle_new_def encode_live_def)
  show ?thesis using lifecycle_torn_down_once [OF r] r by (intro exI [of _ ?t]) simp
qed

end
