(* ===== verification/Rpc_Pool.thy ===== *)
theory Rpc_Pool
  imports Transition Status_Code
begin

text \<open>
  The connection pool of an RPC session (\<open>rsbinder/src/rpc/session.rs\<close>): connection slots, the
  thread-local \<open>DRIVING\<close> stack that makes nested calls re-enter the slot they came in on, the selectors
  and the guard. A selector that would wait on the condition variable answers \<open>MustWait\<close>: the thread
  runs the selector again when it is woken. Slot ids are natural numbers; the counter is a \<open>u64\<close> that
  starts at zero and is incremented once per connection.
\<close>

section \<open>State\<close>

type_synonym tid = nat

record ConnSlot =
  slot_transport :: nat
  exclusive_tid :: "tid option"
  slot_id :: nat

record ConnState =
  slots :: "ConnSlot list"
  next_slot_id :: nat

record ConnGuard =
  guard_slot_id :: nat
  guard_transport :: nat
  reentrant :: bool

text \<open>The pool of the session at address \<open>me\<close>, the stacks \<open>DRIVING\<close> of all threads, and whether the
  lifecycle is torn down.\<close>

record conn_pool =
  conn_state :: ConnState
  driving :: "tid \<Rightarrow> (nat \<times> nat) list"
  torn_down :: bool

datatype 'e turn = Found ConnGuard | NoConn 'e | MustWait

section \<open>Selecting a connection\<close>

definition find_slot :: "nat \<Rightarrow> conn_pool \<Rightarrow> ConnSlot option" where
  "find_slot i P = find (\<lambda>s. slot_id s = i) (slots (conn_state P))"

text \<open>\<open>iter().rev().find_map\<close> over the thread's stack: the innermost slot of this session.\<close>

definition driven :: "nat \<Rightarrow> (nat \<times> nat) list \<Rightarrow> nat option" where
  "driven me d = map_option snd (find (\<lambda>(sp, _). sp = me) (rev d))"

text \<open>\<open>iter_mut().find(sel)\<close> and taking the slot found.\<close>

fun claim_first :: "(ConnSlot \<Rightarrow> bool) \<Rightarrow> tid \<Rightarrow> ConnSlot list \<Rightarrow> (ConnSlot \<times> ConnSlot list) option" where
  "claim_first sel t [] = None"
| "claim_first sel t (s # ss) =
    (if sel s then Some (s, s\<lparr>exclusive_tid := Some t\<rparr> # ss)
     else map_option (\<lambda>(x, ys). (x, s # ys)) (claim_first sel t ss))"

definition claim :: "nat \<Rightarrow> tid \<Rightarrow> ConnSlot \<Rightarrow> ConnSlot list \<Rightarrow> conn_pool \<Rightarrow> ConnGuard \<times> conn_pool" where
  "claim me t s ss P =
    (\<lparr>guard_slot_id = slot_id s, guard_transport = slot_transport s, reentrant = False\<rparr>,
     P\<lparr>conn_state := (conn_state P)\<lparr>slots := ss\<rparr>,
       driving := (driving P)(t := driving P t @ [(me, slot_id s)])\<rparr>)"

definition reenter :: "nat \<Rightarrow> ConnSlot \<Rightarrow> ConnGuard" where
  "reenter i s = \<lparr>guard_slot_id = i, guard_transport = slot_transport s, reentrant = True\<rparr>"

definition find_conn :: "nat \<Rightarrow> tid \<Rightarrow> conn_pool \<Rightarrow> StatusCode turn \<times> conn_pool" where
  "find_conn me t P =
    (case driven me (driving P t) of
       Some i \<Rightarrow> (case find_slot i P of Some s \<Rightarrow> (Found (reenter i s), P) | None \<Rightarrow> (NoConn DeadObject, P))
     | None \<Rightarrow>
         if torn_down P \<or> slots (conn_state P) = [] then (NoConn DeadObject, P)
         else (case claim_first (\<lambda>s. exclusive_tid s = Some t \<or> exclusive_tid s = None) t (slots (conn_state P)) of
             Some (s, ss) \<Rightarrow> (case claim me t s ss P of (g, Q) \<Rightarrow> (Found g, Q))
           | None \<Rightarrow> (MustWait, P)))"

definition try_find_conn :: "nat \<Rightarrow> tid \<Rightarrow> conn_pool \<Rightarrow> ConnGuard option \<times> conn_pool" where
  "try_find_conn me t P =
    (case driven me (driving P t) of
       Some i \<Rightarrow> (case find_slot i P of Some s \<Rightarrow> (Some (reenter i s), P) | None \<Rightarrow> (None, P))
     | None \<Rightarrow>
         (case claim_first (\<lambda>s. exclusive_tid s = None) t (slots (conn_state P)) of
            Some (s, ss) \<Rightarrow> (case claim me t s ss P of (g, Q) \<Rightarrow> (Some g, Q))
          | None \<Rightarrow> (None, P)))"

definition find_conn_for_reaper :: "nat \<Rightarrow> tid \<Rightarrow> conn_pool \<Rightarrow> unit turn \<times> conn_pool" where
  "find_conn_for_reaper me t P =
    (if torn_down P \<or> slots (conn_state P) = [] then (NoConn (), P)
     else (case claim_first (\<lambda>s. exclusive_tid s = Some t \<or> exclusive_tid s = None) t (slots (conn_state P)) of
         Some (s, ss) \<Rightarrow> (case claim me t s ss P of (g, Q) \<Rightarrow> (Found g, Q))
       | None \<Rightarrow> (MustWait, P)))"

definition find_conn_pinned :: "nat \<Rightarrow> tid \<Rightarrow> nat \<Rightarrow> conn_pool \<Rightarrow> StatusCode turn \<times> conn_pool" where
  "find_conn_pinned me t want P =
    (if (me, want) \<in> set (driving P t) then
       (case find_slot want P of Some s \<Rightarrow> (Found (reenter want s), P) | None \<Rightarrow> (NoConn DeadObject, P))
     else
       (case find_slot want P of
          None \<Rightarrow> (NoConn DeadObject, P)
        | Some s0 \<Rightarrow>
            if exclusive_tid s0 = None \<or> exclusive_tid s0 = Some t then
              (case claim_first (\<lambda>s. slot_id s = want) t (slots (conn_state P)) of
                 Some (s, ss) \<Rightarrow> (case claim me t s ss P of (g, Q) \<Rightarrow> (Found g, Q))
               | None \<Rightarrow> (NoConn DeadObject, P))
            else (MustWait, P)))"

section \<open>Releasing, adding and removing connections\<close>

text \<open>\<open>rposition\<close> and \<open>remove\<close>: the last occurrence goes.\<close>

definition remove_last :: "'a \<Rightarrow> 'a list \<Rightarrow> 'a list" where
  "remove_last x xs = rev (remove1 x (rev xs))"

text \<open>\<open>iter_mut().find(by id)\<close> and giving the slot back.\<close>

fun give_back :: "nat \<Rightarrow> ConnSlot list \<Rightarrow> ConnSlot list" where
  "give_back i [] = []"
| "give_back i (s # ss) = (if slot_id s = i then s\<lparr>exclusive_tid := None\<rparr> # ss else s # give_back i ss)"

definition guard_drop :: "nat \<Rightarrow> tid \<Rightarrow> ConnGuard \<Rightarrow> conn_pool \<Rightarrow> conn_pool" where
  "guard_drop me t g P =
    (if reentrant g then P
     else P\<lparr>driving := (driving P)(t := remove_last (me, guard_slot_id g) (driving P t)),
       conn_state := (conn_state P)\<lparr>slots := give_back (guard_slot_id g) (slots (conn_state P))\<rparr>\<rparr>)"

definition add_slot_inner :: "nat \<Rightarrow> conn_pool \<Rightarrow> nat \<times> conn_pool" where
  "add_slot_inner transport P =
    (let st = conn_state P; i = next_slot_id st
     in (i, P\<lparr>conn_state := st\<lparr>next_slot_id := i + 1,
          slots := slots st @ [\<lparr>slot_transport = transport, exclusive_tid = None, slot_id = i\<rparr>]\<rparr>\<rparr>))"

definition add_slot_inner_capped :: "nat \<Rightarrow> nat \<Rightarrow> conn_pool \<Rightarrow> nat option \<times> conn_pool" where
  "add_slot_inner_capped transport cap P =
    (if length (slots (conn_state P)) \<ge> cap then (None, P)
     else case add_slot_inner transport P of (i, Q) \<Rightarrow> (Some i, Q))"

definition remove_slot :: "nat \<Rightarrow> conn_pool \<Rightarrow> conn_pool" where
  "remove_slot i P = P\<lparr>conn_state := (conn_state P)\<lparr>slots := filter (\<lambda>s. slot_id s \<noteq> i) (slots (conn_state P))\<rparr>\<rparr>"

section \<open>Threads sharing the pool\<close>

text \<open>The guards each thread holds on the session, innermost first. Guards are values of nested stack
  frames, so a thread drops the innermost one first.\<close>

record pool_sys =
  pool :: conn_pool
  guards :: "tid \<Rightarrow> ConnGuard list"

definition push_guard :: "tid \<Rightarrow> ConnGuard \<Rightarrow> conn_pool \<Rightarrow> pool_sys \<Rightarrow> pool_sys" where
  "push_guard t g P s = s\<lparr>pool := P, guards := (guards s)(t := g # guards s t)\<rparr>"

definition pool_init :: "nat \<Rightarrow> pool_sys \<Rightarrow> bool" where
  "pool_init me s \<longleftrightarrow> slots (conn_state (pool s)) = [] \<and> (\<forall>t. guards s t = []) \<and>
    (\<forall>t. \<forall>k \<in> set (driving (pool s) t). fst k \<noteq> me)"

text \<open>One step of any thread: taking a connection with one of the selectors, dropping the innermost
  guard, a connection being added or retired, the session being torn down, and the guards of other
  sessions changing the rest of the thread-local stacks. Only the reaper thread, which holds no guard,
  calls the reaper's selector.\<close>

inductive pool_step :: "nat \<Rightarrow> pool_sys \<Rightarrow> pool_sys \<Rightarrow> bool" for me :: nat where
  take_any: "find_conn me t (pool s) = (Found g, P) \<Longrightarrow> pool_step me s (push_guard t g P s)"
| take_free: "try_find_conn me t (pool s) = (Some g, P) \<Longrightarrow> pool_step me s (push_guard t g P s)"
| take_reaper: "guards s t = [] \<Longrightarrow> find_conn_for_reaper me t (pool s) = (Found g, P) \<Longrightarrow>
    pool_step me s (push_guard t g P s)"
| take_pinned: "find_conn_pinned me t want (pool s) = (Found g, P) \<Longrightarrow> pool_step me s (push_guard t g P s)"
| drop_guard: "guards s t = g # gs \<Longrightarrow>
    pool_step me s (s\<lparr>pool := guard_drop me t g (pool s), guards := (guards s)(t := gs)\<rparr>)"
| add_slot: "add_slot_inner x (pool s) = (i, P) \<Longrightarrow> pool_step me s (s\<lparr>pool := P\<rparr>)"
| add_capped: "add_slot_inner_capped x cap (pool s) = (r, P) \<Longrightarrow> pool_step me s (s\<lparr>pool := P\<rparr>)"
| retire: "pool_step me s (s\<lparr>pool := remove_slot i (pool s)\<rparr>)"
| tear_down: "pool_step me s (s\<lparr>pool := (pool s)\<lparr>torn_down := True\<rparr>\<rparr>)"
| other_session: "filter (\<lambda>k. fst k = me) d = filter (\<lambda>k. fst k = me) (driving (pool s) t) \<Longrightarrow>
    pool_step me s (s\<lparr>pool := (pool s)\<lparr>driving := (driving (pool s))(t := d)\<rparr>\<rparr>)"

section \<open>Exclusive connections\<close>

text \<open>The connections a stack of guards has claimed, innermost first.\<close>

definition claimed :: "ConnGuard list \<Rightarrow> nat list" where
  "claimed gs = map guard_slot_id (filter (\<lambda>g. \<not> reentrant g) gs)"

fun stacked :: "ConnGuard list \<Rightarrow> bool" where
  "stacked [] \<longleftrightarrow> True"
| "stacked (g # gs) \<longleftrightarrow> stacked gs \<and> (reentrant g \<longleftrightarrow> guard_slot_id g \<in> set (claimed gs))"

definition mine :: "nat \<Rightarrow> (nat \<times> nat) list \<Rightarrow> nat list" where
  "mine me d = map snd (filter (\<lambda>k. fst k = me) d)"

definition slot_ok :: "(tid \<Rightarrow> nat list) \<Rightarrow> nat \<Rightarrow> ConnSlot \<Rightarrow> bool" where
  "slot_ok h n s \<longleftrightarrow> slot_id s < n \<and> (\<forall>t. exclusive_tid s = Some t \<longleftrightarrow> slot_id s \<in> set (h t))"

definition slots_ok :: "(tid \<Rightarrow> nat list) \<Rightarrow> ConnState \<Rightarrow> bool" where
  "slots_ok h st \<longleftrightarrow> distinct (map slot_id (slots st)) \<and>
    (\<forall>s \<in> set (slots st). slot_ok h (next_slot_id st) s)"

definition holders_ok :: "(tid \<Rightarrow> nat list) \<Rightarrow> nat \<Rightarrow> bool" where
  "holders_ok h n \<longleftrightarrow> (\<forall>t. \<forall>i \<in> set (h t). i < n \<and> (\<forall>u. i \<in> set (h u) \<longrightarrow> u = t))"

definition pool_inv :: "nat \<Rightarrow> pool_sys \<Rightarrow> bool" where
  "pool_inv me s \<longleftrightarrow>
    (\<forall>t. stacked (guards s t) \<and> mine me (driving (pool s) t) = rev (claimed (guards s t))) \<and>
    slots_ok (\<lambda>t. claimed (guards s t)) (conn_state (pool s)) \<and>
    holders_ok (\<lambda>t. claimed (guards s t)) (next_slot_id (conn_state (pool s)))"

lemma claimed_simps [simp]:
  "claimed [] = []"
  "claimed (g # gs) = (if reentrant g then claimed gs else guard_slot_id g # claimed gs)"
  by (simp_all add: claimed_def)

lemma stacked_distinct: "stacked gs \<Longrightarrow> distinct (claimed gs)"
  by (induction gs) auto

lemma stacked_guards: "stacked gs \<Longrightarrow> guard_slot_id ` set gs = set (claimed gs)"
  by (induction gs) auto

lemma mine_simps [simp]:
  "mine me [] = []"
  "mine me (d @ e) = mine me d @ mine me e"
  "mine me (k # d) = (if fst k = me then snd k # mine me d else mine me d)"
  by (simp_all add: mine_def)

lemma mine_rev: "mine me (rev d) = rev (mine me d)"
  by (simp add: mine_def rev_filter [symmetric] rev_map)

lemma find_mine: "map_option snd (find (\<lambda>(sp, _). sp = me) d) = (case mine me d of [] \<Rightarrow> None | i # _ \<Rightarrow> Some i)"
  by (induction d) (auto split: list.splits)

lemma driven_mine: "driven me d = (case rev (mine me d) of [] \<Rightarrow> None | i # _ \<Rightarrow> Some i)"
  by (simp add: driven_def find_mine mine_rev)

lemma mine_member: "(me, i) \<in> set d \<longleftrightarrow> i \<in> set (mine me d)"
  by (force simp: mine_def)

lemma mine_remove1: "mine me d = i # is \<Longrightarrow> mine me (remove1 (me, i) d) = is"
  by (induction d) (auto split: if_splits)

lemma mine_remove_last: "mine me d = is @ [i] \<Longrightarrow> mine me (remove_last (me, i) d) = is"
  using mine_remove1 [of me "rev d" i "rev is"] by (simp add: remove_last_def mine_rev)

lemma claim_first_Some:
  "claim_first sel t ss = Some (s, ss') \<Longrightarrow>
    sel s \<and> (\<exists>pre post. ss = pre @ s # post \<and> ss' = pre @ s\<lparr>exclusive_tid := Some t\<rparr> # post)"
proof (induction ss arbitrary: ss')
  case (Cons a ss)
  show ?case
  proof (cases "sel a")
    case True
    then have "sel s \<and> a # ss = [] @ s # ss \<and> ss' = [] @ s\<lparr>exclusive_tid := Some t\<rparr> # ss"
      using Cons.prems by auto
    then show ?thesis by blast
  next
    case False
    then obtain ys where ys: "claim_first sel t ss = Some (s, ys)" "ss' = a # ys"
      using Cons.prems by auto
    from Cons.IH [OF ys(1)] obtain pre post where
      "sel s" "ss = pre @ s # post" "ys = pre @ s\<lparr>exclusive_tid := Some t\<rparr> # post" by blast
    then have "sel s \<and> a # ss = (a # pre) @ s # post \<and>
        ss' = (a # pre) @ s\<lparr>exclusive_tid := Some t\<rparr> # post"
      using ys(2) by simp
    then show ?thesis by blast
  qed
qed simp

lemma claim_first_None: "claim_first sel t ss = None \<longleftrightarrow> (\<forall>s \<in> set ss. \<not> sel s)"
  by (induction ss) auto

lemma find_slot_Some: "find_slot i P = Some s \<Longrightarrow> s \<in> set (slots (conn_state P)) \<and> slot_id s = i"
  by (auto simp: find_slot_def find_Some_iff)

lemma find_slot_None: "find_slot i P = None \<longleftrightarrow> i \<notin> slot_id ` set (slots (conn_state P))"
  by (auto simp: find_slot_def find_None_iff)

lemma slots_ok_free:
  "slots_ok h st \<Longrightarrow> s \<in> set (slots st) \<Longrightarrow> exclusive_tid s = None \<longleftrightarrow> (\<forall>t. slot_id s \<notin> set (h t))"
  by (metis not_None_eq slots_ok_def slot_ok_def)

lemma slots_ok_split:
  "slots st = pre @ s # post \<Longrightarrow> slots_ok h st \<longleftrightarrow>
    distinct (map slot_id pre @ slot_id s # map slot_id post) \<and> slot_ok h (next_slot_id st) s \<and>
    (\<forall>x \<in> set pre \<union> set post. slot_ok h (next_slot_id st) x)"
  by (auto simp: slots_ok_def simp del: distinct_append distinct.simps)

lemma other_id:
  "distinct (map slot_id pre @ i # map slot_id post) \<Longrightarrow> x \<in> set pre \<union> set post \<Longrightarrow> slot_id x \<noteq> i"
  by (force intro: imageI)

lemma slot_ok_cong:
  "(\<And>t. slot_id s \<in> set (h t) \<longleftrightarrow> slot_id s \<in> set (h' t)) \<Longrightarrow> slot_ok h n s \<longleftrightarrow> slot_ok h' n s"
  by (simp add: slot_ok_def)

lemma slots_ok_claim:
  assumes ok: "slots_ok h st" and at: "slots st = pre @ s # post" and fr: "exclusive_tid s = None"
  shows "slots_ok (h(t := slot_id s # h t)) (st\<lparr>slots := pre @ s\<lparr>exclusive_tid := Some t\<rparr> # post\<rparr>)"
proof -
  have parts: "distinct (map slot_id pre @ slot_id s # map slot_id post)"
      "slot_ok h (next_slot_id st) s" "\<forall>x \<in> set pre \<union> set post. slot_ok h (next_slot_id st) x"
    using ok unfolding slots_ok_split [OF at] by blast+
  have "slot_ok (h(t := slot_id s # h t)) (next_slot_id st) (s\<lparr>exclusive_tid := Some t\<rparr>)"
    using parts(2) fr by (simp add: slot_ok_def)
  moreover have "slot_ok (h(t := slot_id s # h t)) (next_slot_id st) x" if x: "x \<in> set pre \<union> set post" for x
  proof -
    have "slot_id x \<noteq> slot_id s" using other_id [OF parts(1) x] .
    then show ?thesis
      using parts(3) x slot_ok_cong [of x "h(t := slot_id s # h t)" h] by simp
  qed
  ultimately show ?thesis
    using parts(1) slots_ok_split [of "st\<lparr>slots := pre @ s\<lparr>exclusive_tid := Some t\<rparr> # post\<rparr>" pre
      "s\<lparr>exclusive_tid := Some t\<rparr>" post "h(t := slot_id s # h t)"] by simp
qed

lemma holders_ok_claim:
  "holders_ok h n \<Longrightarrow> i < n \<Longrightarrow> (\<And>u. i \<notin> set (h u)) \<Longrightarrow> holders_ok (h(t := i # h t)) n"
  by (auto simp: holders_ok_def)

lemma holders_ok_unique: "holders_ok h n \<Longrightarrow> i \<in> set (h t) \<Longrightarrow> i \<in> set (h u) \<Longrightarrow> u = t"
  by (simp add: holders_ok_def)

lemma holders_ok_less: "holders_ok h n \<Longrightarrow> (\<And>u. set (h' u) \<subseteq> set (h u)) \<Longrightarrow> holders_ok h' n"
  unfolding holders_ok_def subset_iff by metis

lemma claim_inv:
  assumes inv: "pool_inv me s" and at: "slots (conn_state (pool s)) = pre @ c # post"
    and free: "exclusive_tid c = None"
    and run: "claim me t c (pre @ c\<lparr>exclusive_tid := Some t\<rparr> # post) (pool s) = (g, P)"
  shows "pool_inv me (push_guard t g P s)"
proof -
  let ?h = "\<lambda>t. claimed (guards s t)"
  have ok: "slots_ok ?h (conn_state (pool s))" "holders_ok ?h (next_slot_id (conn_state (pool s)))"
    using inv by (simp_all add: pool_inv_def)
  have nobody: "slot_id c \<notin> set (?h u)" for u
    using slots_ok_free [OF ok(1), of c] at free by simp
  have small: "slot_id c < next_slot_id (conn_state (pool s))"
    using ok(1) at by (auto simp: slots_ok_def slot_ok_def)
  have g: "g = \<lparr>guard_slot_id = slot_id c, guard_transport = slot_transport c, reentrant = False\<rparr>"
    and st: "conn_state P = (conn_state (pool s))\<lparr>slots := pre @ c\<lparr>exclusive_tid := Some t\<rparr> # post\<rparr>"
    and d: "driving P = (driving (pool s))(t := driving (pool s) t @ [(me, slot_id c)])"
    using run by (auto simp: claim_def)
  have h: "(\<lambda>u. claimed (guards (push_guard t g P s) u)) = ?h(t := slot_id c # ?h t)"
    by (auto simp: push_guard_def g)
  have "stacked (guards (push_guard t g P s) u) \<and>
      mine me (driving P u) = rev (claimed (guards (push_guard t g P s) u))" for u
    using inv nobody [of t] by (auto simp: pool_inv_def push_guard_def g d)
  moreover have "slots_ok (?h(t := slot_id c # ?h t)) (conn_state P)"
    unfolding st by (rule slots_ok_claim [OF ok(1) at free])
  moreover have "holders_ok (?h(t := slot_id c # ?h t)) (next_slot_id (conn_state P))"
    using holders_ok_claim [OF ok(2) small nobody] by (simp add: st)
  ultimately show ?thesis
    using h by (simp add: pool_inv_def) (simp add: push_guard_def)
qed

lemma reenter_inv:
  assumes "pool_inv me s" and "i \<in> set (claimed (guards s t))"
  shows "pool_inv me (push_guard t (reenter i c) (pool s) s)"
proof -
  have h: "(\<lambda>u. claimed (guards (push_guard t (reenter i c) (pool s) s) u)) = (\<lambda>u. claimed (guards s u))"
    by (auto simp: push_guard_def reenter_def)
  show ?thesis
    using assms unfolding pool_inv_def h by (auto simp: push_guard_def reenter_def)
qed

lemma give_back_split:
  "i \<notin> slot_id ` set ss \<Longrightarrow> give_back i ss = ss"
  "i \<notin> slot_id ` set pre \<Longrightarrow> slot_id s = i \<Longrightarrow>
    give_back i (pre @ s # post) = pre @ s\<lparr>exclusive_tid := None\<rparr> # post"
  by (induction ss) (auto, induction pre, auto)

lemma slots_ok_release:
  assumes ok: "slots_ok (h(t := i # is)) st" and once: "i \<notin> set is" "\<And>u. u \<noteq> t \<Longrightarrow> i \<notin> set (h u)"
  shows "slots_ok (h(t := is)) (st\<lparr>slots := give_back i (slots st)\<rparr>)"
proof (cases "i \<in> slot_id ` set (slots st)")
  case False
  then have "slot_ok (h(t := is)) n x \<longleftrightarrow> slot_ok (h(t := i # is)) n x" if x: "x \<in> set (slots st)" for n x
    using x by (intro slot_ok_cong) auto
  then show ?thesis
    using ok False unfolding slots_ok_def by (auto simp: give_back_split(1) simp del: fun_upd_apply)
next
  case True
  then obtain s where s: "s \<in> set (slots st)" "slot_id s = i" by auto
  from split_list [OF s(1)] obtain pre post where at: "slots st = pre @ s # post" by blast
  have parts: "distinct (map slot_id pre @ i # map slot_id post)" "slot_ok (h(t := i # is)) (next_slot_id st) s"
      "\<forall>x \<in> set pre \<union> set post. slot_ok (h(t := i # is)) (next_slot_id st) x"
    using ok s(2) unfolding slots_ok_split [OF at] by auto
  have "slot_ok (h(t := is)) (next_slot_id st) (s\<lparr>exclusive_tid := None\<rparr>)"
    using parts(2) s(2) once by (auto simp: slot_ok_def)
  moreover have "slot_ok (h(t := is)) (next_slot_id st) x" if x: "x \<in> set pre \<union> set post" for x
  proof -
    have "slot_id x \<noteq> i" using other_id [OF parts(1) x] .
    then show ?thesis
      using parts(3) x slot_ok_cong [of x "h(t := is)" "h(t := i # is)"] by simp
  qed
  ultimately show ?thesis
    using parts(1) s(2) at slots_ok_split [of "st\<lparr>slots := pre @ s\<lparr>exclusive_tid := None\<rparr> # post\<rparr>" pre
      "s\<lparr>exclusive_tid := None\<rparr>" post "h(t := is)"]
    by (simp add: give_back_split)
qed

lemma guard_drop_inv:
  assumes inv: "pool_inv me s" and top: "guards s t = g # gs"
  shows "pool_inv me (s\<lparr>pool := guard_drop me t g (pool s), guards := (guards s)(t := gs)\<rparr>)"
proof (cases "reentrant g")
  case True
  then have h: "(\<lambda>u. claimed (((guards s)(t := gs)) u)) = (\<lambda>u. claimed (guards s u))"
    using top by auto
  have st: "stacked gs" using inv top by (simp add: pool_inv_def) (metis stacked.simps(2))
  show ?thesis
    using inv st True top fun_cong [OF h] unfolding pool_inv_def by (simp add: guard_drop_def h)
next
  case False
  let ?h = "\<lambda>u. claimed (guards s u)" and ?i = "guard_slot_id g"
  have ht: "?h t = ?i # claimed gs" using top False by simp
  have hu: "?h(t := ?i # claimed gs) = ?h" unfolding ht [symmetric] by (rule fun_upd_triv)
  have h': "?h(t := claimed gs) = (\<lambda>u. claimed (if u = t then gs else guards s u))" by auto
  have all: "stacked (guards s u)" "mine me (driving (pool s) u) = rev (?h u)" for u
    using inv by (simp_all add: pool_inv_def)
  have own: "holders_ok ?h (next_slot_id (conn_state (pool s)))" and ok: "slots_ok ?h (conn_state (pool s))"
    using inv by (simp_all add: pool_inv_def)
  have once: "?i \<notin> set (claimed gs)" "stacked gs" using all(1) [of t] top False by simp_all
  have alone: "?i \<notin> set (?h u)" if "u \<noteq> t" for u
    using holders_ok_unique [OF own, of ?i t u] that ht by auto
  have "slots_ok (?h(t := claimed gs)) ((conn_state (pool s))\<lparr>slots := give_back ?i (slots (conn_state (pool s)))\<rparr>)"
    by (rule slots_ok_release) (simp_all only: hu ok once alone not_False_eq_True)
  moreover have "holders_ok (?h(t := claimed gs)) (next_slot_id (conn_state (pool s)))"
    by (rule holders_ok_less [OF own]) (use ht in auto)
  moreover have "mine me (remove_last (me, ?i) (driving (pool s) t)) = rev (claimed gs)"
    by (rule mine_remove_last) (use all(2) [of t] ht in simp)
  ultimately show ?thesis
    using all once False unfolding pool_inv_def by (simp add: guard_drop_def h' del: fun_upd_apply) simp
qed

lemma driven_claimed:
  "pool_inv me s \<Longrightarrow> driven me (driving (pool s) t) = (case claimed (guards s t) of [] \<Rightarrow> None | i # _ \<Rightarrow> Some i)"
  by (simp add: pool_inv_def driven_mine)

lemma driven_None: "pool_inv me s \<Longrightarrow> driven me (driving (pool s) t) = None \<longleftrightarrow> claimed (guards s t) = []"
  by (simp add: driven_claimed split: list.splits)

lemma driven_Some: "pool_inv me s \<Longrightarrow> driven me (driving (pool s) t) = Some i \<Longrightarrow> i \<in> set (claimed (guards s t))"
  by (auto simp: driven_claimed split: list.splits)

lemma driving_claimed: "pool_inv me s \<Longrightarrow> (me, i) \<in> set (driving (pool s) t) \<longleftrightarrow> i \<in> set (claimed (guards s t))"
  by (simp add: mine_member pool_inv_def)

lemma not_own:
  assumes "pool_inv me s" and "c \<in> set (slots (conn_state (pool s)))"
    and "slot_id c \<notin> set (claimed (guards s t))" and "exclusive_tid c = Some t \<or> exclusive_tid c = None"
  shows "exclusive_tid c = None"
  using assms by (auto simp: pool_inv_def slots_ok_def slot_ok_def)

lemma claim_first_inv:
  assumes inv: "pool_inv me s" and first: "claim_first sel t (slots (conn_state (pool s))) = Some (c, ss)"
    and avail: "\<And>x. x \<in> set (slots (conn_state (pool s))) \<Longrightarrow> sel x \<Longrightarrow>
      slot_id x \<notin> set (claimed (guards s t)) \<and> (exclusive_tid x = Some t \<or> exclusive_tid x = None)"
    and run: "claim me t c ss (pool s) = (g, P)"
  shows "pool_inv me (push_guard t g P s)"
proof -
  from claim_first_Some [OF first] obtain pre post where
    c: "sel c" "slots (conn_state (pool s)) = pre @ c # post"
       "ss = pre @ c\<lparr>exclusive_tid := Some t\<rparr> # post" by blast
  have mem: "c \<in> set (slots (conn_state (pool s)))" using c(2) by simp
  have "exclusive_tid c = None"
    using not_own [OF inv mem] avail [OF mem c(1)] by blast
  then show ?thesis
    using claim_inv [OF inv c(2)] run c(3) by blast
qed

lemma find_conn_inv:
  assumes inv: "pool_inv me s" and run: "find_conn me t (pool s) = (Found g, P)"
  shows "pool_inv me (push_guard t g P s)"
proof (cases "driven me (driving (pool s) t)")
  case (Some i)
  then show ?thesis
    using run reenter_inv [OF inv driven_Some [OF inv Some]] by (auto simp: find_conn_def split: option.splits)
next
  case None
  then obtain c ss where c: "claim_first (\<lambda>s. exclusive_tid s = Some t \<or> exclusive_tid s = None) t
      (slots (conn_state (pool s))) = Some (c, ss)" "claim me t c ss (pool s) = (g, P)"
    using run by (auto simp: find_conn_def split: if_splits option.splits prod.splits)
  show ?thesis
    by (rule claim_first_inv [OF inv c(1) _ c(2)]) (use None driven_None [OF inv] in simp)
qed

lemma try_find_conn_inv:
  assumes inv: "pool_inv me s" and run: "try_find_conn me t (pool s) = (Some g, P)"
  shows "pool_inv me (push_guard t g P s)"
proof (cases "driven me (driving (pool s) t)")
  case (Some i)
  then show ?thesis
    using run reenter_inv [OF inv driven_Some [OF inv Some]] by (auto simp: try_find_conn_def split: option.splits)
next
  case None
  then obtain c ss where c: "claim_first (\<lambda>s. exclusive_tid s = None) t
      (slots (conn_state (pool s))) = Some (c, ss)" "claim me t c ss (pool s) = (g, P)"
    using run by (auto simp: try_find_conn_def split: option.splits prod.splits)
  show ?thesis
    by (rule claim_first_inv [OF inv c(1) _ c(2)]) (use None driven_None [OF inv] in simp)
qed

lemma find_conn_for_reaper_inv:
  assumes inv: "pool_inv me s" and idle: "guards s t = []"
    and run: "find_conn_for_reaper me t (pool s) = (Found g, P)"
  shows "pool_inv me (push_guard t g P s)"
proof -
  obtain c ss where c: "claim_first (\<lambda>s. exclusive_tid s = Some t \<or> exclusive_tid s = None) t
      (slots (conn_state (pool s))) = Some (c, ss)" "claim me t c ss (pool s) = (g, P)"
    using run by (auto simp: find_conn_for_reaper_def split: if_splits option.splits prod.splits)
  show ?thesis
    by (rule claim_first_inv [OF inv c(1) _ c(2)]) (use idle in simp)
qed

lemma find_conn_pinned_inv:
  assumes inv: "pool_inv me s" and run: "find_conn_pinned me t want (pool s) = (Found g, P)"
  shows "pool_inv me (push_guard t g P s)"
proof (cases "(me, want) \<in> set (driving (pool s) t)")
  case True
  then have "want \<in> set (claimed (guards s t))" using driving_claimed [OF inv] by simp
  then show ?thesis
    using run True reenter_inv [OF inv] by (auto simp: find_conn_pinned_def split: option.splits)
next
  case False
  then obtain c0 c ss where c: "claim_first (\<lambda>s. slot_id s = want) t
      (slots (conn_state (pool s))) = Some (c, ss)" "claim me t c ss (pool s) = (g, P)"
      and c0: "find_slot want (pool s) = Some c0" "exclusive_tid c0 = Some t \<or> exclusive_tid c0 = None"
    using run by (auto simp: find_conn_pinned_def split: if_splits option.splits prod.splits)
  have dist: "distinct (map slot_id (slots (conn_state (pool s))))"
    using inv by (simp add: pool_inv_def slots_ok_def)
  have same: "x = c0" if x: "x \<in> set (slots (conn_state (pool s)))" "slot_id x = want" for x
    using dist x find_slot_Some [OF c0(1)] inj_onD [of slot_id "set (slots (conn_state (pool s)))" x c0] by (simp add: distinct_map)
  have mine_not: "want \<notin> set (claimed (guards s t))" using False driving_claimed [OF inv] by simp
  show ?thesis
  proof (rule claim_first_inv [OF inv c(1) _ c(2)])
    fix x assume x: "x \<in> set (slots (conn_state (pool s)))" "slot_id x = want"
    show "slot_id x \<notin> set (claimed (guards s t)) \<and> (exclusive_tid x = Some t \<or> exclusive_tid x = None)"
      using same [OF x] x(2) mine_not c0(2) by simp
  qed
qed

lemmas pool_take_inv = find_conn_inv try_find_conn_inv find_conn_for_reaper_inv find_conn_pinned_inv

lemma holders_ok_bound: "holders_ok h n \<Longrightarrow> i \<in> set (h t) \<Longrightarrow> i < n"
  by (simp add: holders_ok_def)

lemma slots_ok_add:
  "slots_ok h st \<Longrightarrow> holders_ok h (next_slot_id st) \<Longrightarrow>
    slots_ok h (st\<lparr>next_slot_id := Suc (next_slot_id st),
      slots := slots st @ [\<lparr>slot_transport = x, exclusive_tid = None, slot_id = next_slot_id st\<rparr>]\<rparr>)"
  by (auto simp: slots_ok_def slot_ok_def dest: holders_ok_bound)

lemma holders_ok_mono: "holders_ok h n \<Longrightarrow> n \<le> m \<Longrightarrow> holders_ok h m"
  unfolding holders_ok_def by (meson less_le_trans)

lemma add_slot_inv:
  "pool_inv me s \<Longrightarrow> add_slot_inner x (pool s) = (i, P) \<Longrightarrow> pool_inv me (s\<lparr>pool := P\<rparr>)"
  using slots_ok_add [of "\<lambda>t. claimed (guards s t)" "conn_state (pool s)" x]
    holders_ok_mono [of "\<lambda>t. claimed (guards s t)" "next_slot_id (conn_state (pool s))" "Suc (next_slot_id (conn_state (pool s)))"]
  by (auto simp: pool_inv_def add_slot_inner_def Let_def)

lemma add_capped_inv:
  "pool_inv me s \<Longrightarrow> add_slot_inner_capped x cap (pool s) = (r, P) \<Longrightarrow> pool_inv me (s\<lparr>pool := P\<rparr>)"
  by (auto simp: add_slot_inner_capped_def split: if_splits prod.splits intro: add_slot_inv)

lemma remove_slot_inv: "pool_inv me s \<Longrightarrow> pool_inv me (s\<lparr>pool := remove_slot i (pool s)\<rparr>)"
  by (auto simp: pool_inv_def remove_slot_def slots_ok_def slot_ok_def distinct_map_filter)

lemma pool_init_inv: "pool_init me s \<Longrightarrow> pool_inv me s"
  by (auto simp: pool_init_def pool_inv_def slots_ok_def holders_ok_def mine_def filter_empty_conv)

lemma pool_step_inv: "pool_inv me s \<Longrightarrow> pool_step me s s' \<Longrightarrow> pool_inv me s'"
proof (erule pool_step.cases, goal_cases)
  case 9
  then show ?case by (simp add: pool_inv_def)
next
  case 10
  then show ?case by (auto simp: pool_inv_def mine_def)
qed (auto intro: pool_take_inv guard_drop_inv add_slot_inv add_capped_inv remove_slot_inv)

interpretation pool: inductive_invariant "pool_init me" "pool_step me" "pool_inv me" for me
  by unfold_locales (auto intro: pool_init_inv pool_step_inv)

lemma stacked_empty: "stacked gs \<Longrightarrow> claimed gs = [] \<Longrightarrow> gs = []"
  using stacked_guards [of gs] by simp

lemma claimed_iff: "pool_inv me s \<Longrightarrow> i \<in> set (claimed (guards s t)) \<longleftrightarrow> (\<exists>g \<in> set (guards s t). guard_slot_id g = i)"
  using stacked_guards [of "guards s t"] unfolding pool_inv_def by (metis image_iff)

lemma held_by:
  "pool_inv me s \<Longrightarrow> c \<in> set (slots (conn_state (pool s))) \<Longrightarrow>
    exclusive_tid c = Some t \<longleftrightarrow> (\<exists>g \<in> set (guards s t). guard_slot_id g = slot_id c)"
  by (simp add: claimed_iff [symmetric]) (simp add: pool_inv_def slots_ok_def slot_ok_def)

lemma guards_exclusive:
  assumes "pool_inv me s" and "g \<in> set (guards s t)" and "g' \<in> set (guards s u)"
    and "guard_slot_id g = guard_slot_id g'"
  shows "t = u"
proof -
  have "guard_slot_id g \<in> set (claimed (guards s t))" "guard_slot_id g \<in> set (claimed (guards s u))"
    using assms(2-4) unfolding claimed_iff [OF assms(1)] by auto
  then show ?thesis
    using holders_ok_unique [of "\<lambda>t. claimed (guards s t)" "next_slot_id (conn_state (pool s))"
        "guard_slot_id g" u t] assms(1)
    by (simp add: pool_inv_def)
qed

lemma find_conn_waits:
  assumes inv: "pool_inv me s" and waits: "fst (find_conn me t (pool s)) = MustWait"
  shows "guards s t = [] \<and> \<not> torn_down (pool s) \<and> slots (conn_state (pool s)) \<noteq> [] \<and>
    (\<forall>c \<in> set (slots (conn_state (pool s))).
      \<exists>u. u \<noteq> t \<and> (\<exists>g \<in> set (guards s u). guard_slot_id g = slot_id c))"
proof -
  have none: "driven me (driving (pool s) t) = None"
    and busy: "claim_first (\<lambda>s. exclusive_tid s = Some t \<or> exclusive_tid s = None) t (slots (conn_state (pool s))) = None"
    and live: "\<not> torn_down (pool s)" "slots (conn_state (pool s)) \<noteq> []"
    using waits by (auto simp: find_conn_def split: option.splits if_splits prod.splits)
  have "guards s t = []"
    using stacked_empty [of "guards s t"] none driven_None [OF inv] inv by (simp add: pool_inv_def)
  moreover have "\<exists>u. u \<noteq> t \<and> (\<exists>g \<in> set (guards s u). guard_slot_id g = slot_id c)"
    if c: "c \<in> set (slots (conn_state (pool s)))" for c
  proof -
    obtain u where "exclusive_tid c = Some u" "u \<noteq> t"
      using busy c unfolding claim_first_None by blast
    then show ?thesis using held_by [OF inv c, of u] by blast
  qed
  ultimately show ?thesis using live by blast
qed

text \<open>C22: connections are never shared between threads, and never lost. In every reachable state of a
  session's pool: two threads never hold guards on the same connection, whichever selectors handed them
  out and whatever was added or retired meanwhile; a connection of the pool is marked free exactly when
  no thread holds a guard on it; a nested call of a thread that already drives a connection never waits,
  it re-enters that connection, or fails with \<open>DeadObject\<close> if it was retired; and a top-level call waits
  only when the session is live, has connections, and each of them is held by another thread.\<close>

theorem pool_exclusive:
  assumes "reach (pool_init me) (pool_step me) s"
  shows "(\<forall>g \<in> set (guards s t). \<forall>g' \<in> set (guards s u). guard_slot_id g = guard_slot_id g' \<longrightarrow> t = u) \<and>
    (\<forall>c \<in> set (slots (conn_state (pool s))).
      exclusive_tid c = None \<longleftrightarrow> (\<forall>v. \<forall>g \<in> set (guards s v). guard_slot_id g \<noteq> slot_id c)) \<and>
    (\<forall>i is. claimed (guards s t) = i # is \<longrightarrow>
      find_conn me t (pool s) =
        (case find_slot i (pool s) of Some c \<Rightarrow> Found (reenter i c) | None \<Rightarrow> NoConn DeadObject, pool s)) \<and>
    (fst (find_conn me t (pool s)) = MustWait \<longrightarrow>
      guards s t = [] \<and> \<not> torn_down (pool s) \<and> slots (conn_state (pool s)) \<noteq> [] \<and>
      (\<forall>c \<in> set (slots (conn_state (pool s))).
        \<exists>v. v \<noteq> t \<and> (\<exists>g \<in> set (guards s v). guard_slot_id g = slot_id c)))"
proof -
  have inv: "pool_inv me s" using assms by (rule pool.inv_reach)
  have "exclusive_tid c = None \<longleftrightarrow> (\<forall>v. \<forall>g \<in> set (guards s v). guard_slot_id g \<noteq> slot_id c)"
    if c: "c \<in> set (slots (conn_state (pool s)))" for c
    using held_by [OF inv c] by (metis not_None_eq)
  moreover have "find_conn me t (pool s) =
      (case find_slot i (pool s) of Some c \<Rightarrow> Found (reenter i c) | None \<Rightarrow> NoConn DeadObject, pool s)"
    if i: "claimed (guards s t) = i # is" for i "is"
    using i driven_claimed [OF inv, of t] by (auto simp: find_conn_def split: option.splits)
  ultimately show ?thesis
    using guards_exclusive [OF inv] find_conn_waits [OF inv] by blast
qed

definition empty_pool :: pool_sys where
  "empty_pool = \<lparr>pool = \<lparr>conn_state = \<lparr>slots = [], next_slot_id = 0\<rparr>, driving = (\<lambda>_. []), torn_down = False\<rparr>,
    guards = (\<lambda>_. [])\<rparr>"

definition one_busy :: pool_sys where
  "one_busy = (let P = snd (add_slot_inner 5 (pool empty_pool)) in
    case find_conn 9 1 P of (Found g, Q) \<Rightarrow> push_guard 1 g Q (empty_pool\<lparr>pool := P\<rparr>) | _ \<Rightarrow> empty_pool)"

lemma one_busy_reached: "reach (pool_init 9) (pool_step 9) one_busy"
proof -
  let ?P = "snd (add_slot_inner 5 (pool empty_pool))"
  have "reach (pool_init 9) (pool_step 9) empty_pool"
    by (rule reach_init) (simp add: pool_init_def empty_pool_def)
  then have one: "reach (pool_init 9) (pool_step 9) (empty_pool\<lparr>pool := ?P\<rparr>)"
    by (rule reach_step) (rule add_slot [of 5 _ "fst (add_slot_inner 5 (pool empty_pool))"], simp)
  have "\<exists>g Q. find_conn 9 1 ?P = (Found g, Q)"
    by (simp add: find_conn_def driven_def empty_pool_def add_slot_inner_def Let_def claim_def)
  then obtain g Q where g: "find_conn 9 1 ?P = (Found g, Q)" by blast
  have "pool_step 9 (empty_pool\<lparr>pool := ?P\<rparr>) (push_guard 1 g Q (empty_pool\<lparr>pool := ?P\<rparr>))"
    by (rule take_any) (use g in simp)
  moreover have "one_busy = push_guard 1 g Q (empty_pool\<lparr>pool := ?P\<rparr>)"
    using g by (simp add: one_busy_def Let_def)
  ultimately show ?thesis using reach_step [OF one] by metis
qed

theorem pool_exclusive_witness:
  "fst (find_conn 9 2 (pool one_busy)) = MustWait \<and> map guard_slot_id (guards one_busy 1) = [0] \<and>
   guards one_busy 2 = [] \<and>
   find_conn 9 1 (pool one_busy) = (Found \<lparr>guard_slot_id = 0, guard_transport = 5, reentrant = True\<rparr>, pool one_busy)"
proof -
  have r: "map guard_slot_id (guards one_busy 1) = [0]" "claimed (guards one_busy 1) = [0]"
     "fst (find_conn 9 2 (pool one_busy)) = MustWait"
     "find_slot 0 (pool one_busy) = Some \<lparr>slot_transport = 5, exclusive_tid = Some 1, slot_id = 0\<rparr>"
    by (simp_all add: one_busy_def empty_pool_def add_slot_inner_def find_conn_def driven_def claim_def
      push_guard_def claimed_def find_slot_def Let_def)
  have w: "guards one_busy 2 = []"
    using pool_exclusive [OF one_busy_reached, where t = 2] r(3) by blast
  have "find_conn 9 1 (pool one_busy) = (case find_slot 0 (pool one_busy) of Some c \<Rightarrow> Found (reenter 0 c)
      | None \<Rightarrow> NoConn DeadObject, pool one_busy)"
    using pool_exclusive [OF one_busy_reached, where t = 1] r(2) by blast
  then show ?thesis using r w by (simp add: reenter_def)
qed

end
