(* ===== verification/Rpc_Session.thy ===== *)
theory Rpc_Session
  imports Rpc_State Rpc_Lifecycle Rpc_Pool Parcel_Codec
begin

text \<open>
  One end of an RPC session, \<open>rsbinder/src/rpc/session.rs\<close>: binders crossing the session, outgoing and
  incoming transactions, replies, special transactions and the serve loop, over the object table
  (\<open>Rpc_State\<close>), the pool (\<open>Rpc_Pool\<close>), the lifecycle word (\<open>Rpc_Lifecycle\<close>), the codecs and the
  parcel. Operations run on one thread. Each connection has the list of messages that arrive on it;
  \<open>None\<close> is a call that does not return: it waits for a message or a connection that never comes, or
  runs forever. A sent message is appended to the outbox.
\<close>

section \<open>Wire profiles\<close>

datatype WireProfile = R34 | Android13Plus Android13PlusCodec

fun aosp_framing :: "WireProfile \<Rightarrow> bool" where
  "aosp_framing R34 = False"
| "aosp_framing (Android13Plus c) = True"

fun wire_version :: "WireProfile \<Rightarrow> u32 option" where
  "wire_version R34 = None"
| "wire_version (Android13Plus c) = Some (codec_version c)"

definition records_binder_positions :: "WireProfile \<Rightarrow> bool" where
  "records_binder_positions w = (case wire_version w of Some v \<Rightarrow> v \<ge> PROTOCOL_V2 | None \<Rightarrow> False)"

definition records_fd_positions :: "WireProfile \<Rightarrow> bool" where
  "records_fd_positions w = (case wire_version w of Some v \<Rightarrow> v \<ge> PROTOCOL_V1 | None \<Rightarrow> False)"

text \<open>\<open>codec()\<close>: dynamic dispatch to one of the two codecs.\<close>

fun codec_encode_transact :: "WireProfile \<Rightarrow> WireTransaction \<Rightarrow> byte list rpc_result" where
  "codec_encode_transact R34 t = r34_encode_transact t"
| "codec_encode_transact (Android13Plus c) t = a13_encode_transact c t"

fun codec_encode_reply :: "WireProfile \<Rightarrow> WireReply \<Rightarrow> byte list rpc_result" where
  "codec_encode_reply R34 r = r34_encode_reply r"
| "codec_encode_reply (Android13Plus c) r = a13_encode_reply c r"

fun codec_encode_dec_strong :: "WireProfile \<Rightarrow> RpcAddress \<Rightarrow> byte list rpc_result" where
  "codec_encode_dec_strong R34 a = r34_encode_dec_strong a"
| "codec_encode_dec_strong (Android13Plus c) a = a13_encode_dec_strong c a"

fun codec_decode_message :: "WireProfile \<Rightarrow> byte list \<Rightarrow> WireMessage rpc_result" where
  "codec_decode_message R34 f = r34_decode_message f"
| "codec_decode_message (Android13Plus c) f = a13_decode_message c f"

section \<open>Interface tokens and addresses in parcels\<close>

definition write_rpc_interface_token :: "scalar list \<Rightarrow> parcel \<Rightarrow> unit result \<times> parcel" where
  "write_rpc_interface_token descriptor p = serialize_str descriptor p"

definition consume_rpc_interface_token :: "scalar list \<Rightarrow> parcel \<Rightarrow> unit result \<times> parcel" where
  "consume_rpc_interface_token expected p =
    andThen (deserialize_str p) (\<lambda>got p. if got \<noteq> expected then (Err BadType, p) else (Ok (), p))"

definition write_addr :: "RpcAddress \<Rightarrow> parcel \<Rightarrow> unit result \<times> parcel" where
  "write_addr addr p = write_aligned_data (as_wire_bytes addr) p"

definition read_addr :: "parcel \<Rightarrow> RpcAddress result \<times> parcel" where
  "read_addr p = andThen (read_aligned_data RPC_ADDR_LEN p) (\<lambda>bs p. (Ok (RpcAddress bs), p))"

fun wire_write_binder_addr :: "WireProfile \<Rightarrow> RpcAddress \<Rightarrow> parcel \<Rightarrow> unit result \<times> parcel" where
  "wire_write_binder_addr R34 addr p = write_addr addr p"
| "wire_write_binder_addr (Android13Plus c) addr p = write_aligned_data (encode_addr addr) p"

fun to_status :: "(errno_name \<Rightarrow> int) \<Rightarrow> 'a rpc_result \<Rightarrow> 'a result" where
  "to_status E (Ok a) = Ok a"
| "to_status E (Err e) = Err (StatusCode_of_RpcErr E e)"
| "to_status E Panic = Panic"

fun wire_read_binder_addr :: "(errno_name \<Rightarrow> int) \<Rightarrow> WireProfile \<Rightarrow> parcel \<Rightarrow> RpcAddress result \<times> parcel" where
  "wire_read_binder_addr E R34 p = read_addr p"
| "wire_read_binder_addr E (Android13Plus c) p =
    andThen (read_aligned_data A13_ADDR_LEN p) (\<lambda>bs p. (to_status E (decode_addr bs 0), p))"

section \<open>The session\<close>

text \<open>A binder is an object of this process or a proxy, each with its allocation; \<open>downcast_ref\<close> tells
  them apart and gives the proxy's address.\<close>

datatype rpc_obj = LocalObj ptr | RpcProxy ptr RpcAddress

record RpcSessionInner =
  ses_pool :: conn_pool
  ses_profile :: WireProfile
  ses_dec_queue :: "RpcAddress list"
  ses_state :: RpcState
  ses_root :: "rpc_obj option"
  ses_max_threads :: u32
  ses_negotiated :: u32
  ses_timeout :: "nat option"
  ses_fd_mode :: FileDescriptorTransportMode
  ses_fd_unix :: bool
  ses_id :: "byte list"
  ses_lifecycle :: u64
  ses_inbox :: "nat \<Rightarrow> (byte list \<times> fd list) rpc_result list"
  ses_outbox :: "(nat \<times> byte list \<times> fd list) list"
  ses_read_timeouts :: "nat \<Rightarrow> nat option"
  ses_alive :: "ptr set"
  ses_next_ptr :: ptr
  ses_parceled :: "ptr list"
  ses_obituaries :: "ptr set"

text \<open>What surrounds the session: the session's own address and the calling thread, the errors the
  transport reports when it sends (after what was sent so far) or changes a deadline, the platform's
  error numbers and SDK, and the user's objects: their stability, descriptor and handler. A handler gets
  the code, the peer and the two parcels, and may use the session.\<close>

record rpc_env =
  env_me :: nat
  env_tid :: tid
  env_send_error :: "(nat \<times> byte list \<times> fd list) list \<Rightarrow> nat \<Rightarrow> RpcErr option"
  env_timeout_error :: "nat option \<Rightarrow> RpcErr option"
  env_errno :: "errno_name \<Rightarrow> int"
  env_sdk :: "nat option"
  env_peer :: "nat \<Rightarrow> PeerIdentity"
  env_stability :: "ptr \<Rightarrow> Stability"
  env_descriptor :: "ptr \<Rightarrow> scalar list"
  env_rpc_transact :: "ptr \<Rightarrow> u32 \<Rightarrow> PeerIdentity \<Rightarrow> parcel \<times> parcel \<Rightarrow> RpcSessionInner \<Rightarrow>
    (unit result \<times> (parcel \<times> parcel) \<times> RpcSessionInner) option"

type_synonym 'a act = "('a result \<times> RpcSessionInner) option"

abbreviation env_status :: "rpc_env \<Rightarrow> 'a rpc_result \<Rightarrow> 'a result" where
  "env_status E \<equiv> to_status (env_errno E)"

definition session_pool :: "RpcSessionInner \<Rightarrow> conn_pool" where
  "session_pool s = (ses_pool s)\<lparr>torn_down := is_torn_down (ses_lifecycle s)\<rparr>"

section \<open>Messages on a connection\<close>

definition send_msg :: "rpc_env \<Rightarrow> nat \<Rightarrow> byte list \<Rightarrow> fd list \<Rightarrow> RpcSessionInner \<Rightarrow> unit rpc_result \<times> RpcSessionInner" where
  "send_msg E tr frame fds s =
    (case env_send_error E (ses_outbox s) tr of
       Some e \<Rightarrow> (Err e, s)
     | None \<Rightarrow> (Ok (), s\<lparr>ses_outbox := ses_outbox s @ [(tr, frame, if ses_fd_mode s = FdUnix then fds else [])]\<rparr>))"

definition recv_msg :: "nat \<Rightarrow> RpcSessionInner \<Rightarrow> ((byte list \<times> fd list) rpc_result \<times> RpcSessionInner) option" where
  "recv_msg tr s =
    (case ses_inbox s tr of
       [] \<Rightarrow> None
     | r # rs \<Rightarrow> Some (bind_out r (\<lambda>(frame, fds). Ok (frame, if ses_fd_mode s = FdUnix then fds else [])),
         s\<lparr>ses_inbox := (ses_inbox s)(tr := rs)\<rparr>))"

definition session_find_conn :: "rpc_env \<Rightarrow> RpcSessionInner \<Rightarrow> ConnGuard act" where
  "session_find_conn E s =
    (case find_conn (env_me E) (env_tid E) (session_pool s) of
       (Found g, P) \<Rightarrow> Some (Ok g, s\<lparr>ses_pool := P\<rparr>)
     | (NoConn c, P) \<Rightarrow> Some (Err c, s\<lparr>ses_pool := P\<rparr>)
     | (MustWait, P) \<Rightarrow> None)"

definition drop_conn :: "rpc_env \<Rightarrow> ConnGuard \<Rightarrow> RpcSessionInner \<Rightarrow> RpcSessionInner" where
  "drop_conn E g s = s\<lparr>ses_pool := guard_drop (env_me E) (env_tid E) g (ses_pool s)\<rparr>"

text \<open>A guard lives to the end of its block, on every exit.\<close>

definition with_conn :: "rpc_env \<Rightarrow> ConnGuard act \<Rightarrow> (ConnGuard \<Rightarrow> RpcSessionInner \<Rightarrow> 'a act) \<Rightarrow> 'a act" where
  "with_conn E m body = seq_act m (\<lambda>g s. map_option (\<lambda>(r, s). (r, drop_conn E g s)) (body g s))"

definition queue_dec_strong :: "rpc_env \<Rightarrow> RpcAddress \<Rightarrow> RpcSessionInner \<Rightarrow> unit result \<times> RpcSessionInner" where
  "queue_dec_strong E addr s =
    (if is_torn_down (ses_lifecycle s) then (Ok (), s)
     else case try_find_conn (env_me E) (env_tid E) (session_pool s) of
         (Some g, P) \<Rightarrow>
           (case codec_encode_dec_strong (ses_profile s) addr of
              Ok frame \<Rightarrow> (Ok (), drop_conn E g (snd (send_msg E (guard_transport g) frame [] (s\<lparr>ses_pool := P\<rparr>))))
            | _ \<Rightarrow> (Panic, drop_conn E g (s\<lparr>ses_pool := P\<rparr>)))
       | (None, P) \<Rightarrow> (Ok (), s\<lparr>ses_pool := P, ses_dec_queue := ses_dec_queue s @ [addr]\<rparr>))"

definition send_dec_strong :: "rpc_env \<Rightarrow> RpcAddress \<Rightarrow> RpcSessionInner \<Rightarrow> unit act" where
  "send_dec_strong E addr s =
    (if is_torn_down (ses_lifecycle s) then Some (Ok (), s)
     else with_conn E (session_find_conn E s) (\<lambda>g s.
       case codec_encode_dec_strong (ses_profile s) addr of
         Ok frame \<Rightarrow> (case send_msg E (guard_transport g) frame [] s of (r, s) \<Rightarrow> Some (env_status E r, s))
       | _ \<Rightarrow> Some (Panic, s)))"

section \<open>Binders in parcels\<close>

definition leaving_address :: "rpc_obj \<Rightarrow> parcel \<times> RpcSessionInner \<Rightarrow>
    RpcAddress result \<times> (parcel \<times> RpcSessionInner)" where
  "leaving_address b ps =
    (case b of
       RpcProxy q addr \<Rightarrow> (Ok addr, ps)
     | LocalObj q \<Rightarrow>
         (case on_binder_leaving q (ses_state (snd ps)) of (r, st) \<Rightarrow>
            andThen (r, (fst ps, (snd ps)\<lparr>ses_state := st\<rparr>)) (\<lambda>addr (p, s).
              (Ok addr, (rpc_record_leaving_addr addr p, s)))))"

definition flatten_binder :: "WireProfile \<Rightarrow> RpcAddress \<Rightarrow> i32 \<Rightarrow> parcel \<Rightarrow> unit result \<times> parcel" where
  "flatten_binder w addr rep p =
    (let obj_pos = ppos p in
     andThen (write_i32 1 p) (\<lambda>_ p.
       andThen (wire_write_binder_addr w addr p) (\<lambda>_ p.
         let p = (if records_binder_positions w then rpc_record_object_position obj_pos p else p)
         in case w of Android13Plus c \<Rightarrow> write_word rep p | R34 \<Rightarrow> (Ok (), p))))"

definition binder_ptr :: "rpc_obj \<Rightarrow> ptr" where
  "binder_ptr b = (case b of LocalObj q \<Rightarrow> q | RpcProxy q a \<Rightarrow> q)"

definition write_binder :: "rpc_env \<Rightarrow> rpc_obj option \<Rightarrow> parcel \<times> RpcSessionInner \<Rightarrow>
    unit result \<times> (parcel \<times> RpcSessionInner)" where
  "write_binder E binder ps =
    (case binder of
       None \<Rightarrow> (case write_i32 0 (fst ps) of (r, p) \<Rightarrow> (r, (p, snd ps)))
     | Some b \<Rightarrow>
         andThen (leaving_address b ps) (\<lambda>addr (p, s).
           case flatten_binder (ses_profile s) addr
               (i32_of_Stability (env_sdk E) (env_stability E (binder_ptr b))) p of
             (r, p) \<Rightarrow> andThen (r, (p, s)) (\<lambda>_ (p, s).
               (Ok (), (p, case b of
                  LocalObj q \<Rightarrow> s\<lparr>ses_parceled := q # ses_parceled s\<rparr> | RpcProxy q a \<Rightarrow> s)))))"

text \<open>A proxy that is made gets the next free allocation and is alive.\<close>

definition cache_proxy :: "RpcAddress \<Rightarrow> RpcSessionInner \<Rightarrow> (rpc_obj \<times> bool) \<times> RpcSessionInner" where
  "cache_proxy addr s =
    (case remote_proxy (\<lambda>q. q \<in> ses_alive s) addr (ses_next_ptr s) (ses_state s) of
       ((q, excess), st) \<Rightarrow>
         ((RpcProxy q addr, excess),
          if excess then s\<lparr>ses_state := st\<rparr>
          else s\<lparr>ses_state := st, ses_alive := insert q (ses_alive s), ses_next_ptr := ses_next_ptr s + 1\<rparr>))"

definition unflatten_binder :: "(errno_name \<Rightarrow> int) \<Rightarrow> WireProfile \<Rightarrow> parcel \<Rightarrow> RpcAddress option result \<times> parcel" where
  "unflatten_binder e w p =
    (let obj_pos = ppos p in
     andThen (read_i32 p) (\<lambda>present p.
       if present = 0 then (Ok None, p)
       else if records_binder_positions w \<and> \<not> rpc_object_position_present obj_pos p then (Err BadValue, p)
       else andThen (wire_read_binder_addr e w p) (\<lambda>addr p.
         case w of
           Android13Plus c \<Rightarrow> andThen (read_i32 p) (\<lambda>_ p. (Ok (Some addr), p))
         | R34 \<Rightarrow> (Ok (Some addr), p))))"

definition resolve_binder :: "rpc_env \<Rightarrow> RpcAddress \<Rightarrow> RpcSessionInner \<Rightarrow> rpc_obj act" where
  "resolve_binder E addr s =
    (case lookup_local addr (ses_state s) of
       Some q \<Rightarrow> Some (Ok (LocalObj q), s)
     | None \<Rightarrow>
         (case cache_proxy addr s of
            ((b, excess), s) \<Rightarrow>
              if excess then map_option (\<lambda>(r, s). (if r = Panic then Panic else Ok b, s)) (send_dec_strong E addr s)
              else Some (Ok b, s)))"

definition read_binder :: "rpc_env \<Rightarrow> parcel \<times> RpcSessionInner \<Rightarrow>
    (rpc_obj option result \<times> (parcel \<times> RpcSessionInner)) option" where
  "read_binder E ps =
    (case unflatten_binder (env_errno E) (ses_profile (snd ps)) (fst ps) of
       (Err e, p) \<Rightarrow> Some (Err e, (p, snd ps))
     | (Panic, p) \<Rightarrow> Some (Panic, (p, snd ps))
     | (Ok None, p) \<Rightarrow> Some (Ok None, (p, snd ps))
     | (Ok (Some addr), p) \<Rightarrow>
         map_option (\<lambda>(r, s). (bind_out r (\<lambda>b. Ok (Some b)), (p, s))) (resolve_binder E addr (snd ps)))"

definition rollback_outgoing :: "parcel \<Rightarrow> (RpcAddress \<times> u64) option \<Rightarrow> RpcSessionInner \<Rightarrow> RpcSessionInner" where
  "rollback_outgoing data oneway_addr s =
    (let st = (case oneway_addr of Some (a, n) \<Rightarrow> cancel_send_async_number a n (ses_state s) | None \<Rightarrow> ses_state s)
     in s\<lparr>ses_state := fold cancel_binder_leaving (rpc_leaving_addrs data) st\<rparr>)"

section \<open>Incoming transactions\<close>

definition FLAG_ONEWAY :: u32 where "FLAG_ONEWAY = 1"

definition is_oneway :: "u32 \<Rightarrow> bool" where
  "is_oneway flags \<longleftrightarrow> flags AND FLAG_ONEWAY \<noteq> 0"

definition send_reply :: "rpc_env \<Rightarrow> i32 \<Rightarrow> byte list \<Rightarrow> u32 list \<Rightarrow> fd list \<Rightarrow> RpcSessionInner \<Rightarrow> unit act" where
  "send_reply E status data positions fds s =
    (case codec_encode_reply (ses_profile s)
        \<lparr>reply_status = status, reply_data = data, reply_object_positions = positions\<rparr> of
       Err e \<Rightarrow> Some (Err (StatusCode_of_RpcErr (env_errno E) e), s)
     | Panic \<Rightarrow> Some (Panic, s)
     | Ok frame \<Rightarrow> with_conn E (session_find_conn E s) (\<lambda>g s.
         case send_msg E (guard_transport g) frame fds s of (r, s) \<Rightarrow> Some (env_status E r, s)))"

abbreviation status_word :: "rpc_env \<Rightarrow> StatusCode \<Rightarrow> i32" where
  "status_word E c \<equiv> word_of_int (i32_of_StatusCode (env_errno E) c)"

text \<open>Parcels of a session: \<open>parcel_ops()\<close> is the session's address.\<close>

definition session_parcel :: "rpc_env \<Rightarrow> RpcSessionInner \<Rightarrow> parcel \<Rightarrow> parcel" where
  "session_parcel E s p = configure_rpc (env_me E) (ses_fd_mode s) (records_fd_positions (ses_profile s)) p"

definition rpc_out_fds :: "parcel \<Rightarrow> fd list" where
  "rpc_out_fds p = (case prpc p of Some r \<Rightarrow> rf_fds_out r | None \<Rightarrow> [])"

text \<open>A reply whose sending failed gives back the references its binders took.\<close>

definition reply_or_rollback :: "rpc_env \<Rightarrow> parcel \<Rightarrow> fd list \<Rightarrow> RpcSessionInner \<Rightarrow> unit act" where
  "reply_or_rollback E reply fds s =
    map_option (\<lambda>(r, s). case r of Err e \<Rightarrow> (Err e, rollback_outgoing reply None s) | r \<Rightarrow> (r, s))
      (send_reply E 0 (pbytes reply) (rpc_object_positions reply) fds s)"

definition serve_special :: "rpc_env \<Rightarrow> WireTransaction \<Rightarrow> bool \<Rightarrow> RpcSessionInner \<Rightarrow> unit act" where
  "serve_special E t oneway s =
    (if oneway then Some (Ok (), s)
     else case special_from_code (txn_code t) of
         Some GetRoot \<Rightarrow>
           (case write_binder E (ses_root s) (attach_rpc_ops (env_me E) parcel_new, s) of
              (Ok _, (reply, s)) \<Rightarrow> reply_or_rollback E reply [] s
            | (Err e, (reply, s)) \<Rightarrow> Some (Err e, rollback_outgoing reply None s)
            | (Panic, (reply, s)) \<Rightarrow> Some (Panic, s))
       | Some GetMaxThreads \<Rightarrow>
           (case write_word (ses_max_threads s) parcel_new of
              (Ok _, reply) \<Rightarrow> send_reply E 0 (pbytes reply) [] [] s
            | (r, reply) \<Rightarrow> Some (r, s))
       | Some GetSessionId \<Rightarrow>
           (case serialize_array_raw (ses_id s) parcel_new of
              (Ok _, reply) \<Rightarrow> send_reply E 0 (pbytes reply) [] [] s
            | (r, reply) \<Rightarrow> Some (r, s))
       | Some GetFdMode \<Rightarrow>
           (case read_i32 (set_data_position 0 (from_vec (txn_data t))) of
              (Panic, _) \<Rightarrow> Some (Panic, s)
            | (req, _) \<Rightarrow>
                let want_unix = (case req of Ok v \<Rightarrow> v = 1 | _ \<Rightarrow> False);
                    fd_version_ok = (case wire_version (ses_profile s) of None \<Rightarrow> True | Some v \<Rightarrow> v \<ge> PROTOCOL_V1);
                    agreed = (if want_unix \<and> fd_version_ok \<and> ses_fd_unix s then FdUnix else FdNone)
                in case write_i32 (if agreed = FdUnix then 1 else 0) parcel_new of
                     (Ok _, reply) \<Rightarrow>
                       seq_act (send_reply E 0 (pbytes reply) [] [] s) (\<lambda>_ s.
                         Some (Ok (), s\<lparr>ses_fd_mode := agreed\<rparr>))
                   | (r, reply) \<Rightarrow> Some (r, s))
       | None \<Rightarrow> send_reply E (status_word E UnknownTransaction) [] [] [] s)"

text \<open>\<open>catch_unwind\<close> around the handler: a panic becomes \<open>Unknown\<close>.\<close>

definition run_handler :: "rpc_env \<Rightarrow> ptr \<Rightarrow> WireTransaction \<Rightarrow> PeerIdentity \<Rightarrow> parcel \<times> parcel \<Rightarrow> RpcSessionInner \<Rightarrow>
    (unit result \<times> parcel \<times> RpcSessionInner) option" where
  "run_handler E target t peer ps s =
    (case consume_rpc_interface_token (env_descriptor E target) (fst ps) of
       (Ok _, reader) \<Rightarrow>
         map_option (\<lambda>(r, (_, reply), s). (if r = Panic then Err Unknown else r, reply, s))
           (env_rpc_transact E target (txn_code t) peer (reader, snd ps) s)
     | (r, reader) \<Rightarrow> Some (r, snd ps, s))"

definition execute_dispatched ::
    "rpc_env \<Rightarrow> WireTransaction \<Rightarrow> fd list \<Rightarrow> bool \<Rightarrow> PeerIdentity \<Rightarrow> RpcSessionInner \<Rightarrow> unit act" where
  "execute_dispatched E t in_fds oneway peer s =
    (case lookup_local (txn_address t) (ses_state s) of
       None \<Rightarrow> if oneway then Some (Ok (), s) else send_reply E (status_word E DeadObject) [] [] [] s
     | Some target \<Rightarrow>
         if \<not> oneway \<and> txn_code t = INTERFACE_TRANSACTION then
           (case serialize_str (env_descriptor E target) (attach_rpc_ops (env_me E) parcel_new) of
              (Ok _, reply) \<Rightarrow> send_reply E 0 (pbytes reply) (rpc_object_positions reply) [] s
            | (r, _) \<Rightarrow> Some (r, s))
         else if \<not> oneway \<and> txn_code t = PING_TRANSACTION then send_reply E 0 [] [] [] s
         else
           let reader = set_data_position 0 (rpc_set_object_positions (txn_object_positions t)
                 (rpc_set_in_fds in_fds (session_parcel E s (from_vec (txn_data t)))));
               reply = session_parcel E s parcel_new
           in Option.bind (run_handler E target t peer (reader, reply) s) (\<lambda>(result, reply, s).
                if result = Panic then Some (Panic, s)
                else if oneway then Some (Ok (), rollback_outgoing reply None s)
                else case result of
                    Ok _ \<Rightarrow> reply_or_rollback E reply (rpc_out_fds reply) s
                  | Err e \<Rightarrow> send_reply E (status_word E e) [] [] [] (rollback_outgoing reply None s)
                  | Panic \<Rightarrow> Some (Panic, s)))"

text \<open>The \<open>while let\<close> loop that runs a one-way call and every parked call that became next.\<close>

partial_function (option) drain_oneways ::
    "rpc_env \<Rightarrow> RpcAddress \<Rightarrow> PeerIdentity \<Rightarrow> (WireTransaction \<times> fd list) option \<Rightarrow> RpcSessionInner \<Rightarrow> unit act" where
  "drain_oneways E addr peer next s =
    (case next of
       None \<Rightarrow> Some (Ok (), s)
     | Some (t, fds) \<Rightarrow>
         Option.bind (execute_dispatched E t fds True peer s) (\<lambda>(r, s).
           case r of
             Ok _ \<Rightarrow> (case advance_and_pop_async addr (ses_state s) of
                 (next, st) \<Rightarrow> drain_oneways E addr peer next (s\<lparr>ses_state := st\<rparr>))
           | Err e \<Rightarrow> Some (Err e, s)
           | Panic \<Rightarrow> Some (Panic, s)))"

definition dispatch_oneway_ordered ::
    "rpc_env \<Rightarrow> WireTransaction \<Rightarrow> fd list \<Rightarrow> PeerIdentity \<Rightarrow> RpcSessionInner \<Rightarrow> unit act" where
  "dispatch_oneway_ordered E t in_fds peer s =
    (case dispatch_async_or_enqueue (txn_address t) (async_number t) t in_fds (ses_state s) of
       (Terminate n, st) \<Rightarrow> Some (Err FailedTransaction, s\<lparr>ses_state := st\<rparr>)
     | (Dispatch t fds, st) \<Rightarrow> drain_oneways E (txn_address t) peer (Some (t, fds)) (s\<lparr>ses_state := st\<rparr>)
     | (_, st) \<Rightarrow> Some (Ok (), s\<lparr>ses_state := st\<rparr>))"

definition dispatch_transact :: "rpc_env \<Rightarrow> WireTransaction \<Rightarrow> fd list \<Rightarrow> PeerIdentity \<Rightarrow> RpcSessionInner \<Rightarrow> unit act" where
  "dispatch_transact E t in_fds peer s =
    (let oneway = is_oneway (txn_flags t) in
     if is_zero (txn_address t) then serve_special E t oneway s
     else if oneway then dispatch_oneway_ordered E t in_fds peer s
     else execute_dispatched E t in_fds False peer s)"

definition serve_once_on_slot :: "rpc_env \<Rightarrow> nat \<Rightarrow> RpcSessionInner \<Rightarrow> bool act" where
  "serve_once_on_slot E slot s =
    with_conn E
      (case find_conn_pinned (env_me E) (env_tid E) slot (session_pool s) of
         (Found g, P) \<Rightarrow> Some (Ok g, s\<lparr>ses_pool := P\<rparr>)
       | (NoConn c, P) \<Rightarrow> Some (Err c, s\<lparr>ses_pool := P\<rparr>)
       | (MustWait, P) \<Rightarrow> None)
      (\<lambda>g s. Option.bind (recv_msg (guard_transport g) s) (\<lambda>(r, s).
         case r of
           Err PeerClosed \<Rightarrow> Some (Ok False, s)
         | Err e \<Rightarrow> Some (Err (StatusCode_of_RpcErr (env_errno E) e), s)
         | Panic \<Rightarrow> Some (Panic, s)
         | Ok (frame, in_fds) \<Rightarrow>
             seq_act (Some (env_status E (codec_decode_message (ses_profile s) frame), s)) (\<lambda>m s.
               case m of
                 Transact t \<Rightarrow>
                   seq_act (dispatch_transact E t in_fds (env_peer E (guard_transport g)) s) (\<lambda>_ s. Some (Ok True, s))
               | DecStrong a amount \<Rightarrow>
                   Some (Ok True, s\<lparr>ses_state := snd (dec_strong_local a amount (ses_state s))\<rparr>)
               | Reply _ \<Rightarrow> Some (Ok True, s))))"

section \<open>Outgoing transactions\<close>

definition set_read_timeout :: "rpc_env \<Rightarrow> nat \<Rightarrow> nat option \<Rightarrow> RpcSessionInner \<Rightarrow> unit rpc_result \<times> RpcSessionInner" where
  "set_read_timeout E tr d s =
    (case env_timeout_error E d of
       Some e \<Rightarrow> (Err e, s)
     | None \<Rightarrow> (Ok (), s\<lparr>ses_read_timeouts := (ses_read_timeouts s)(tr := d)\<rparr>))"

text \<open>\<open>ReplyDeadlineGuard\<close> and \<open>NestedDeadlineGuard\<close>: the deadline is set or lifted on entry and the
  opposite is done, ignoring failures, on every exit.\<close>

definition arm_deadline :: "rpc_env \<Rightarrow> nat \<Rightarrow> nat option \<Rightarrow> RpcSessionInner \<Rightarrow> unit rpc_result \<times> RpcSessionInner" where
  "arm_deadline E tr deadline s =
    (case deadline of Some d \<Rightarrow> set_read_timeout E tr (Some d) s | None \<Rightarrow> (Ok (), s))"

definition disarm_deadline :: "rpc_env \<Rightarrow> nat \<Rightarrow> nat option \<Rightarrow> RpcSessionInner \<Rightarrow> RpcSessionInner" where
  "disarm_deadline E tr deadline s = (if deadline \<noteq> None then snd (set_read_timeout E tr None s) else s)"

definition lift_deadline :: "rpc_env \<Rightarrow> nat \<Rightarrow> nat option \<Rightarrow> RpcSessionInner \<Rightarrow> unit rpc_result \<times> RpcSessionInner" where
  "lift_deadline E tr deadline s =
    (if deadline \<noteq> None then set_read_timeout E tr None s else (Ok (), s))"

definition restore_deadline :: "rpc_env \<Rightarrow> nat \<Rightarrow> nat option \<Rightarrow> RpcSessionInner \<Rightarrow> RpcSessionInner" where
  "restore_deadline E tr deadline s =
    (case deadline of Some d \<Rightarrow> snd (set_read_timeout E tr (Some d) s) | None \<Rightarrow> s)"

definition poison_slot :: "ConnGuard \<Rightarrow> RpcSessionInner \<Rightarrow> RpcSessionInner" where
  "poison_slot g s = (if reentrant g then s else s\<lparr>ses_pool := remove_slot (guard_slot_id g) (ses_pool s)\<rparr>)"

definition reply_parcel :: "rpc_env \<Rightarrow> WireReply \<Rightarrow> fd list \<Rightarrow> RpcSessionInner \<Rightarrow> parcel" where
  "reply_parcel E r in_fds s = set_data_position 0 (rpc_set_object_positions (reply_object_positions r)
    (rpc_set_in_fds in_fds (session_parcel E s (from_vec (reply_data r)))))"

text \<open>The \<open>loop\<close> that waits for the reply, applying reference releases and running nested calls.\<close>

partial_function (option) reply_loop ::
    "rpc_env \<Rightarrow> ConnGuard \<Rightarrow> nat option \<Rightarrow> RpcSessionInner \<Rightarrow> parcel option act" where
  "reply_loop E g deadline s =
    Option.bind (recv_msg (guard_transport g) s) (\<lambda>(r, s).
      case r of
        Panic \<Rightarrow> Some (Panic, s)
      | Err e \<Rightarrow> Some (Err (StatusCode_of_RpcErr (env_errno E) e), poison_slot g s)
      | Ok (frame, in_fds) \<Rightarrow>
          (case codec_decode_message (ses_profile s) frame of
             Panic \<Rightarrow> Some (Panic, s)
           | Err e \<Rightarrow> Some (Err (StatusCode_of_RpcErr (env_errno E) e), poison_slot g s)
           | Ok m \<Rightarrow>
               (case m of
                  Reply r \<Rightarrow>
                    if reply_status r \<noteq> 0
                    then Some (Err (StatusCode_of_i32 (env_errno E) (sint (reply_status r))), s)
                    else Some (Ok (Some (reply_parcel E r in_fds s)), s)
                | DecStrong a amount \<Rightarrow>
                    reply_loop E g deadline (s\<lparr>ses_state := snd (dec_strong_local a amount (ses_state s))\<rparr>)
                | Transact t \<Rightarrow>
                    (case lift_deadline E (guard_transport g) deadline s of
                       (Panic, s) \<Rightarrow> Some (Panic, s)
                     | (Err e, s) \<Rightarrow> Some (Err (StatusCode_of_RpcErr (env_errno E) e), s)
                     | (Ok _, s) \<Rightarrow>
                         Option.bind (dispatch_transact E t in_fds (env_peer E (guard_transport g)) s) (\<lambda>(r, s).
                           case r of
                             Panic \<Rightarrow> Some (Panic, restore_deadline E (guard_transport g) deadline s)
                           | Err e \<Rightarrow> Some (Err e, restore_deadline E (guard_transport g) deadline (poison_slot g s))
                           | Ok _ \<Rightarrow> reply_loop E g deadline (restore_deadline E (guard_transport g) deadline s))))))"

definition take_async_number :: "RpcAddress \<Rightarrow> bool \<Rightarrow> RpcSessionInner \<Rightarrow> u64 \<times> RpcSessionInner" where
  "take_async_number addr oneway s =
    (if oneway then case next_send_async_number addr (ses_state s) of (n, st) \<Rightarrow> (n, s\<lparr>ses_state := st\<rparr>)
     else (0, s))"

definition client_transact ::
    "rpc_env \<Rightarrow> RpcAddress \<Rightarrow> u32 \<Rightarrow> parcel \<Rightarrow> u32 \<Rightarrow> RpcSessionInner \<Rightarrow> parcel option act" where
  "client_transact E addr code data flags s =
    (let oneway = is_oneway flags in
     with_conn E (session_find_conn E s) (\<lambda>g s.
       let transport = guard_transport g;
           (async_number, s) = take_async_number addr oneway s;
           txn = \<lparr>txn_address = addr, txn_code = code, txn_flags = flags, async_number = async_number,
                  txn_data = pbytes data, txn_object_positions = rpc_object_positions data\<rparr>;
           rollback = rollback_outgoing data (if oneway then Some (addr, async_number) else None)
       in case codec_encode_transact (ses_profile s) txn of
            Panic \<Rightarrow> Some (Panic, s)
          | Err e \<Rightarrow> Some (Err (StatusCode_of_RpcErr (env_errno E) e), rollback s)
          | Ok frame \<Rightarrow>
              (case send_msg E transport frame (rpc_out_fds data) s of
                 (Panic, s) \<Rightarrow> Some (Panic, s)
               | (Err e, s) \<Rightarrow> Some (Err (StatusCode_of_RpcErr (env_errno E) e), rollback s)
               | (Ok _, s) \<Rightarrow>
                   if oneway then Some (Ok None, s)
                   else let deadline = ses_timeout s in
                     case arm_deadline E transport deadline s of
                       (Panic, s) \<Rightarrow> Some (Panic, s)
                     | (Err e, s) \<Rightarrow> Some (Err (StatusCode_of_RpcErr (env_errno E) e), s)
                     | (Ok _, s) \<Rightarrow>
                         map_option (\<lambda>(r, s). (r, disarm_deadline E transport deadline s))
                           (reply_loop E g deadline s))))"

text \<open>The client's special calls.\<close>

definition special_call :: "rpc_env \<Rightarrow> SpecialTransaction \<Rightarrow> parcel \<Rightarrow> RpcSessionInner \<Rightarrow> parcel act" where
  "special_call E sp data s =
    seq_act (client_transact E addr_zero (special_code sp) data 0 s) (\<lambda>r s.
      case r of Some reply \<Rightarrow> Some (Ok reply, s) | None \<Rightarrow> Some (Err UnexpectedNull, s))"

definition get_root :: "rpc_env \<Rightarrow> RpcSessionInner \<Rightarrow> rpc_obj act" where
  "get_root E s =
    seq_act (special_call E GetRoot parcel_new s) (\<lambda>reply s.
      map_option (\<lambda>(r, (_, s)). (bind_out r (\<lambda>b. case b of Some b \<Rightarrow> Ok b | None \<Rightarrow> Err UnexpectedNull), s))
        (read_binder E (reply, s)))"

definition get_session_id :: "rpc_env \<Rightarrow> RpcSessionInner \<Rightarrow> byte list act" where
  "get_session_id E s =
    seq_act (special_call E GetSessionId parcel_new s) (\<lambda>reply s.
      Some (fst (or_unexpected_null (deserialize_array_raw reply)), s))"

definition negotiate :: "rpc_env \<Rightarrow> u32 \<Rightarrow> RpcSessionInner \<Rightarrow> u32 act" where
  "negotiate E local_max s =
    seq_act (special_call E GetMaxThreads parcel_new s) (\<lambda>reply s.
      seq_act (Some (fst (read_i32 reply), s)) (\<lambda>remote s.
        if remote < 1 then Some (Err BadValue, s)
        else let n = max (min local_max (word_of_int remote)) 1
             in Some (Ok n, s\<lparr>ses_negotiated := n\<rparr>)))"

definition negotiate_fd_transport :: "rpc_env \<Rightarrow> FileDescriptorTransportMode \<Rightarrow> RpcSessionInner \<Rightarrow>
    FileDescriptorTransportMode act" where
  "negotiate_fd_transport E want s =
    (case write_i32 (if want = FdUnix then 1 else 0) parcel_new of
       (Ok _, req) \<Rightarrow>
         seq_act (special_call E GetFdMode req s) (\<lambda>reply s.
           seq_act (Some (fst (read_i32 reply), s)) (\<lambda>v s.
             let agreed = (if v = 1 then FdUnix else FdNone) in Some (Ok agreed, s\<lparr>ses_fd_mode := agreed\<rparr>)))
     | (Err e, _) \<Rightarrow> Some (Err e, s)
     | (Panic, _) \<Rightarrow> Some (Panic, s))"

section \<open>Building and serving a session\<close>

definition FOUNDING_SLOT_ID :: nat where "FOUNDING_SLOT_ID = 1"

text \<open>\<open>fresh_shared\<close> with the random session id \<open>sid\<close>, then \<open>with_shared\<close>; the stacks of the threads
  are what they are.\<close>

definition with_profile :: "byte list \<Rightarrow> (tid \<Rightarrow> (nat \<times> nat) list) \<Rightarrow> nat \<Rightarrow> AddressSpace \<Rightarrow> WireProfile \<Rightarrow> RpcSessionInner" where
  "with_profile sid dr transport space profile =
    \<lparr>ses_pool = \<lparr>conn_state = \<lparr>slots = [\<lparr>slot_transport = transport, exclusive_tid = None, slot_id = FOUNDING_SLOT_ID\<rparr>],
        next_slot_id = 2\<rparr>, driving = dr, torn_down = False\<rparr>,
     ses_profile = profile, ses_dec_queue = [], ses_state = rpc_state_new space, ses_root = None,
     ses_max_threads = 1, ses_negotiated = 0, ses_timeout = None, ses_fd_mode = FdNone, ses_fd_unix = False,
     ses_id = sid, ses_lifecycle = lifecycle_new, ses_inbox = (\<lambda>_. []), ses_outbox = [],
     ses_read_timeouts = (\<lambda>_. None), ses_alive = {}, ses_next_ptr = 1, ses_parceled = [], ses_obituaries = {}\<rparr>"

text \<open>The compare-exchange loops run undisturbed here: the value seen is the word.\<close>

definition add_incoming_slot :: "nat \<Rightarrow> RpcSessionInner \<Rightarrow> nat result \<times> RpcSessionInner" where
  "add_incoming_slot transport s =
    (case try_bump_live False (ses_lifecycle s) (ses_lifecycle s) of
       (Some True, w) \<Rightarrow> (case add_slot_inner transport (ses_pool s) of
          (i, P) \<Rightarrow> (Ok i, s\<lparr>ses_lifecycle := w, ses_pool := P\<rparr>))
     | (_, w) \<Rightarrow> (Err DeadObject, s\<lparr>ses_lifecycle := w\<rparr>))"

definition add_callback_slot :: "nat \<Rightarrow> nat \<Rightarrow> RpcSessionInner \<Rightarrow> nat result \<times> RpcSessionInner" where
  "add_callback_slot transport cap s =
    (if is_torn_down (ses_lifecycle s) then (Err DeadObject, s)
     else case add_slot_inner_capped transport cap (ses_pool s) of
         (Some i, P) \<Rightarrow> (Ok i, s\<lparr>ses_pool := P\<rparr>)
       | (None, P) \<Rightarrow> (Err FailedTransaction, s\<lparr>ses_pool := P\<rparr>))"

definition send_session_obituaries :: "RpcSessionInner \<Rightarrow> RpcSessionInner" where
  "send_session_obituaries s =
    s\<lparr>ses_obituaries := ses_obituaries s \<union> (ran (remote_proxies (ses_state s)) \<inter> ses_alive s)\<rparr>"

definition clear_slot_read_timeout :: "rpc_env \<Rightarrow> nat \<Rightarrow> RpcSessionInner \<Rightarrow> RpcSessionInner" where
  "clear_slot_read_timeout E slot s =
    (case find_slot slot (ses_pool s) of
       Some c \<Rightarrow> snd (set_read_timeout E (slot_transport c) None s)
     | None \<Rightarrow> s)"

partial_function (option) serve_loop :: "rpc_env \<Rightarrow> nat \<Rightarrow> bool \<Rightarrow> RpcSessionInner \<Rightarrow> unit act" where
  "serve_loop E slot first s =
    Option.bind (serve_once_on_slot E slot s) (\<lambda>(r, s).
      case r of
        Ok cont \<Rightarrow>
          let s = (if first then clear_slot_read_timeout E slot s else s)
          in if cont then serve_loop E slot False s else Some (Ok (), s)
      | Err e \<Rightarrow> Some (Err e, s)
      | Panic \<Rightarrow> Some (Panic, s))"

definition serve_blocking_on_inner :: "rpc_env \<Rightarrow> nat \<Rightarrow> bool \<Rightarrow> RpcSessionInner \<Rightarrow> unit act" where
  "serve_blocking_on_inner E slot clear_deadline_after_first s =
    Option.bind (serve_loop E slot clear_deadline_after_first s) (\<lambda>(result, s).
      if result = Panic then Some (Panic, s)
      else case drop_connection False (ses_lifecycle s) (ses_lifecycle s) of
          (was_last, w) \<Rightarrow>
            let s = s\<lparr>ses_lifecycle := w\<rparr>;
                s = (if was_last = Some True
                     then let s = send_session_obituaries s in s\<lparr>ses_lifecycle := mark_dead (ses_lifecycle s)\<rparr> else s)
            in Some (result, s\<lparr>ses_pool := remove_slot slot (ses_pool s)\<rparr>))"

end
