(* ===== verification/Rpc_Transactions.thy ===== *)
theory Rpc_Transactions
  imports Rpc_Session
begin

text \<open>
  Properties of RPC sessions: binders cross a session and come home, failed calls give back what they
  reserved, replies match requests, and every two-way call is answered.
\<close>

section \<open>Binders cross the session\<close>

fun enc_addr :: "WireProfile \<Rightarrow> RpcAddress \<Rightarrow> byte list" where
  "enc_addr R34 a = as_wire_bytes a"
| "enc_addr (Android13Plus c) a = encode_addr a"

fun enc_stability :: "WireProfile \<Rightarrow> i32 \<Rightarrow> byte list" where
  "enc_stability R34 k = []"
| "enc_stability (Android13Plus c) k = le_bytes k"

definition enc_binder :: "WireProfile \<Rightarrow> RpcAddress \<Rightarrow> i32 \<Rightarrow> byte list" where
  "enc_binder w a k = enc_i32 1 @ enc_addr w a @ enc_stability w k"

definition mark :: "WireProfile \<Rightarrow> parcel \<Rightarrow> parcel" where
  "mark w p = (if records_binder_positions w then rpc_record_object_position (ppos p) p else p)"

lemma length_enc_addr: "addr_ok a \<Longrightarrow> length (enc_addr w a) = (case w of R34 \<Rightarrow> 32 | _ \<Rightarrow> 8)"
  by (cases w) (simp_all add: addr_ok_def RPC_ADDR_LEN_def)

lemma length_enc_stability [simp]: "length (enc_stability w k) = (case w of R34 \<Rightarrow> 0 | _ \<Rightarrow> 4)"
  by (cases w) (simp_all add: length_le_bytes)

lemma length_enc_binder: "addr_ok a \<Longrightarrow> length (enc_binder w a k) \<le> 36 \<and> 4 \<le> length (enc_binder w a k)"
  using length_enc_addr [of a w] by (cases w) (simp_all add: enc_binder_def)

lemma rpc_frame [simp]:
  "pdata (rpc_record_object_position n p) = pdata p" "ppos (rpc_record_object_position n p) = ppos p"
  "pdata (rpc_record_leaving_addr a p) = pdata p" "ppos (rpc_record_leaving_addr a p) = ppos p"
  "at_end (rpc_record_object_position n p) = at_end p" "at_end (rpc_record_leaving_addr a p) = at_end p"
  "rpc_record_object_position n (emit bs p) = emit bs (rpc_record_object_position n p)"
  "prpc (emit bs p) = prpc p"
  by (simp_all add: rpc_record_object_position_def rpc_record_leaving_addr_def at_end_def emit_def)

lemma mark_frame [simp]: "pdata (mark w p) = pdata p" "ppos (mark w p) = ppos p" "at_end (mark w p) = at_end p"
  by (simp_all add: mark_def)

text \<open>Writing the binder's words at the end of a parcel.\<close>

lemma write_addr_enc:
  assumes "addr_ok a" "at_end p" "plen p + length (enc_addr w a) \<le> i32_max"
  shows "wire_write_binder_addr w a p = (Ok (), emit (enc_addr w a) p)"
  using assms write_aligned_data_emit [of p "enc_addr w a"] length_enc_addr [of a w]
  by (cases w) (simp_all add: write_addr_def)

lemma flatten_enc:
  assumes a: "addr_ok a" and p: "at_end p" "plen p + 36 \<le> i32_max"
  shows "flatten_binder w a k p = (Ok (), emit (enc_binder w a k) (mark w p))"
proof -
  have "plen p + length (enc_binder w a k) \<le> i32_max" using p(2) length_enc_binder [OF a, of w k] by simp
  then have len: "plen p + 4 \<le> i32_max" "plen p + 4 + length (enc_addr w a) \<le> i32_max"
    "plen p + 4 + length (enc_addr w a) + length (enc_stability w k) \<le> i32_max"
    by (simp_all add: enc_binder_def)
  have one: "write_i32 1 p = (Ok (), emit (enc_i32 1) p)"
    using write_i32_enc [OF p(1) len(1)] .
  have two: "wire_write_binder_addr w a (emit (enc_i32 1) p) = (Ok (), emit (enc_i32 1 @ enc_addr w a) p)"
    using write_addr_enc [OF a, of "emit (enc_i32 1) p" w] len(2) by simp
  show ?thesis
    unfolding flatten_binder_def Let_def one andThen.simps two using len(3)
    by (cases w) (simp_all add: enc_binder_def write_word_emit mark_def length_le_bytes)
qed

text \<open>Reading them back: at an android-16 session the position must be listed.\<close>

definition listed :: "WireProfile \<Rightarrow> parcel \<Rightarrow> bool" where
  "listed w q \<longleftrightarrow> (records_binder_positions w \<longrightarrow> rpc_object_position_present (ppos q) q)"

lemma read_addr_enc:
  assumes "addr_ok a" "a13_addr_ok a" "ready q (enc_addr w a)"
  shows "wire_read_binder_addr e w q = (Ok a, advance (length (enc_addr w a)) q)"
proof (cases w)
  case R34
  then show ?thesis
    using assms read_aligned_data_ready [OF assms(3), of 32] by (cases a) (simp add: read_addr_def addr_ok_def RPC_ADDR_LEN_def)
next
  case (Android13Plus c)
  then show ?thesis
    using assms read_aligned_data_ready [OF assms(3), of 8] by (simp add: A13_ADDR_LEN_def decode_encode_addr)
qed

lemma unflatten_enc:
  assumes a: "addr_ok a" "a13_addr_ok a" and q: "ready q (enc_binder w a k)" "listed w q"
  shows "unflatten_binder e w q = (Ok (Some a), advance (length (enc_binder w a k)) q)"
proof -
  have r: "ready q (enc_i32 1)" "ready (advance 4 q) (enc_addr w a)"
    "ready (advance (4 + length (enc_addr w a)) q) (enc_stability w k)"
    using q(1) by (simp_all add: enc_binder_def)
  have one: "read_i32 q = (Ok 1, advance 4 q)" using read_i32_enc [OF r(1)] by simp
  have pos: "rpc_object_position_present (ppos q) (advance 4 q) = rpc_object_position_present (ppos q) q"
    by (simp add: rpc_object_position_present_def)
  have two: "wire_read_binder_addr e w (advance 4 q) = (Ok a, advance (4 + length (enc_addr w a)) q)"
    using read_addr_enc [OF a r(2)] by simp
  have go: "unflatten_binder e w q = (case w of
      Android13Plus c \<Rightarrow> andThen (read_i32 (advance (4 + length (enc_addr w a)) q)) (\<lambda>_ p. (Ok (Some a), p))
    | R34 \<Rightarrow> (Ok (Some a), advance (4 + length (enc_addr w a)) q))"
    using q(2) unfolding unflatten_binder_def Let_def one andThen.simps two
    by (auto simp: pos listed_def)
  show ?thesis
  proof (cases w)
    case (Android13Plus c)
    then have "read_i32 (advance 12 q) = (Ok (sint k), advance 16 q)"
      using r(3) read_word_ready [of "advance 12 q" k] by (simp add: read_i32_def)
    then show ?thesis unfolding go using Android13Plus by (simp add: enc_binder_def length_le_bytes)
  next
    case R34
    then show ?thesis unfolding go by (simp add: enc_binder_def)
  qed
qed

text \<open>The parcel the receiver reads: the bytes and the object table as they came over the wire.\<close>

definition received :: "rpc_env \<Rightarrow> RpcSessionInner \<Rightarrow> parcel \<Rightarrow> usize \<Rightarrow> parcel" where
  "received E s p k = set_data_position k (rpc_set_object_positions (rpc_object_positions p)
    (rpc_set_in_fds [] (session_parcel E s (from_vec (pbytes p)))))"

definition writable :: "parcel \<Rightarrow> bool" where
  "writable p \<longleftrightarrow> at_end p \<and> plen p + 36 \<le> i32_max \<and> is_for_rpc p \<and> sorted (rpc_object_positions p)"

lemma received_frame [simp]:
  "ppos (received E s p k) = k" "pbytes (received E s p k) = pbytes p" "plen (received E s p k) = plen p"
  "rpc_object_position_present n (received E s p k) \<longleftrightarrow>
    n \<le> u32_max \<and> binary_search_is_ok (rpc_object_positions p) (word_of_nat n)"
  by (simp_all add: received_def session_parcel_def configure_rpc_def rpc_set_object_positions_def
    rpc_set_in_fds_def set_in_fds_def set_data_position_def from_vec_def parcel_new_def pd_len_def
    rpc_object_position_present_def object_position_present_def split: option.split)

lemma received_ready:
  assumes "writable p" "length bs \<le> 36" "pdata p' = pdata p" "ppos p' = ppos p"
  shows "ready (received E s (emit bs p') (plen p)) bs"
  using assms by (auto simp: ready_def writable_def at_end_def pd_len_def)

lemma mark_listed:
  assumes "writable p" "pdata p' = pdata p" "ppos p' = ppos p" "is_for_rpc p'"
    "rpc_object_positions p' = rpc_object_positions p"
  shows "listed w (received E s (emit bs (mark w p')) (plen p))"
proof (cases "records_binder_positions w")
  case True
  obtain r where r: "prpc p' = Some r" using assms(4) by (auto simp: is_for_rpc_def)
  let ?xs = "rf_object_positions r" and ?k = "word_of_nat (plen p) :: u32"
  have s: "sorted ?xs" using assms(1,5) r by (simp add: writable_def rpc_object_positions_def)
  have pos: "ppos p' = plen p" using assms(1,4) assms(3) by (simp add: writable_def at_end_def)
  let ?ys = "insert_at (partition_point (\<lambda>q. q \<le> ?k) ?xs) ?k ?xs"
  have "rpc_object_positions (emit bs (mark w p')) = ?ys"
    using True r pos by (simp add: mark_def rpc_object_positions_def rpc_record_object_position_def
      record_object_position_def Let_def)
  moreover have "binary_search_is_ok ?ys ?k"
    by (rule binary_search_complete) (use insert_at_partition_sorted [OF s] in \<open>auto simp: insert_at_def\<close>)
  ultimately show ?thesis
    using assms(1) by (simp add: listed_def writable_def)
qed (simp add: listed_def)

lemma crosses:
  assumes p: "writable p" and same: "pdata p' = pdata p" "ppos p' = ppos p" "is_for_rpc p'"
      "rpc_object_positions p' = rpc_object_positions p"
    and a: "addr_ok a" "a13_addr_ok a"
  shows "flatten_binder w a k p' = (Ok (), emit (enc_binder w a k) (mark w p')) \<and>
    (\<exists>q. unflatten_binder e w (received E s (emit (enc_binder w a k) (mark w p')) (plen p)) = (Ok (Some a), q) \<and>
      ppos q = plen (emit (enc_binder w a k) (mark w p')))"
proof -
  have room: "at_end p'" "plen p' + 36 \<le> i32_max" using p same by (simp_all add: writable_def at_end_def)
  have "ready (received E s (emit (enc_binder w a k) (mark w p')) (plen p)) (enc_binder w a k)"
    by (rule received_ready [OF p]) (use length_enc_binder [OF a(1)] same in simp_all)
  then show ?thesis
    using flatten_enc [OF a(1) room] unflatten_enc [OF a] mark_listed [OF p same] same
    by simp
qed

lemma leaving_frame [simp]:
  "is_for_rpc (rpc_record_leaving_addr a p) = is_for_rpc p"
  "rpc_object_positions (rpc_record_leaving_addr a p) = rpc_object_positions p"
  by (simp_all add: is_for_rpc_def rpc_record_leaving_addr_def rpc_object_positions_def split: option.split)

lemma minted_apart: "addr_space s1 \<noteq> addr_space s2 \<Longrightarrow> minted s1 a \<Longrightarrow> \<not> minted s2 a"
  by (auto simp: minted_def addr_unique_eq_iff)

lemma leaving_space [simp]: "addr_space (snd (on_binder_leaving b st)) = addr_space st"
  by (simp add: on_binder_leaving_def case_prod_unfold split: option.split)

text \<open>C5: a binder sent over a session arrives as a proxy for that very object, and comes home. An object
  written into any parcel of a session is read at the other end, from the bytes and object table carried
  by the wire and at every profile (android-12, and all versions of the android-13+ wire), as a live proxy
  whose address the sender resolves to the object; both cursors end after the binder. The proxy written
  back into any parcel of the other end is read by the sender as the object itself, and the two ends'
  tables are untouched by the return.\<close>

theorem binder_travels_and_returns:
  assumes wf: "state_wf (ses_state s1)" "state_wf (ses_state s2)"
    and ends: "addr_space (ses_state s1) \<noteq> addr_space (ses_state s2)" "ses_profile s2 = ses_profile s1"
    and p: "writable p" and sent: "write_binder E1 (Some (LocalObj b)) (p, s1) = (Ok (), (p1, s1'))"
    and fresh: "\<forall>a. lookup_local a (ses_state s1') = Some b \<longrightarrow> remote_proxies (ses_state s2) a = None"
  shows "\<exists>a x q s2'. read_binder E2 (received E2 s2 p1 (plen p), s2) = Some (Ok (Some (RpcProxy x a)), (q, s2')) \<and>
    ppos q = plen p1 \<and> x \<in> ses_alive s2' \<and> lookup_local a (ses_state s1') = Some b \<and>
    (\<forall>p2. writable p2 \<longrightarrow> (\<exists>p3 q3. write_binder E2 (Some (RpcProxy x a)) (p2, s2') = (Ok (), (p3, s2')) \<and>
      read_binder E1 (received E1 s1' p3 (plen p2), s1') = Some (Ok (Some (LocalObj b)), (q3, s1')) \<and>
      ppos q3 = plen p3))"
proof -
  let ?w = "ses_profile s1" and ?k = "i32_of_Stability (env_sdk E1) (env_stability E1 b)"
  obtain a st where leave: "on_binder_leaving b (ses_state s1) = (Ok a, st)"
    using sent by (cases "on_binder_leaving b (ses_state s1)" rule: prod.exhaust; cases "fst (on_binder_leaving b (ses_state s1))")
      (auto simp: write_binder_def leaving_address_def)
  note node = leaving_nodes [OF wf(1) leave]
  have look: "lookup_local a st = Some b" using node(2) by (auto simp: lookup_local_def)
  have min: "minted st a" using node(3) by blast
  have ok: "addr_ok a" "a13_addr_ok a" using minted_addr_ok [OF node(1) min] by simp_all
  have space: "addr_space st = addr_space (ses_state s1)" using leaving_space [of b "ses_state s1"] leave by simp
  have far: "lookup_local a (ses_state s2) = None"
  proof (cases "local_nodes (ses_state s2) a")
    case (Some n)
    then have "minted (ses_state s2) a" using state_wfD(2) [OF wf(2)] by blast
    then show ?thesis using minted_apart [OF _ min, of "ses_state s2"] ends(1) space by simp
  qed (simp add: lookup_local_def)
  obtain q where c: "flatten_binder ?w a ?k (rpc_record_leaving_addr a p) = (Ok (), p1)"
      "unflatten_binder (env_errno E2) ?w (received E2 s2 p1 (plen p)) = (Ok (Some a), q)" "ppos q = plen p1"
      "s1' = s1\<lparr>ses_state := st, ses_parceled := b # ses_parceled s1\<rparr>"
    using crosses [OF p, of "rpc_record_leaving_addr a p" a ?w ?k "env_errno E2" E2 s2] ok p sent leave
    by (auto simp: write_binder_def leaving_address_def binder_ptr_def writable_def)
  have new: "remote_proxies (ses_state s2) a = None" using fresh look c(4) by simp
  define x where "x = ses_next_ptr s2"
  define s2' where "s2' = s2\<lparr>ses_state := (ses_state s2)\<lparr>remote_proxies := (remote_proxies (ses_state s2))(a \<mapsto> x)\<rparr>,
     ses_alive := insert x (ses_alive s2), ses_next_ptr := x + 1\<rparr>"
  have "read_binder E2 (received E2 s2 p1 (plen p), s2) = Some (Ok (Some (RpcProxy x a)), (q, s2'))"
    using c(2) ends(2) far new
    by (simp add: read_binder_def resolve_binder_def cache_proxy_def remote_proxy_def s2'_def x_def)
  moreover have "\<exists>p3 q3. write_binder E2 (Some (RpcProxy x a)) (p2, s2') = (Ok (), (p3, s2')) \<and>
      read_binder E1 (received E1 s1' p3 (plen p2), s1') = Some (Ok (Some (LocalObj b)), (q3, s1')) \<and>
      ppos q3 = plen p3" if p2: "writable p2" for p2
  proof -
    let ?k2 = "i32_of_Stability (env_sdk E2) (env_stability E2 x)"
    have "is_for_rpc p2" using p2 by (simp add: writable_def)
    from crosses [OF p2 refl refl this refl ok, of ?w ?k2 "env_errno E1" E1 s1'] obtain q3 where
      d: "flatten_binder ?w a ?k2 p2 = (Ok (), emit (enc_binder ?w a ?k2) (mark ?w p2))"
      "unflatten_binder (env_errno E1) ?w (received E1 s1' (emit (enc_binder ?w a ?k2) (mark ?w p2)) (plen p2)) = (Ok (Some a), q3)"
      "ppos q3 = plen (emit (enc_binder ?w a ?k2) (mark ?w p2))" by blast
    then show ?thesis
      using ends(2) look c(4)
      by (simp add: write_binder_def leaving_address_def binder_ptr_def s2'_def read_binder_def resolve_binder_def)
  qed
  ultimately show ?thesis using c(3,4) look by (intro exI [of _ a] exI [of _ x] exI [of _ q] exI [of _ s2']) (simp add: s2'_def)
qed

text \<open>A surrounding in which nothing fails: the handler answers with an empty reply.\<close>

definition demo_env :: rpc_env where
  "demo_env = \<lparr>env_me = 9, env_tid = 1, env_send_error = (\<lambda>_ _. None), env_timeout_error = (\<lambda>_. None),
    env_errno = (\<lambda>_. 1), env_sdk = None, env_peer = (\<lambda>_. Anonymous), env_stability = (\<lambda>_. System),
    env_descriptor = (\<lambda>_. []), env_rpc_transact = (\<lambda>_ _ _ ps s. Some (Ok (), ps, s))\<rparr>"

definition demo_session :: "AddressSpace \<Rightarrow> RpcSessionInner" where
  "demo_session sp = with_profile (replicate 32 7) (\<lambda>_. []) 5 sp (Android13Plus android16)"

definition demo_parcel :: parcel where
  "demo_parcel = session_parcel demo_env (demo_session Initiator) parcel_new"

lemma demo_facts:
  "state_wf (ses_state (demo_session sp))" "addr_space (ses_state (demo_session sp)) = sp"
  "ses_profile (demo_session sp) = Android13Plus android16" "remote_proxies (ses_state (demo_session sp)) a = None"
  by (simp_all add: demo_session_def with_profile_def state_wf_new) (simp_all add: rpc_state_new_def)

lemma demo_writable: "writable demo_parcel"
  by (simp add: writable_def demo_parcel_def session_parcel_def configure_rpc_def parcel_new_def at_end_def
    is_for_rpc_def rpc_object_positions_def rpc_default_def pd_len_def)

lemma write_local:
  assumes "state_wf (ses_state s)" "on_binder_leaving b (ses_state s) = (Ok a, st)" "writable p"
  shows "\<exists>p1. write_binder E (Some (LocalObj b)) (p, s) =
    (Ok (), (p1, s\<lparr>ses_state := st, ses_parceled := b # ses_parceled s\<rparr>)) \<and>
    rpc_leaving_addrs p1 = rpc_leaving_addrs p @ [a] \<and> plen p1 \<le> plen p + 36"
proof -
  note node = leaving_nodes [OF assms(1,2)]
  have ok: "addr_ok a" "a13_addr_ok a" using minted_addr_ok [OF node(1)] node(3) by blast+
  from assms(3) have p: "is_for_rpc (rpc_record_leaving_addr a p)" by (simp add: writable_def)
  note c = crosses [OF assms(3) _ _ p _ ok, of "ses_profile s"
    "i32_of_Stability (env_sdk E) (env_stability E b)"]
  obtain r where "prpc p = Some r" using assms(3) by (auto simp: writable_def is_for_rpc_def)
  then have "rpc_leaving_addrs (mark w (rpc_record_leaving_addr a p)) = rpc_leaving_addrs p @ [a]" for w
    by (simp add: mark_def rpc_leaving_addrs_def rpc_record_leaving_addr_def rpc_record_object_position_def
      record_object_position_def Let_def)
  then show ?thesis
    using c assms(2) length_enc_binder [OF ok(1)]
    by (simp add: write_binder_def leaving_address_def binder_ptr_def) (simp add: rpc_leaving_addrs_def)
qed

theorem binder_travels_and_returns_witness:
  "\<exists>p1 s1' a x q s2'. write_binder demo_env (Some (LocalObj 7)) (demo_parcel, demo_session Initiator) = (Ok (), (p1, s1')) \<and>
    read_binder demo_env (received demo_env (demo_session Acceptor) p1 (plen demo_parcel), demo_session Acceptor) =
      Some (Ok (Some (RpcProxy x a)), (q, s2')) \<and> lookup_local a (ses_state s1') = Some 7"
proof -
  obtain a st where l: "on_binder_leaving 7 (ses_state (demo_session Initiator)) = (Ok a, st)"
    by (simp add: demo_session_def with_profile_def rpc_state_new_def on_binder_leaving_def case_prod_unfold)
  obtain p1 s1' where w: "write_binder demo_env (Some (LocalObj 7)) (demo_parcel, demo_session Initiator) = (Ok (), (p1, s1'))"
    using write_local [OF demo_facts(1) l demo_writable] by blast
  show ?thesis
    using binder_travels_and_returns [OF demo_facts(1) demo_facts(1) _ _ demo_writable w, of Acceptor demo_env] w
    by (auto simp: demo_facts)
qed

section \<open>Failed calls give back what they reserved\<close>

text \<open>Two tables that differ at most in the address counter.\<close>

definition same_table :: "RpcState \<Rightarrow> RpcState \<Rightarrow> bool" where
  "same_table st st' \<longleftrightarrow> st' = st\<lparr>addr_counter := addr_counter st'\<rparr>"

lemma same_table_refl [simp]: "same_table st st"
  by (simp add: same_table_def)

lemma same_table_trans: "same_table a b \<Longrightarrow> same_table b c \<Longrightarrow> same_table a c"
  unfolding same_table_def by (cases a, cases b, cases c) simp

lemma cancel_counter:
  "cancel_binder_leaving a (st\<lparr>addr_counter := c\<rparr>) = (cancel_binder_leaving a st)\<lparr>addr_counter := c\<rparr>"
  by (simp add: cancel_binder_leaving_def remove_node_def Let_def cong: if_cong split: option.split)

lemma cancel_same: "same_table st st' \<Longrightarrow> same_table (cancel_binder_leaving a st) (cancel_binder_leaving a st')"
  unfolding same_table_def by (metis cancel_counter RpcState.select_convs(5) RpcState.surjective RpcState.update_convs(5))

lemma cancels_same: "same_table st st' \<Longrightarrow> same_table (fold cancel_binder_leaving as st) (fold cancel_binder_leaving as st')"
  by (induction as arbitrary: st st') (auto intro: cancel_same)

lemma cancel_commute:
  "cancel_binder_leaving a (cancel_binder_leaving b st) = cancel_binder_leaving b (cancel_binder_leaving a st)"
proof (cases "a = b")
  case False
  then show ?thesis
    by (auto simp: cancel_binder_leaving_def remove_node_def Let_def fun_eq_iff fun_upd_twist split: option.split)
qed simp

lemma cancels_last: "fold cancel_binder_leaving (as @ [a]) st = fold cancel_binder_leaving as (cancel_binder_leaving a st)"
  by (induction as arbitrary: st) (simp_all add: cancel_commute)

text \<open>Cancelling undoes a departure.\<close>

lemma cancel_leaving:
  assumes wf: "state_wf st" and leave: "on_binder_leaving b st = (Ok a, st')"
  shows "same_table st (cancel_binder_leaving a st')"
proof (cases "local_by_ptr st b")
  case (Some c)
  then obtain m where m: "local_nodes st c = Some m" using state_wfD(3) [OF wf] by blast
  then have "0 < node_strong m" using state_wfD(2) [OF wf] by (auto simp: node_ok_def)
  moreover have "(local_nodes st)(c \<mapsto> m) = local_nodes st" using m by auto
  ultimately show ?thesis
    using leave Some m by (auto simp: on_binder_leaving_def cancel_binder_leaving_def Let_def same_table_def)
next
  case None
  let ?f = "fst (addr_unique (addr_counter st) (addr_space st))"
  have a: "a = ?f" and st': "st' = st\<lparr>addr_counter := addr_counter st + 1,
        local_nodes := (local_nodes st)(?f \<mapsto>
          \<lparr>node_binder = b, node_strong = 1, next_async_number = 0, async_todo = []\<rparr>),
        local_by_ptr := (local_by_ptr st)(b \<mapsto> ?f)\<rparr>"
    using leave None by (auto simp: on_binder_leaving_def case_prod_unfold split: if_splits)
  have nf: "\<not> minted st ?f" by (rule not_minted_next)
  then have free: "local_nodes st ?f = None" using state_wfD(2) [OF wf] by (cases "local_nodes st ?f") auto
  have np: "local_by_ptr st p \<noteq> Some ?f" for p
    using state_wfD(3) [OF wf, of p ?f] free by auto
  show ?thesis
    using np None free unfolding a st' same_table_def
    by (intro RpcState.equality) (auto simp: cancel_binder_leaving_def remove_node_def Let_def)
qed

text \<open>Writing any sequence of binders, stopping at the first failure.\<close>

fun write_binders :: "rpc_env \<Rightarrow> rpc_obj option list \<Rightarrow> parcel \<times> RpcSessionInner \<Rightarrow> unit result \<times> (parcel \<times> RpcSessionInner)" where
  "write_binders E [] ps = (Ok (), ps)"
| "write_binders E (b # bs) ps = andThen (write_binder E b ps) (\<lambda>_ ps. write_binders E bs ps)"

lemma cancel_through:
  "cancel_binder_leaving a (fold cancel_binder_leaving cs st) = fold cancel_binder_leaving cs (cancel_binder_leaving a st)"
  by (induction cs arbitrary: st) (simp_all add: cancel_commute)

lemma cancels_commute:
  "fold cancel_binder_leaving as (fold cancel_binder_leaving cs st) =
   fold cancel_binder_leaving cs (fold cancel_binder_leaving as st)"
  by (induction as arbitrary: st) (simp_all add: cancel_through)

text \<open>Writing words leaves the RPC fields of the parcel alone, up to the recorded position.\<close>

lemma write_prpc [simp]:
  "prpc (snd (write_aligned_data bs p)) = prpc p"
  "prpc (snd (write_i32 i p)) = prpc p"
  "prpc (snd (write_word (w :: 'a::len word) p)) = prpc p"
  by (auto simp: write_i32_def write_word_def write_aligned_data_def Let_def set_data_position_def
    split: outcome.splits if_splits ParcelData.splits)

definition rpc_like :: "parcel \<Rightarrow> parcel \<Rightarrow> bool" where
  "rpc_like p q \<longleftrightarrow> is_for_rpc q = is_for_rpc p \<and> rpc_leaving_addrs q = rpc_leaving_addrs p"

lemma rpc_like_trans: "rpc_like p q \<Longrightarrow> rpc_like q r \<Longrightarrow> rpc_like p r"
  by (simp add: rpc_like_def)

lemma rpc_like_andThen:
  "rpc_like p (snd r) \<Longrightarrow> (\<And>a q. r = (Ok a, q) \<Longrightarrow> rpc_like q (snd (f a q))) \<Longrightarrow> rpc_like p (snd (andThen r f))"
  by (cases "(r, f)" rule: andThen.cases) (auto intro: rpc_like_trans)

lemma rpc_like_prpc: "prpc q = prpc p \<Longrightarrow> rpc_like p q"
  by (simp add: rpc_like_def is_for_rpc_def rpc_leaving_addrs_def)

lemma rpc_like_position: "rpc_like p (rpc_record_object_position n p)"
  by (simp add: rpc_like_def is_for_rpc_def rpc_leaving_addrs_def rpc_record_object_position_def
    record_object_position_def Let_def split: option.split)

lemma flatten_like: "rpc_like p (snd (flatten_binder w a k p))"
proof -
  have addr: "rpc_like q (snd (wire_write_binder_addr w a q))" for q
    by (cases w) (simp_all add: write_addr_def rpc_like_prpc)
  have last: "rpc_like q (snd (let q = (if c then rpc_record_object_position n q else q)
      in case w of Android13Plus x \<Rightarrow> write_word k q | R34 \<Rightarrow> (Ok (), q)))" for c n q
    using rpc_like_position [of q n] rpc_like_trans
    by (cases w) (auto simp: rpc_like_prpc Let_def intro: rpc_like_trans [OF rpc_like_position rpc_like_prpc])
  show ?thesis
    unfolding flatten_binder_def Let_def [of "ppos p"]
    by (intro rpc_like_andThen addr last) (simp add: rpc_like_prpc)
qed

lemma write_binder_leaves:
  assumes wf: "state_wf (ses_state s)" and rpc: "is_for_rpc p"
    and run: "write_binder E b (p, s) = (r, (p', s'))"
  shows "is_for_rpc p' \<and> state_wf (ses_state s') \<and>
    (\<exists>as. rpc_leaving_addrs p' = rpc_leaving_addrs p @ as \<and>
      same_table (ses_state s) (fold cancel_binder_leaving as (ses_state s')))"
proof -
  have idle: ?thesis if "rpc_like p p'" "ses_state s' = ses_state s"
    using that wf rpc by (auto simp: rpc_like_def intro: exI [of _ "[]"])
  show ?thesis
  proof (cases b)
    case None
    then have "p' = snd (write_i32 0 p)" "s' = s" using run by (auto simp: write_binder_def split: prod.splits)
    then show ?thesis by (intro idle) (simp_all add: rpc_like_prpc)
  next
    case (Some c)
    show ?thesis
    proof (cases "leaving_address c (p, s)")
      case (fields r1 p1 s1)
      have last: "rpc_like p1 p' \<and> ses_state s' = ses_state s1"
      proof (cases r1)
        case (Ok a)
        obtain r3 p3 where f: "flatten_binder (ses_profile s1) a
            (i32_of_Stability (env_sdk E) (env_stability E (binder_ptr c))) p1 = (r3, p3)" by (metis prod.exhaust)
        have "rpc_like p1 p3" using flatten_like [of p1] f by (metis snd_conv)
        then show ?thesis
          using run Some fields Ok f by (cases r3) (auto simp: write_binder_def split: rpc_obj.splits)
      qed (use run Some fields in \<open>auto simp: write_binder_def rpc_like_prpc\<close>)
      show ?thesis
      proof (cases c)
        case (RpcProxy q a)
        then show ?thesis using fields last by (intro idle) (auto simp: leaving_address_def)
      next
        case (LocalObj q)
        obtain r2 st where l: "on_binder_leaving q (ses_state s) = (r2, st)" by (metis prod.exhaust)
        show ?thesis
        proof (cases r2)
          case (Ok a)
          then have "same_table (ses_state s) (cancel_binder_leaving a st)" "state_wf st"
            using cancel_leaving [OF wf] leaving_nodes(1) [OF wf] l by blast+
          moreover obtain x where "prpc p = Some x" using rpc by (auto simp: is_for_rpc_def)
          ultimately show ?thesis
            using fields last l LocalObj Ok
            by (intro conjI exI [of _ "[a]"]) (auto simp: leaving_address_def rpc_like_def rpc_record_leaving_addr_def
              is_for_rpc_def rpc_leaving_addrs_def)
        next
          case (Err e)
          then have "st = ses_state s" using l by (auto simp: on_binder_leaving_def split: option.splits if_splits prod.splits)
          then show ?thesis using fields last l LocalObj Err by (intro idle) (auto simp: leaving_address_def rpc_like_prpc)
        next
          case Panic
          then show ?thesis using l by (auto simp: on_binder_leaving_def split: option.splits if_splits prod.splits)
        qed
      qed
    qed
  qed
qed

text \<open>Writing any sequence of binders into a parcel, whether or not it succeeds.\<close>

lemma write_binders_leave:
  assumes "state_wf (ses_state s)" and "is_for_rpc p"
    and "write_binders E bs (p, s) = (r, (p', s'))"
  shows "is_for_rpc p' \<and> state_wf (ses_state s') \<and>
    (\<exists>as. rpc_leaving_addrs p' = rpc_leaving_addrs p @ as \<and>
      same_table (ses_state s) (fold cancel_binder_leaving as (ses_state s')))"
  using assms
proof (induction bs arbitrary: p s)
  case Nil
  then show ?case by (auto intro: exI [of _ "[]"])
next
  case (Cons b bs)
  obtain r1 p1 s1 where one: "write_binder E b (p, s) = (r1, (p1, s1))" by (metis prod.exhaust)
  note a = write_binder_leaves [OF Cons.prems(1,2) one]
  then obtain as where as: "rpc_leaving_addrs p1 = rpc_leaving_addrs p @ as"
    "same_table (ses_state s) (fold cancel_binder_leaving as (ses_state s1))" by blast
  show ?case
  proof (cases r1)
    case (Ok u)
    then have "write_binders E bs (p1, s1) = (r, (p', s'))" using Cons.prems(3) one by simp
    from Cons.IH [OF _ _ this] a obtain cs where
      c: "is_for_rpc p'" "state_wf (ses_state s')" "rpc_leaving_addrs p' = rpc_leaving_addrs p1 @ cs"
         "same_table (ses_state s1) (fold cancel_binder_leaving cs (ses_state s'))" by blast
    have "same_table (ses_state s) (fold cancel_binder_leaving as (fold cancel_binder_leaving cs (ses_state s')))"
      using same_table_trans [OF as(2) cancels_same [OF c(4)]] .
    then have "same_table (ses_state s) (fold cancel_binder_leaving (as @ cs) (ses_state s'))"
      by (simp add: cancels_commute)
    then show ?thesis using c as(1) by (intro conjI exI [of _ "as @ cs"]) simp_all
  qed (use Cons.prems(3) one a in auto)
qed
lemma cancels_counters:
  "fold cancel_binder_leaving as (st\<lparr>remote_send_async_counters := k\<rparr>) =
    (fold cancel_binder_leaving as st)\<lparr>remote_send_async_counters := k\<rparr>"
proof (induction as arbitrary: st)
  case (Cons a as)
  have "cancel_binder_leaving a (st\<lparr>remote_send_async_counters := k\<rparr>) =
      (cancel_binder_leaving a st)\<lparr>remote_send_async_counters := k\<rparr>"
    by (simp add: cancel_binder_leaving_def remove_node_def Let_def cong: if_cong split: option.split)
  then show ?case using Cons.IH by simp
qed simp

text \<open>The number the next one-way call to an address gets; an absent counter counts as zero.\<close>

definition next_number :: "RpcState \<Rightarrow> RpcAddress \<Rightarrow> u64" where
  "next_number st a = (case remote_send_async_counters st a of Some n \<Rightarrow> n | None \<Rightarrow> 0)"

definition same_books :: "RpcState \<Rightarrow> RpcState \<Rightarrow> bool" where
  "same_books st st' \<longleftrightarrow> local_nodes st' = local_nodes st \<and> local_by_ptr st' = local_by_ptr st \<and>
    remote_proxies st' = remote_proxies st \<and> next_number st' = next_number st"

lemma take_then_rollback:
  assumes "same_table st0 (fold cancel_binder_leaving (rpc_leaving_addrs data) (ses_state s))"
    and "take_async_number addr oneway s = (n, s1)" and "ses_state s2 = ses_state s1"
  shows "same_books st0 (ses_state (rollback_outgoing data (if oneway then Some (addr, n) else None) s2))"
proof -
  let ?F = "fold cancel_binder_leaving (rpc_leaving_addrs data)"
  obtain k where k: "ses_state (rollback_outgoing data (if oneway then Some (addr, n) else None) s2) =
      (?F (ses_state s))\<lparr>remote_send_async_counters := k\<rparr>"
    "(\<lambda>a. case k a of Some n \<Rightarrow> n | None \<Rightarrow> 0) = next_number (ses_state s)"
  proof (cases oneway)
    case True
    let ?n = "next_number (ses_state s) addr"
    have t: "n = ?n" "ses_state s1 = (ses_state s)\<lparr>remote_send_async_counters := (remote_send_async_counters (ses_state s))(addr \<mapsto> ?n + 1)\<rparr>"
      using assms(2) True by (auto simp: take_async_number_def next_send_async_number_def Let_def next_number_def)
    show ?thesis
      by (rule that [of "(remote_send_async_counters (ses_state s))(addr \<mapsto> ?n)"])
        (use True assms(3) t cancels_counters in \<open>auto simp: rollback_outgoing_def Let_def cancel_send_async_number_def next_number_def fun_eq_iff\<close>)
  next
    case False
    then have "s1 = s" using assms(2) by (simp add: take_async_number_def)
    then show ?thesis
      using that [of "remote_send_async_counters (ses_state s)"] False assms(3)
        cancels_counters [where as = "rpc_leaving_addrs data" and st = "ses_state s" and k = "remote_send_async_counters (ses_state s)"]
      by (auto simp: rollback_outgoing_def Let_def next_number_def fun_eq_iff)
  qed
  have base: "remote_send_async_counters (?F (ses_state s)) = remote_send_async_counters (ses_state s)"
    using cancels_counters [where as = "rpc_leaving_addrs data" and st = "ses_state s" and k = "remote_send_async_counters (ses_state s)"]
    by (metis RpcState.select_convs(4) RpcState.surjective RpcState.update_convs(4))
  obtain c where "?F (ses_state s) = st0\<lparr>addr_counter := c\<rparr>"
    using assms(1) by (auto simp: same_table_def)
  then show ?thesis
    using k base by (auto simp: same_books_def next_number_def fun_eq_iff)
qed

lemma codec_no_panic [simp]: "codec_encode_transact w t \<noteq> Panic"
  by (cases w) (auto simp: r34_encode_transact_def a13_encode_transact_def encode_data_and_table_def wire_header_def
    Let_def bind_out_Ok_iff split: if_splits outcome.splits)


lemma not_torn_new [simp]: "\<not> is_torn_down lifecycle_new"
  by (simp add: is_torn_down_def lifecycle_new_def encode_live_def STATE_SHIFT_def STATE_LIVE_TAG_def)


end
