(* ===== verification/Rpc_Replies.thy ===== *)
theory Rpc_Replies
  imports Rpc_Transactions "HOL-Library.Sublist"
begin

text \<open>
  Replies on the connections of an RPC session (\<open>rsbinder/src/rpc/session.rs\<close>): what a two-way call that
  waits for its reply takes from the connection, what it returns and in which state it leaves the
  connection, with nested calls, reference releases and errors on the way. The incoming messages of a
  connection are a list, so a call that waits for a message that never comes does not return.
\<close>

section \<open>Replies match requests\<close>

text \<open>What may happen to a connection's incoming messages and the session's profile while other code
  runs: messages are only taken from the front.\<close>

definition tame :: "nat \<Rightarrow> RpcSessionInner \<Rightarrow> RpcSessionInner \<Rightarrow> bool" where
  "tame tr s s' \<longleftrightarrow> suffix (ses_inbox s' tr) (ses_inbox s tr) \<and> ses_profile s' = ses_profile s"

definition tame_act :: "nat \<Rightarrow> 'a act \<Rightarrow> RpcSessionInner \<Rightarrow> bool" where
  "tame_act tr m s \<longleftrightarrow> (\<forall>r s'. m = Some (r, s') \<longrightarrow> tame tr s s')"

lemma tame_refl [simp]: "tame tr s s"
  by (simp add: tame_def)

lemma tame_trans: "tame tr s s' \<Longrightarrow> tame tr s' s'' \<Longrightarrow> tame tr s s''"
  by (auto simp: tame_def intro: suffix_order.trans)

lemma tame_frame [simp]:
  "tame tr s (s'\<lparr>ses_pool := P\<rparr>) = tame tr s s'" "tame tr s (s'\<lparr>ses_state := st\<rparr>) = tame tr s s'"
  "tame tr s (s'\<lparr>ses_outbox := ob\<rparr>) = tame tr s s'" "tame tr s (s'\<lparr>ses_fd_mode := m\<rparr>) = tame tr s s'"
  "tame tr s (s'\<lparr>ses_parceled := q\<rparr>) = tame tr s s'" "tame tr s (s'\<lparr>ses_read_timeouts := d\<rparr>) = tame tr s s'"
  "tame tr s (drop_conn E g s') = tame tr s s'" "tame tr s (rollback_outgoing p a s') = tame tr s s'"
  by (simp_all add: tame_def drop_conn_def rollback_outgoing_def Let_def)

lemma tame_frame_left [simp]:
  "tame tr (s\<lparr>ses_pool := P\<rparr>) s' = tame tr s s'" "tame tr (s\<lparr>ses_state := st\<rparr>) s' = tame tr s s'"
  "tame tr (s\<lparr>ses_read_timeouts := d\<rparr>) s' = tame tr s s'" "tame tr (rollback_outgoing p a s) s' = tame tr s s'"
  by (simp_all add: tame_def rollback_outgoing_def Let_def)

lemma tame_Some [simp]: "tame_act tr (Some (r, s')) s = tame tr s s'"
  by (simp add: tame_act_def)

lemma tame_None [simp]: "tame_act tr None s"
  by (simp add: tame_act_def)

lemma tame_after: "tame tr s s1 \<Longrightarrow> tame_act tr m s1 \<Longrightarrow> tame_act tr m s"
  by (auto simp: tame_act_def intro: tame_trans)

lemma tame_seq:
  assumes "tame_act tr m s" and "\<And>a s1. m = Some (Ok a, s1) \<Longrightarrow> tame_act tr (f a s1) s1"
  shows "tame_act tr (seq_act m f) s"
proof (cases m)
  case (Some rs)
  obtain r s1 where rs: "rs = (r, s1)" by (cases rs)
  then show ?thesis
    using assms Some by (cases r) (auto simp: seq_act_def tame_act_def intro: tame_trans)
qed (simp add: seq_act_def)

lemma tame_find: "tame_act tr (session_find_conn E s) s"
  by (auto simp: session_find_conn_def split: prod.splits turn.splits)

lemma tame_send: "send_msg E t f fds s = (r, s') \<Longrightarrow> tame tr s s'"
  by (auto simp: send_msg_def split: option.splits)

lemma tame_conn:
  assumes "tame_act tr m s" and "\<And>g s1. tame_act tr (body g s1) s1"
  shows "tame_act tr (with_conn E m body) s"
  unfolding with_conn_def
  by (rule tame_seq [OF assms(1)]) (use assms(2) in \<open>auto simp: tame_act_def\<close>)

lemma tame_reply: "tame_act tr (send_reply E st d ps fds s) s"
  unfolding send_reply_def
  by (auto split: outcome.split prod.splits intro!: tame_conn [OF tame_find] dest: tame_send)

lemma tame_map:
  assumes "tame_act tr m s" and "\<And>r s1. tame tr s1 (snd (h (r, s1)))"
  shows "tame_act tr (map_option h m) s"
  unfolding tame_act_def
proof (intro allI impI)
  fix r s'
  assume "map_option h m = Some (r, s')"
  then obtain r1 s1 where "m = Some (r1, s1)" "h (r1, s1) = (r, s')" by auto
  then show "tame tr s s'" using assms(1) assms(2) [of s1 r1] by (auto simp: tame_act_def intro: tame_trans)
qed

lemma tame_reply_or: "tame_act tr (reply_or_rollback E p fds s) s"
  unfolding reply_or_rollback_def by (rule tame_map [OF tame_reply]) (simp split: outcome.split)

lemma tame_write:
  assumes "write_binder E b (p, s) = (r, (p', s'))"
  shows "tame tr s s'"
proof (cases b)
  case (Some c)
  obtain r1 p1 s1 where l: "leaving_address c (p, s) = (r1, (p1, s1))" by (metis prod.exhaust)
  then have one: "tame tr s s1"
    by (cases c; cases "fst (on_binder_leaving (binder_ptr c) (ses_state s))")
      (auto simp: leaving_address_def binder_ptr_def split: prod.splits)
  show ?thesis
  proof (cases r1)
    case (Ok a)
    obtain r3 p3 where "flatten_binder (ses_profile s1) a
        (i32_of_Stability (env_sdk E) (env_stability E (binder_ptr c))) p1 = (r3, p3)" by (metis prod.exhaust)
    then show ?thesis
      using assms Some l Ok one by (cases r3) (auto simp: write_binder_def split: rpc_obj.splits)
  qed (use assms Some l one in \<open>auto simp: write_binder_def\<close>)
qed (use assms in \<open>auto simp: write_binder_def split: prod.splits\<close>)

lemma tame_sent: "tame_act tr (case x of (Ok u, q) \<Rightarrow> send_reply E 0 (pbytes q) (f q) fds s | (r, q) \<Rightarrow> Some (r, s)) s"
  by (cases x; cases "fst x") (auto simp: tame_reply)

lemma tame_special: "tame_act tr (serve_special E t ow s) s"
proof (cases ow)
  case False
  note d = serve_special_def
  show ?thesis
  proof (cases "special_from_code (txn_code t)")
    case None
    then show ?thesis using False by (simp add: d tame_reply)
  next
    case (Some k)
    show ?thesis
    proof (cases k)
      case GetRoot
      obtain r p1 s1 where w: "write_binder E (ses_root s) (attach_rpc_ops (env_me E) parcel_new, s) = (r, (p1, s1))"
        by (metis prod.exhaust)
      note t1 = tame_write [OF w, of tr]
      have "tame_act tr (reply_or_rollback E p1 [] s1) s"
        using tame_reply_or [of tr E p1 "[]" s1] t1 by (auto simp: tame_act_def intro: tame_trans)
      then show ?thesis using False Some GetRoot w t1 by (cases r) (simp_all add: d)
    next
      case GetFdMode
      obtain r q where "read_i32 (set_data_position 0 (from_vec (txn_data t))) = (r, q)" by (metis prod.exhaust)
      moreover have "tame_act tr (case x of (Ok u, q) \<Rightarrow> seq_act (send_reply E 0 (pbytes q) [] [] s)
          (\<lambda>_ s. Some (Ok (), s\<lparr>ses_fd_mode := m\<rparr>)) | (r, q) \<Rightarrow> Some (r, s)) s" for x m
        by (cases x; cases "fst x") (auto intro: tame_seq [OF tame_reply])
      ultimately show ?thesis using False Some GetFdMode by (cases r) (simp_all add: d Let_def)
    qed (use False Some in \<open>simp_all add: d tame_sent\<close>)
  qed
qed (simp add: serve_special_def)

text \<open>The user's handlers: they reach the connection only through the session.\<close>

definition tame_handlers :: "rpc_env \<Rightarrow> nat \<Rightarrow> bool" where
  "tame_handlers E tr \<longleftrightarrow> (\<forall>q c peer ps s r ps' s'.
    env_rpc_transact E q c peer ps s = Some (r, ps', s') \<longrightarrow> tame tr s s')"

lemma tame_run:
  assumes "tame_handlers E tr" "run_handler E q t peer ps s = Some (r, p, s')"
  shows "tame tr s s'"
proof -
  obtain r1 rd where "consume_rpc_interface_token (env_descriptor E q) (fst ps) = (r1, rd)" by (metis prod.exhaust)
  then show ?thesis
    using assms unfolding tame_handlers_def by (cases r1) (auto simp: run_handler_def)
qed

lemma tame_execute:
  assumes "tame_handlers E tr"
  shows "tame_act tr (execute_dispatched E t fds ow peer s) s"
proof -
  have after: "tame_act tr (Option.bind (run_handler E q t peer ps s) (\<lambda>(result, reply, s).
      if result = Panic then Some (Panic, s)
      else if ow then Some (Ok (), rollback_outgoing reply None s)
      else case result of
          Ok _ \<Rightarrow> reply_or_rollback E reply (rpc_out_fds reply) s
        | Err e \<Rightarrow> send_reply E (status_word E e) [] [] [] (rollback_outgoing reply None s)
        | Panic \<Rightarrow> Some (Panic, s))) s" for q ps
  proof (cases "run_handler E q t peer ps s")
    case (Some x)
    obtain r p s1 where x: "x = (r, p, s1)" by (cases x)
    have t1: "tame tr s s1" using tame_run [OF assms] Some x by blast
    have two: "tame_act tr (reply_or_rollback E p (rpc_out_fds p) s1) s"
      "tame_act tr (send_reply E w [] [] [] (rollback_outgoing p None s1)) s" for w
      using t1 tame_reply_or [of tr E p "rpc_out_fds p" s1] tame_reply [of tr E w "[]" "[]" "[]" "rollback_outgoing p None s1"]
      by (auto simp: tame_act_def intro: tame_trans)
    show ?thesis using Some x t1 two by (cases r) simp_all
  qed simp
  show ?thesis
    unfolding execute_dispatched_def Let_def
    using after tame_reply tame_sent [of tr] by (auto split: option.split)
qed

lemma tame_drain:
  assumes "drain_oneways E addr peer nxt s = Some rs"
  shows "tame_handlers E tr \<longrightarrow> tame tr s (snd rs)"
proof (rule drain_oneways.raw_induct [where P = "\<lambda>E a p n s rs. tame_handlers E tr \<longrightarrow> tame tr s (snd rs)"], rule impI)
  fix f E addr peer nxt s y
  assume IH: "\<And>E addr peer nxt s y. f E addr peer nxt s = Some y \<Longrightarrow> tame_handlers E tr \<longrightarrow> tame tr s (snd y)"
    and run: "(case nxt of None \<Rightarrow> Some (Ok (), s)
      | Some (t, fds) \<Rightarrow> Option.bind (execute_dispatched E t fds True peer s) (\<lambda>(r, s).
           case r of
             Ok _ \<Rightarrow> (case advance_and_pop_async addr (ses_state s) of
                 (next, st) \<Rightarrow> f E addr peer next (s\<lparr>ses_state := st\<rparr>))
           | Err e \<Rightarrow> Some (Err e, s)
           | Panic \<Rightarrow> Some (Panic, s))) = Some y" and h: "tame_handlers E tr"
  show "tame tr s (snd y)"
  proof (cases nxt)
    case (Some n)
    obtain t fds r s1 where x: "n = (t, fds)" "execute_dispatched E t fds True peer s = Some (r, s1)"
      using run Some by (cases n) (auto simp: bind_eq_Some_conv)
    have one: "tame tr s s1" using tame_execute [OF h] x(2) by (auto simp: tame_act_def)
    obtain m st where pop: "advance_and_pop_async addr (ses_state s1) = (m, st)" by (metis prod.exhaust)
    show ?thesis
    proof (cases r)
      case (Ok u)
      then have "f E addr peer m (s1\<lparr>ses_state := st\<rparr>) = Some y" using run Some x pop by simp
      from IH [OF this] show ?thesis using one h by (auto intro: tame_trans)
    qed (use run Some x one in auto)
  qed (use run in auto)
qed (rule assms)

lemma tame_dispatch:
  assumes "tame_handlers E tr"
  shows "tame_act tr (dispatch_transact E t fds peer s) s"
proof -
  have "tame_act tr (dispatch_oneway_ordered E t fds peer s) s"
    using tame_drain assms
    by (auto simp: dispatch_oneway_ordered_def tame_act_def split: prod.splits AsyncDecision.splits)
       (metis snd_conv tame_frame_left(2))
  then show ?thesis
    using tame_special [of tr] tame_execute [OF assms] by (simp add: dispatch_transact_def Let_def)
qed

definition retired :: "ConnGuard \<Rightarrow> RpcSessionInner \<Rightarrow> bool" where
  "retired g s \<longleftrightarrow> guard_slot_id g \<notin> slot_id ` set (slots (conn_state (ses_pool s)))"

text \<open>The call's result is the last message taken from the connection, a complete reply.\<close>

definition answered :: "rpc_env \<Rightarrow> nat \<Rightarrow> RpcSessionInner \<Rightarrow> parcel option result \<Rightarrow> RpcSessionInner \<Rightarrow> bool" where
  "answered E tr s r s' \<longleftrightarrow> (\<exists>pre frame fds rep.
    ses_inbox s tr = pre @ Ok (frame, fds) # ses_inbox s' tr \<and>
    codec_decode_message (ses_profile s) frame = Ok (Reply rep) \<and>
    (if reply_status rep \<noteq> 0 then r = Err (StatusCode_of_i32 (env_errno E) (sint (reply_status rep)))
     else \<exists>p. r = Ok (Some p) \<and> pbytes p = reply_data rep \<and> ppos p = 0))"

lemma answered_after: "tame tr s s1 \<Longrightarrow> answered E tr s1 r s' \<Longrightarrow> answered E tr s r s'"
  unfolding answered_def tame_def suffix_def by (metis append.assoc)

lemma timeout_frame:
  assumes "set_read_timeout E tr d s = (r, s')"
  shows "ses_pool s' = ses_pool s" "ses_inbox s' = ses_inbox s" "ses_profile s' = ses_profile s" "ses_outbox s' = ses_outbox s"
  using assms by (auto simp: set_read_timeout_def split: option.splits)

lemma deadline_frame [simp]:
  "ses_pool (restore_deadline E tr d s) = ses_pool s" "ses_inbox (restore_deadline E tr d s) = ses_inbox s"
  "ses_profile (restore_deadline E tr d s) = ses_profile s" "ses_pool (disarm_deadline E tr d s) = ses_pool s"
  "ses_inbox (disarm_deadline E tr d s) = ses_inbox s"
  using timeout_frame [of E tr] by (auto simp: restore_deadline_def disarm_deadline_def split: option.split)
    (metis prod.collapse)+

lemma retired_poison: "\<not> reentrant g \<Longrightarrow> retired g (poison_slot g s)"
  by (auto simp: retired_def poison_slot_def remove_slot_def)

lemma give_back_ids [simp]: "map slot_id (give_back i ss) = map slot_id ss"
  by (induction ss) simp_all

lemma retired_frame [simp]:
  "retired g (restore_deadline E tr d s) = retired g s" "retired g (disarm_deadline E tr d s) = retired g s"
  by (simp_all add: retired_def)

lemma answered_frame [simp]:
  "answered E tr s r (disarm_deadline E' tr' d s') = answered E tr s r s'"
  "answered E tr s r (drop_conn E' g s') = answered E tr s r s'"
  by (simp_all add: answered_def drop_conn_def)

lemma retired_drop [simp]: "retired g (drop_conn E g' s) = retired g s"
proof -
  have "slot_id ` set (give_back i ss) = slot_id ` set ss" for i ss
    by (metis give_back_ids set_map)
  then show ?thesis by (simp add: retired_def drop_conn_def guard_drop_def)
qed

definition no_timeout_errors :: "rpc_env \<Rightarrow> bool" where
  "no_timeout_errors E \<longleftrightarrow> (\<forall>d. env_timeout_error E d = None)"

lemma recv_cases:
  assumes "recv_msg tr s = Some (r, s1)"
  obtains x where "ses_inbox s tr = x # ses_inbox s1 tr" "tame tr s s1" "ses_profile s1 = ses_profile s"
    "ses_pool s1 = ses_pool s"
    "r = Panic \<Longrightarrow> x = Panic" "\<And>e. r = Err e \<Longrightarrow> x = Err e" "\<And>f fds. r = Ok (f, fds) \<Longrightarrow> \<exists>fds. x = Ok (f, fds)"
proof (cases "ses_inbox s tr")
  case Nil
  then show ?thesis using assms by (simp add: recv_msg_def)
next
  case (Cons a l)
  have s1: "s1 = s\<lparr>ses_inbox := (ses_inbox s)(tr := l)\<rparr>" and
    r: "r = bind_out a (\<lambda>(frame, fds). Ok (frame, if ses_fd_mode s = FdUnix then fds else []))"
    using assms Cons by (simp_all add: recv_msg_def)
  show ?thesis
    by (rule that [of a]) (auto simp: r s1 Cons tame_def suffix_def elim: bind_out.elims split: prod.splits)
qed

lemma reply_parcel_data: "pbytes (reply_parcel E r fds s) = reply_data r \<and> ppos (reply_parcel E r fds s) = 0"
  by (simp add: reply_parcel_def session_parcel_def configure_rpc_def rpc_set_object_positions_def
    rpc_set_in_fds_def set_in_fds_def set_data_position_def from_vec_def parcel_new_def split: option.split)

lemma lift_ok:
  assumes "no_timeout_errors E"
  shows "\<exists>s1. lift_deadline E tr d s = (Ok (), s1) \<and> tame tr' s s1"
  using assms by (auto simp: lift_deadline_def set_read_timeout_def no_timeout_errors_def)

lemma arm_ok:
  assumes "no_timeout_errors E"
  shows "\<exists>s1. arm_deadline E tr d s = (Ok (), s1) \<and> tame tr' s s1"
  using assms by (cases d) (auto simp: arm_deadline_def set_read_timeout_def no_timeout_errors_def)

lemma reply_loop_outcome:
  assumes "reply_loop E g d s = Some rs"
  shows "tame_handlers E (guard_transport g) \<longrightarrow> no_timeout_errors E \<longrightarrow> \<not> reentrant g \<longrightarrow>
    fst rs = Panic \<or> retired g (snd rs) \<or> answered E (guard_transport g) s (fst rs) (snd rs)"
proof (rule reply_loop.raw_induct [where P = "\<lambda>E g d s rs. tame_handlers E (guard_transport g) \<longrightarrow>
    no_timeout_errors E \<longrightarrow> \<not> reentrant g \<longrightarrow>
    fst rs = Panic \<or> retired g (snd rs) \<or> answered E (guard_transport g) s (fst rs) (snd rs)"], intro impI)
  fix f E and g :: ConnGuard and d s y
  let ?tr = "guard_transport g"
  assume IH: "\<And>E g d s y. f E g d s = Some y \<Longrightarrow> tame_handlers E (guard_transport g) \<longrightarrow>
      no_timeout_errors E \<longrightarrow> \<not> reentrant g \<longrightarrow>
      fst y = Panic \<or> retired g (snd y) \<or> answered E (guard_transport g) s (fst y) (snd y)"
    and h: "tame_handlers E ?tr" "no_timeout_errors E" "\<not> reentrant g"
    and run: "Option.bind (recv_msg ?tr s) (\<lambda>(r, s).
      case r of
        Panic \<Rightarrow> Some (Panic, s)
      | Err e \<Rightarrow> Some (Err (StatusCode_of_RpcErr (env_errno E) e), poison_slot g s)
      | Ok (frame, in_fds) \<Rightarrow>
          (case codec_decode_message (ses_profile s) frame of
             Panic \<Rightarrow> Some (Panic, s)
           | Err e \<Rightarrow> Some (Err (StatusCode_of_RpcErr (env_errno E) e), poison_slot g s)
           | Ok m \<Rightarrow>
               (case m of
                  Reply r \<Rightarrow>
                    if reply_status r \<noteq> 0
                    then Some (Err (StatusCode_of_i32 (env_errno E) (sint (reply_status r))), s)
                    else Some (Ok (Some (reply_parcel E r in_fds s)), s)
                | DecStrong a amount \<Rightarrow>
                    f E g d (s\<lparr>ses_state := snd (dec_strong_local a amount (ses_state s))\<rparr>)
                | Transact t \<Rightarrow>
                    (case lift_deadline E ?tr d s of
                       (Panic, s) \<Rightarrow> Some (Panic, s)
                     | (Err e, s) \<Rightarrow> Some (Err (StatusCode_of_RpcErr (env_errno E) e), s)
                     | (Ok _, s) \<Rightarrow>
                         Option.bind (dispatch_transact E t in_fds (env_peer E ?tr) s) (\<lambda>(r, s).
                           case r of
                             Panic \<Rightarrow> Some (Panic, restore_deadline E ?tr d s)
                           | Err e \<Rightarrow> Some (Err e, restore_deadline E ?tr d (poison_slot g s))
                           | Ok _ \<Rightarrow> f E g d (restore_deadline E ?tr d s)))))) = Some y"
  obtain r s1 where recv: "recv_msg ?tr s = Some (r, s1)" using run by (auto simp: bind_eq_Some_conv)
  from recv obtain x where x: "ses_inbox s ?tr = x # ses_inbox s1 ?tr" "tame ?tr s s1" "ses_profile s1 = ses_profile s"
    "r = Panic \<Longrightarrow> x = Panic" "\<And>f fds. r = Ok (f, fds) \<Longrightarrow> \<exists>fds. x = Ok (f, fds)" by (rule recv_cases) blast
  note facts = run recv x h
  show "fst y = Panic \<or> retired g (snd y) \<or> answered E ?tr s (fst y) (snd y)"
  proof (cases r)
    case (Err e)
    then show ?thesis using run recv h by (auto simp: retired_poison)
  next
    case Panic
    then show ?thesis using run recv by auto
  next
    case (Ok fr)
    obtain frame fds where fr: "fr = (frame, fds)" by (cases fr)
    then obtain fds' where front: "ses_inbox s ?tr = Ok (frame, fds') # ses_inbox s1 ?tr" using x Ok by blast
    show ?thesis
    proof (cases "codec_decode_message (ses_profile s) frame")
      case (Ok m)
      note dec = this
      show ?thesis
      proof (cases m)
        case (Reply rep)
        have "answered E ?tr s (fst y) s1 \<and> snd y = s1"
          unfolding answered_def using run recv \<open>r = Ok fr\<close> fr x(3) dec Reply front
          by (intro conjI exI [of _ "[]"] exI [of _ frame] exI [of _ fds'] exI [of _ rep])
            (auto simp: reply_parcel_data split: if_splits)
        then show ?thesis by simp
      next
        case (DecStrong a n)
        let ?s = "s1\<lparr>ses_state := snd (dec_strong_local a n (ses_state s1))\<rparr>"
        have "f E g d ?s = Some y" using run recv \<open>r = Ok fr\<close> fr x(3) dec DecStrong by simp
        moreover have "tame ?tr s ?s" using x(2) by simp
        ultimately show ?thesis using IH [of E g d ?s y] h answered_after by blast
      next
        case (Transact t)
        obtain s2 where lift: "lift_deadline E ?tr d s1 = (Ok (), s2)" "tame ?tr s1 s2"
          using lift_ok [OF h(2)] by blast
        obtain r3 s3 where disp: "dispatch_transact E t fds (env_peer E ?tr) s2 = Some (r3, s3)"
          using run recv \<open>r = Ok fr\<close> fr x(3) dec Transact lift by (auto simp: bind_eq_Some_conv)
        have "tame ?tr s2 s3"
          using tame_dispatch [OF h(1)] disp by (auto simp: tame_act_def)
        then have tame: "tame ?tr s (restore_deadline E ?tr d s3)"
          using x(2) lift(2) by (auto simp: tame_def intro: suffix_order.trans)
        show ?thesis
        proof (cases r3)
          case (Ok u)
          then have "f E g d (restore_deadline E ?tr d s3) = Some y"
            using run recv \<open>r = Ok fr\<close> fr x(3) dec Transact lift disp by simp
          then show ?thesis using IH [of E g d _ y] h answered_after [OF tame] by blast
        qed (use run recv \<open>r = Ok fr\<close> fr x(3) dec Transact lift disp h in \<open>auto simp: retired_poison\<close>)
      qed
    qed (use run recv Ok fr x(3) h in \<open>auto simp: retired_poison\<close>)
  qed
qed (rule assms)


definition request :: "RpcAddress \<Rightarrow> u32 \<Rightarrow> parcel \<Rightarrow> u32 \<Rightarrow> WireTransaction" where
  "request addr code data flags = \<lparr>txn_address = addr, txn_code = code, txn_flags = flags, async_number = 0,
    txn_data = pbytes data, txn_object_positions = rpc_object_positions data\<rparr>"

text \<open>What is left of a two-way call once its request has been sent.\<close>

lemma two_way_sent:
  assumes "session_find_conn E s = Some (Ok g, s1)" "\<not> is_oneway flags"
    "codec_encode_transact (ses_profile s) (request addr code data flags) = Ok frame"
    "env_send_error E (ses_outbox s) (guard_transport g) = None"
    "d = ses_timeout s" "s2 = s1\<lparr>ses_outbox := ses_outbox s @ [(guard_transport g, frame, if ses_fd_mode s = FdUnix then rpc_out_fds data else [])]\<rparr>"
  shows "client_transact E addr code data flags s = map_option (\<lambda>(r, s). (r, drop_conn E g s))
      (case arm_deadline E (guard_transport g) d s2 of
         (Panic, s3) \<Rightarrow> Some (Panic, s3)
       | (Err e, s3) \<Rightarrow> Some (Err (StatusCode_of_RpcErr (env_errno E) e), s3)
       | (Ok _, s3) \<Rightarrow> map_option (\<lambda>(r, s). (r, disarm_deadline E (guard_transport g) d s))
           (reply_loop E g d s3))"
proof -
  have s1: "ses_outbox s1 = ses_outbox s" "ses_fd_mode s1 = ses_fd_mode s" "ses_profile s1 = ses_profile s" "ses_timeout s1 = ses_timeout s"
    using assms(1) by (auto simp: session_find_conn_def split: prod.splits turn.splits)
  have "send_msg E (guard_transport g) frame (rpc_out_fds data) s1 = (Ok (), s2)" "ses_timeout s2 = d"
    using assms s1 by (simp_all add: send_msg_def)
  then show ?thesis
    using assms(1-3) s1
    by (simp add: client_transact_def with_conn_def seq_act_def take_async_number_def request_def Let_def
      split: prod.splits outcome.splits)
qed

lemma find_conn_frame:
  assumes "session_find_conn E s = Some (r, s1)"
  shows "ses_outbox s1 = ses_outbox s" "ses_inbox s1 = ses_inbox s" "ses_profile s1 = ses_profile s"
    "ses_state s1 = ses_state s" "ses_timeout s1 = ses_timeout s" "ses_fd_mode s1 = ses_fd_mode s" "ses_read_timeouts s1 = ses_read_timeouts s"
  using assms by (auto simp: session_find_conn_def split: prod.splits turn.splits)

text \<open>C7: replies match requests. Replies carry no transaction id, so a call must never leave an unread
  reply behind on a connection that others will use. Whatever the peer sends and whatever nested calls
  the wait runs into, a two-way call that owns its connection ends in one of three ways: it was not sent
  and took nothing from any connection; or its connection is no longer in the pool; or its result is that
  of a reply frame, and this frame is the last message it took from the connection. Handlers may use the
  connection in their own nested calls but do not put messages back, and deadlines can be set.\<close>

theorem replies_match_requests:
  assumes env: "tame_handlers E (guard_transport g)" "no_timeout_errors E"
    and conn: "session_find_conn E s = Some (Ok g, s1)" "\<not> reentrant g" and two_way: "\<not> is_oneway flags"
    and call: "client_transact E addr code data flags s = Some (r, s')" "r \<noteq> Panic"
  shows "ses_outbox s' = ses_outbox s \<and> ses_inbox s' = ses_inbox s \<or> retired g s' \<or>
    answered E (guard_transport g) s r s'"
proof -
  let ?tr = "guard_transport g"
  have s1: "ses_outbox s1 = ses_outbox s" "ses_inbox s1 = ses_inbox s" "ses_profile s1 = ses_profile s"
    using conn by (auto simp: session_find_conn_def split: prod.splits turn.splits)
  have keep: "ses_outbox (drop_conn E g (rollback_outgoing data None x)) = ses_outbox x \<and>
      ses_inbox (drop_conn E g (rollback_outgoing data None x)) = ses_inbox x" for x
    by (simp add: drop_conn_def rollback_outgoing_def Let_def)
  let ?txn = "\<lparr>txn_address = addr, txn_code = code, txn_flags = flags, async_number = 0,
      txn_data = pbytes data, txn_object_positions = rpc_object_positions data\<rparr>"
  show ?thesis
  proof (cases "\<exists>frame. codec_encode_transact (ses_profile s) ?txn = Ok frame \<and> env_send_error E (ses_outbox s) ?tr = None")
    case False
    then show ?thesis using call conn two_way s1 keep
      by (auto simp: client_transact_def with_conn_def seq_act_def take_async_number_def send_msg_def Let_def
        split: outcome.splits option.splits)
  next
    case True
    then obtain frame where f: "codec_encode_transact (ses_profile s) ?txn = Ok frame"
      "env_send_error E (ses_outbox s) ?tr = None" by blast
    obtain s2 where sent: "send_msg E ?tr frame (rpc_out_fds data) s1 = (Ok (), s2)" "tame ?tr s1 s2"
      using f s1 by (simp add: send_msg_def)
    obtain s3 where arm: "arm_deadline E ?tr (ses_timeout s2) s2 = (Ok (), s3)" "tame ?tr s2 s3"
      using arm_ok [OF env(2)] by blast
    obtain r4 s4 where loop: "reply_loop E g (ses_timeout s2) s3 = Some (r4, s4)"
      and fin: "r = r4" "s' = drop_conn E g (disarm_deadline E ?tr (ses_timeout s2) s4)"
      using call conn two_way f sent arm s1
      by (auto simp: client_transact_def with_conn_def seq_act_def take_async_number_def Let_def)
    have "tame ?tr s s3" using s1 sent(2) arm(2) by (auto simp: tame_def intro: suffix_order.trans)
    then have "retired g s4 \<or> answered E ?tr s r s4"
      using reply_loop_outcome [OF loop] env conn(2) call(2) fin(1) answered_after by fastforce
    then show ?thesis by (simp add: fin(2))
  qed
qed

text \<open>A connection on which a reply is waiting.\<close>

definition waiting :: "byte list \<Rightarrow> RpcSessionInner" where
  "waiting frame = (demo_session Initiator)\<lparr>ses_inbox := \<lambda>_. [Ok (frame, [])]\<rparr>"

definition demo_reply :: WireReply where
  "demo_reply = \<lparr>reply_status = 0, reply_data = [1, 2, 3, 4], reply_object_positions = []\<rparr>"

lemma demo_reply_frame: "\<exists>frame. codec_decode_message (Android13Plus android16) frame = Ok (Reply demo_reply)"
proof -
  have "a13_reply_ok android16 demo_reply"
    by (simp add: demo_reply_def a13_reply_ok_def reply_fixed_len_def MAX_FRAME_LEN_def)
  from a13_reply [OF this] show ?thesis by auto
qed

lemma waiting_conn:
  "\<exists>g s1. session_find_conn demo_env (waiting f) = Some (Ok g, s1) \<and> \<not> reentrant g \<and> guard_transport g = 5"
  by (simp add: waiting_def session_find_conn_def session_pool_def demo_session_def with_profile_def find_conn_def
    driven_def claim_def)

text \<open>A run of reference releases, then a reply.\<close>

definition releases :: "WireProfile \<Rightarrow> (byte list \<times> fd list) rpc_result list \<Rightarrow> (RpcAddress \<times> u32) list \<Rightarrow> bool" where
  "releases w ms as \<longleftrightarrow> list_all2 (\<lambda>m (a, n). \<exists>f fds. m = Ok (f, fds) \<and> codec_decode_message w f = Ok (DecStrong a n)) ms as"

definition release_all :: "(RpcAddress \<times> u32) list \<Rightarrow> RpcState \<Rightarrow> RpcState" where
  "release_all as st = fold (\<lambda>(a, n) st. snd (dec_strong_local a n st)) as st"

definition reply_result :: "rpc_env \<Rightarrow> RpcSessionInner \<Rightarrow> WireReply \<Rightarrow> fd list \<Rightarrow> parcel option result" where
  "reply_result E s rep fds =
    (if reply_status rep \<noteq> 0 then Err (StatusCode_of_i32 (env_errno E) (sint (reply_status rep)))
     else Ok (Some (reply_parcel E rep (if ses_fd_mode s = FdUnix then fds else []) s)))"

lemma reply_result_cong:
  "ses_fd_mode s = ses_fd_mode s' \<Longrightarrow> ses_profile s = ses_profile s' \<Longrightarrow> reply_result E s rep fds = reply_result E s' rep fds"
  by (simp add: reply_result_def reply_parcel_def session_parcel_def)

lemma reply_loop_reply:
  assumes "releases (ses_profile s) ms as" "ses_inbox s (guard_transport g) = ms @ Ok (frame, fds) # rest"
    "codec_decode_message (ses_profile s) frame = Ok (Reply rep)"
  shows "reply_loop E g d s = Some (reply_result E s rep fds,
    s\<lparr>ses_inbox := (ses_inbox s)(guard_transport g := rest), ses_state := release_all as (ses_state s)\<rparr>)"
  using assms
proof (induction ms arbitrary: as s)
  case Nil
  then show ?case
    by (subst reply_loop.simps) (simp add: recv_msg_def releases_def release_all_def reply_result_def reply_parcel_def session_parcel_def)
next
  case (Cons m ms)
  obtain f fds' a n as' where m: "m = Ok (f, fds')" "codec_decode_message (ses_profile s) f = Ok (DecStrong a n)"
      "as = (a, n) # as'" "releases (ses_profile s) ms as'"
    using Cons.prems(1) by (auto simp: releases_def list_all2_Cons1)
  let ?s = "s\<lparr>ses_inbox := (ses_inbox s)(guard_transport g := ms @ Ok (frame, fds) # rest),
    ses_state := snd (dec_strong_local a n (ses_state s))\<rparr>"
  have "reply_loop E g d s = reply_loop E g d ?s"
    by (subst reply_loop.simps) (simp add: recv_msg_def Cons.prems(2) m(1,2))
  also have "\<dots> = Some (reply_result E ?s rep fds,
    ?s\<lparr>ses_inbox := (ses_inbox ?s)(guard_transport g := rest), ses_state := release_all as' (ses_state ?s)\<rparr>)"
    using m(4) Cons.prems(3) by (intro Cons.IH) simp_all
  also have "reply_result E ?s rep fds = reply_result E s rep fds" by (rule reply_result_cong) simp_all
  finally show ?case by (simp add: m(3) release_all_def cong: if_cong)
qed

lemma claim_released:
  assumes "find_conn me t P = (Found g, Q)" "distinct (map slot_id (slots (conn_state P)))"
    "\<forall>c \<in> set (slots (conn_state P)). exclusive_tid c \<noteq> Some t"
  shows "guard_drop me t g Q = P"
proof (cases "driven me (driving P t)")
  case (Some i)
  then show ?thesis using assms(1) by (auto simp: find_conn_def reenter_def guard_drop_def split: option.splits)
next
  case None
  obtain c ss where cf: "claim_first (\<lambda>s. exclusive_tid s = Some t \<or> exclusive_tid s = None) t (slots (conn_state P)) = Some (c, ss)"
    and gq: "claim me t c ss P = (g, Q)"
    using assms(1) None by (auto simp: find_conn_def split: if_splits option.splits prod.splits)
  from claim_first_Some [OF cf] obtain pre post where sp: "slots (conn_state P) = pre @ c # post"
    "ss = pre @ c\<lparr>exclusive_tid := Some t\<rparr> # post" "exclusive_tid c = Some t \<or> exclusive_tid c = None" by blast
  have free: "exclusive_tid c = None" using sp assms(3) by auto
  have c0: "c\<lparr>exclusive_tid := None\<rparr> = c" using free by (cases c) simp
  have "give_back (slot_id c) ss = slots (conn_state P)"
    unfolding sp(2) using assms(2) sp(1) c0 by (subst give_back_split(2)) auto
  then show ?thesis using gq by (auto simp: claim_def guard_drop_def remove_last_def)
qed

lemma call_answered:
  assumes conn: "session_find_conn E s = Some (Ok g, s1)" and two_way: "\<not> is_oneway flags"
    and idle: "distinct (map slot_id (slots (conn_state (ses_pool s))))"
      "\<forall>c \<in> set (slots (conn_state (ses_pool s))). exclusive_tid c \<noteq> Some (env_tid E)"
    and encoded: "codec_encode_transact (ses_profile s) (request addr code data flags) = Ok out"
    and sends: "env_send_error E (ses_outbox s) (guard_transport g) = None" "no_timeout_errors E \<or> ses_timeout s = None"
    and inbox: "ses_inbox s (guard_transport g) = ms @ Ok (frame, fds) # rest" "releases (ses_profile s) ms as"
      "codec_decode_message (ses_profile s) frame = Ok (Reply rep)"
  shows "\<exists>s'. client_transact E addr code data flags s = Some (reply_result E s rep fds, s') \<and>
    ses_outbox s' = ses_outbox s @ [(guard_transport g, out, if ses_fd_mode s = FdUnix then rpc_out_fds data else [])] \<and>
    ses_inbox s' = (ses_inbox s)(guard_transport g := rest) \<and>
    ses_state s' = release_all as (ses_state s) \<and> ses_pool s' = session_pool s \<and>
    (ses_timeout s \<noteq> None \<longrightarrow> ses_read_timeouts s' (guard_transport g) = None)"
proof -
  let ?tr = "guard_transport g"
  note s1 = find_conn_frame [OF conn]
  define s2 where "s2 = s1\<lparr>ses_outbox := ses_outbox s @ [(?tr, out, if ses_fd_mode s = FdUnix then rpc_out_fds data else [])]\<rparr>"
  note run = two_way_sent [OF conn two_way encoded sends(1) refl s2_def]
  obtain s3 where arm: "arm_deadline E ?tr (ses_timeout s) s2 = (Ok (), s3)" using sends(2) arm_ok by (fastforce simp: arm_deadline_def)
  then have s3: "s3 = s2\<lparr>ses_read_timeouts := ses_read_timeouts s3\<rparr>" 
    by (auto simp: arm_deadline_def set_read_timeout_def split: option.splits)
  define s4 where "s4 = s3\<lparr>ses_inbox := (ses_inbox s3)(?tr := rest), ses_state := release_all as (ses_state s3)\<rparr>"
  have "reply_loop E g (ses_timeout s) s3 = Some (reply_result E s3 rep fds, s4)"
    unfolding s4_def using inbox s1 
    by (intro reply_loop_reply) (subst s3; simp add: s2_def)+
  moreover have "reply_result E s3 rep fds = reply_result E s rep fds"
    by (rule reply_result_cong; subst s3; simp add: s2_def s1)
  ultimately have "client_transact E addr code data flags s =
      Some (reply_result E s rep fds, drop_conn E g (disarm_deadline E ?tr (ses_timeout s) s4))"
    using run arm by simp
  moreover have "ses_pool s4 = ses_pool s1" unfolding s4_def by (subst s3) (simp add: s2_def)
  moreover have "guard_drop (env_me E) (env_tid E) g (ses_pool s1) = session_pool s"
    using conn idle by (intro claim_released) (auto simp: session_find_conn_def session_pool_def split: prod.splits turn.splits)
  moreover have "ses_outbox s4 = ses_outbox s2" "ses_inbox s4 = (ses_inbox s)(?tr := rest)"
      "ses_state s4 = release_all as (ses_state s)"
    unfolding s4_def by (subst s3; simp add: s2_def s1)+
  ultimately show ?thesis
    using sends(2) by (auto simp: drop_conn_def s2_def disarm_deadline_def set_read_timeout_def no_timeout_errors_def)
qed

text \<open>C20: a call whose reply arrives returns it. When the request can be sent and the peer answers, with
  any number of reference releases ahead of the reply, the call comes back with that reply: its status as
  an error or its data as a parcel. Exactly the request went out, exactly those messages were taken from
  the connection, the releases have been applied, the connection is back in the pool as before and its
  read deadline is cleared.\<close>

theorem reply_returned:
  assumes conn: "session_find_conn E s = Some (Ok g, s1)" and two_way: "\<not> is_oneway flags"
    and idle: "distinct (map slot_id (slots (conn_state (ses_pool s))))"
      "\<forall>c \<in> set (slots (conn_state (ses_pool s))). exclusive_tid c \<noteq> Some (env_tid E)"
    and encoded: "codec_encode_transact (ses_profile s) (request addr code data flags) = Ok out"
    and sends: "env_send_error E (ses_outbox s) (guard_transport g) = None" "no_timeout_errors E"
    and inbox: "ses_inbox s (guard_transport g) = ms @ Ok (frame, fds) # rest" "releases (ses_profile s) ms as"
      "codec_decode_message (ses_profile s) frame = Ok (Reply rep)"
  shows "\<exists>s'. client_transact E addr code data flags s = Some (reply_result E s rep fds, s') \<and>
    ses_outbox s' = ses_outbox s @ [(guard_transport g, out, if ses_fd_mode s = FdUnix then rpc_out_fds data else [])] \<and>
    ses_inbox s' = (ses_inbox s)(guard_transport g := rest) \<and>
    ses_state s' = release_all as (ses_state s) \<and> ses_pool s' = session_pool s \<and>
    (ses_timeout s \<noteq> None \<longrightarrow> ses_read_timeouts s' (guard_transport g) = None)"
  by (rule call_answered [OF conn two_way idle encoded sends(1) disjI1 [OF sends(2)] inbox])

lemma waiting_idle:
  "distinct (map slot_id (slots (conn_state (ses_pool (waiting f)))))"
  "\<forall>c \<in> set (slots (conn_state (ses_pool (waiting f)))). exclusive_tid c \<noteq> Some (env_tid demo_env)"
  by (simp_all add: waiting_def demo_session_def with_profile_def demo_env_def)

lemma demo_quiet: "tame_handlers demo_env tr" "no_timeout_errors demo_env" "env_send_error demo_env ob tr = None"
  by (simp_all add: tame_handlers_def no_timeout_errors_def demo_env_def)

lemma demo_request: "\<exists>out. codec_encode_transact (ses_profile (waiting f)) (request addr_zero code demo_parcel 0) = Ok out"
proof -
  have "a13_txn_ok android16 (request addr_zero code demo_parcel 0)"
    by (simp add: a13_txn_ok_def request_def demo_parcel_def session_parcel_def configure_rpc_def parcel_new_def
      rpc_object_positions_def rpc_default_def MAX_FRAME_LEN_def A13_TXN_FIXED_LEN_def A13_ADDR_LEN_def a13_addr_ok_def is_zero_def addr_zero_def)
  from a13_transact [OF this] show ?thesis by (auto simp: waiting_def demo_facts)
qed

lemma waiting_answered:
  assumes "codec_decode_message (Android13Plus android16) frame = Ok (Reply demo_reply)"
  shows "\<exists>r s'. client_transact demo_env addr_zero 1 demo_parcel 0 (waiting frame) = Some (r, s') \<and> r \<noteq> Panic"
proof -
  obtain g s1 where c: "session_find_conn demo_env (waiting frame) = Some (Ok g, s1)" using waiting_conn by blast
  obtain out where o: "codec_encode_transact (ses_profile (waiting frame)) (request addr_zero 1 demo_parcel 0) = Ok out"
    using demo_request by blast
  have "\<not> is_oneway 0" by (simp add: is_oneway_def FLAG_ONEWAY_def)
  from call_answered [OF c this waiting_idle o demo_quiet(3) disjI1 [OF demo_quiet(2)], of "[]" frame "[]" "[]" "[]" demo_reply] assms
  show ?thesis by (auto simp: releases_def waiting_def demo_facts reply_result_def split: if_splits)
qed

theorem reply_returned_witness:
  "\<exists>frame out s'. codec_decode_message (Android13Plus android16) frame = Ok (Reply demo_reply) \<and>
    client_transact demo_env addr_zero 1 demo_parcel 0 (waiting frame) =
      Some (reply_result demo_env (waiting frame) demo_reply [], s') \<and> ses_outbox s' = [(5, out, [])]"
proof -
  obtain frame where f: "codec_decode_message (Android13Plus android16) frame = Ok (Reply demo_reply)"
    using demo_reply_frame by blast
  obtain g s1 where c: "session_find_conn demo_env (waiting frame) = Some (Ok g, s1)" "\<not> reentrant g" "guard_transport g = 5"
    using waiting_conn by blast
  obtain out where o: "codec_encode_transact (ses_profile (waiting frame)) (request addr_zero 1 demo_parcel 0) = Ok out"
    using demo_request by blast
  have i: "ses_inbox (waiting frame) (guard_transport g) = [] @ Ok (frame, []) # []" by (simp add: waiting_def)
  have rel: "releases (ses_profile (waiting frame)) [] []" by (simp add: releases_def)
  have dec: "codec_decode_message (ses_profile (waiting frame)) frame = Ok (Reply demo_reply)"
    using f by (simp add: waiting_def demo_facts)
  have tw: "\<not> is_oneway 0" by (simp add: is_oneway_def FLAG_ONEWAY_def)
  from reply_returned [OF c(1) tw waiting_idle o demo_quiet(3,2) i rel dec]
  show ?thesis using f c(3) by (auto simp: waiting_def demo_session_def with_profile_def)
qed

theorem replies_match_requests_witness:
  "\<exists>frame g s1 r s'. session_find_conn demo_env (waiting frame) = Some (Ok g, s1) \<and>
    client_transact demo_env addr_zero 1 demo_parcel 0 (waiting frame) = Some (r, s') \<and> r \<noteq> Panic \<and>
    (ses_outbox s' = ses_outbox (waiting frame) \<and> ses_inbox s' = ses_inbox (waiting frame) \<or> retired g s' \<or>
     answered demo_env (guard_transport g) (waiting frame) r s')"
proof -
  obtain frame where f: "codec_decode_message (Android13Plus android16) frame = Ok (Reply demo_reply)"
    using demo_reply_frame by blast
  obtain g s1 where c: "session_find_conn demo_env (waiting frame) = Some (Ok g, s1)" "\<not> reentrant g"
    using waiting_conn by blast
  obtain r s' where call: "client_transact demo_env addr_zero 1 demo_parcel 0 (waiting frame) = Some (r, s')" "r \<noteq> Panic"
    using waiting_answered [OF f] by blast
  have "\<not> is_oneway 0" by (simp add: is_oneway_def FLAG_ONEWAY_def)
  from replies_match_requests [OF demo_quiet(1,2) c this call] show ?thesis using c(1) call by blast
qed

text \<open>C21: where the matching of replies breaks. A call whose reply deadline cannot be set, as a zero
  duration on a socket, has already sent its request: it fails, but the connection goes back to the pool
  with the reply still to come, and once the deadline is changed the next call, whatever it asks for, is
  answered with the reply to the failed one.\<close>

theorem deadline_error_shifts_replies:
  assumes conn: "session_find_conn E s = Some (Ok g, s1)" and two_way: "\<not> is_oneway flags" "\<not> is_oneway flags2"
    and idle: "distinct (map slot_id (slots (conn_state (ses_pool s))))"
      "\<forall>c \<in> set (slots (conn_state (ses_pool s))). exclusive_tid c \<noteq> Some (env_tid E)"
    and encoded: "codec_encode_transact (ses_profile s) (request addr code data flags) = Ok out"
      "codec_encode_transact (ses_profile s) (request addr2 code2 data2 flags2) = Ok out2"
    and sends: "\<forall>ob. env_send_error E ob (guard_transport g) = None"
    and deadline: "ses_timeout s = Some d" "env_timeout_error E (Some d) = Some e"
    and first_reply: "ses_inbox s (guard_transport g) = Ok (frame, fds) # rest"
      "codec_decode_message (ses_profile s) frame = Ok (Reply rep)"
  shows "\<exists>s' s''. client_transact E addr code data flags s = Some (Err (StatusCode_of_RpcErr (env_errno E) e), s') \<and>
    client_transact E addr2 code2 data2 flags2 (s'\<lparr>ses_timeout := None\<rparr>) = Some (reply_result E s rep fds, s'')"
proof -
  let ?tr = "guard_transport g"
  define s2 where "s2 = s1\<lparr>ses_outbox := ses_outbox s @ [(?tr, out, if ses_fd_mode s = FdUnix then rpc_out_fds data else [])]\<rparr>"
  note s1 = find_conn_frame [OF conn]
  have found: "find_conn (env_me E) (env_tid E) (session_pool s) = (Found g, ses_pool s1)"
    using conn by (auto simp: session_find_conn_def split: prod.splits turn.splits)
  have s1_eq: "s1 = s\<lparr>ses_pool := ses_pool s1\<rparr>"
    using conn by (auto simp: session_find_conn_def split: prod.splits turn.splits)
  have freed: "ses_pool (drop_conn E g s2) = session_pool s"
    using claim_released [OF found] idle by (simp add: session_pool_def drop_conn_def s2_def)
  have call1: "client_transact E addr code data flags s = Some (Err (StatusCode_of_RpcErr (env_errno E) e), drop_conn E g s2)"
    using two_way_sent [OF conn two_way(1) encoded(1) spec [OF sends] refl s2_def] deadline
    by (simp add: arm_deadline_def set_read_timeout_def)
  let ?s = "(drop_conn E g s2)\<lparr>ses_timeout := None\<rparr>"
  have "session_pool ?s = session_pool s"
    using freed by (subst session_pool_def, subst s2_def, subst s1_eq) (simp add: session_pool_def drop_conn_def s2_def)
  then have conn2: "session_find_conn E ?s = Some (Ok g, ?s\<lparr>ses_pool := ses_pool s1\<rparr>)"
    using found by (simp add: session_find_conn_def)
  have s: "ses_profile ?s = ses_profile s" "ses_inbox ?s = ses_inbox s" "ses_fd_mode ?s = ses_fd_mode s"
    by (simp_all add: drop_conn_def s2_def s1)
  have idle2: "distinct (map slot_id (slots (conn_state (ses_pool ?s))))"
      "\<forall>c \<in> set (slots (conn_state (ses_pool ?s))). exclusive_tid c \<noteq> Some (env_tid E)"
    using idle freed by (simp_all add: session_pool_def)
  have "\<exists>s'. client_transact E addr2 code2 data2 flags2 ?s = Some (reply_result E ?s rep fds, s')"
    using call_answered [OF conn2 two_way(2) idle2, of addr2 code2 data2 out2 "[]" frame fds rest "[]" rep]
      encoded(2) sends first_reply s by (auto simp: releases_def)
  moreover have "reply_result E ?s rep fds = reply_result E s rep fds" by (rule reply_result_cong) (simp_all add: s)
  ultimately show ?thesis using call1 by auto
qed

text \<open>The error of the standard library for a zero duration has no error number.\<close>

definition strict_env :: rpc_env where
  "strict_env = demo_env\<lparr>env_timeout_error := \<lambda>d. if d = Some 0 then Some (Io \<lparr>io_kind = OtherKind, io_raw_os_error = None\<rparr>) else None\<rparr>"

theorem deadline_error_shifts_replies_witness:
  "\<exists>frame s' s''. codec_decode_message (Android13Plus android16) frame = Ok (Reply demo_reply) \<and>
    client_transact strict_env addr_zero 1 demo_parcel 0 ((waiting frame)\<lparr>ses_timeout := Some 0\<rparr>) = Some (Err Unknown, s') \<and>
    client_transact strict_env addr_zero 2 demo_parcel 0 (s'\<lparr>ses_timeout := None\<rparr>) =
      Some (reply_result strict_env (waiting frame) demo_reply [], s'')"
proof -
  obtain frame where f: "codec_decode_message (Android13Plus android16) frame = Ok (Reply demo_reply)"
    using demo_reply_frame by blast
  let ?s = "(waiting frame)\<lparr>ses_timeout := Some 0\<rparr>"
  obtain g s1 where c: "session_find_conn strict_env ?s = Some (Ok g, s1)"
    by (simp add: strict_env_def waiting_def session_find_conn_def session_pool_def demo_session_def with_profile_def
      find_conn_def driven_def claim_def)
  obtain out out2 where o: "codec_encode_transact (ses_profile ?s) (request addr_zero 1 demo_parcel 0) = Ok out"
      "codec_encode_transact (ses_profile ?s) (request addr_zero 2 demo_parcel 0) = Ok out2"
    using demo_request [of frame 1] demo_request [of frame 2] by auto
  have tw: "\<not> is_oneway 0" by (simp add: is_oneway_def FLAG_ONEWAY_def)
  have e: "env_timeout_error strict_env (Some 0) = Some (Io \<lparr>io_kind = OtherKind, io_raw_os_error = None\<rparr>)"
    by (simp add: strict_env_def)
  have quiet: "distinct (map slot_id (slots (conn_state (ses_pool ?s))))"
    "\<forall>c \<in> set (slots (conn_state (ses_pool ?s))). exclusive_tid c \<noteq> Some (env_tid strict_env)"
    "\<forall>ob. env_send_error strict_env ob (guard_transport g) = None"
    using waiting_idle [of frame] by (simp_all add: strict_env_def) (simp_all add: demo_env_def)
  have i: "ses_timeout ?s = Some 0" "ses_inbox ?s (guard_transport g) = Ok (frame, []) # []"
    "codec_decode_message (ses_profile ?s) frame = Ok (Reply demo_reply)"
    using f by (simp_all add: waiting_def demo_facts)
  have "reply_result strict_env ?s demo_reply [] = reply_result strict_env (waiting frame) demo_reply []"
    by (rule reply_result_cong) simp_all
  with deadline_error_shifts_replies [OF c tw tw quiet(1,2) o quiet(3) i(1) e i(2,3)] f show ?thesis
    by (auto simp: StatusCode_of_io_error_def)
qed

end
