(* ===== verification/Aidl_Const.thy ===== *)
theory Aidl_Const
  imports Prelude
begin

text \<open>
  Constant expressions of the AIDL compiler (\<open>rsbinder-aidl/src/const_expr.rs\<close>): values and
  expressions, conversions, operators and evaluation. A Rust string is the list of its UTF-8 bytes, a
  \<open>char\<close> its code point. Floating point arithmetic and the resolution of names by the parser
  (\<open>parser::name_to_const_expr\<close>, fixed while an expression is evaluated) are arguments, as fields of
  \<open>aidl_env\<close>. Evaluation, conversion and comparison call each other, so they take fuel: \<open>None\<close> is a call
  that has not returned within that many nested calls.
\<close>

section \<open>Values and expressions\<close>

type_synonym i8 = "8 word"
type_synonym i64 = "64 word"

definition MAX_EXPR_DEPTH :: nat where "MAX_EXPR_DEPTH = 256"

datatype 'f ValueType =
    Void
  | Name string
  | Bool bool
  | Byte i8
  | Int32 i32
  | Int64 i64
  | CharV nat
  | StringV string
  | Float 'f
  | Double 'f
  | Array "'f ConstExpr list"
  | Map "'f ConstExpr" "'f ConstExpr"
  | Expr "'f ConstExpr" string "'f ConstExpr"
  | Unary string "'f ConstExpr"
  | IBinder
  | FileDescriptor
  | Holder
  | UserDefined string
  | Reference (enum_type: string) (enum_name: string) (member_name: string) (ref_value: i64)
and 'f ConstExpr = ConstExpr (raw_expr: string) (is_calculated: bool) (val: "'f ValueType")

definition const_new :: "'f ValueType \<Rightarrow> 'f ConstExpr" where
  "const_new v = ConstExpr [] False v"

definition new_expr :: "'f ConstExpr \<Rightarrow> string \<Rightarrow> 'f ConstExpr \<Rightarrow> 'f ConstExpr" where
  "new_expr l operator r = const_new (Expr l operator r)"

definition new_unary :: "string \<Rightarrow> 'f ConstExpr \<Rightarrow> 'f ConstExpr" where
  "new_unary operator e = const_new (Unary operator e)"

fun is_primitive :: "'f ValueType \<Rightarrow> bool" where
  "is_primitive Void = True" | "is_primitive (Bool _) = True" | "is_primitive (Byte _) = True"
| "is_primitive (Int32 _) = True" | "is_primitive (Int64 _) = True" | "is_primitive (CharV _) = True"
| "is_primitive (Float _) = True" | "is_primitive (Double _) = True"
| "is_primitive (Reference _ _ _ _) = True" | "is_primitive _ = False"

fun order :: "'f ValueType \<Rightarrow> nat" where
  "order Void = 0" | "order (Name _) = 1" | "order (Bool _) = 2" | "order (Byte _) = 3" | "order (Int32 _) = 4"
| "order (Int64 _) = 5" | "order (CharV _) = 6" | "order (StringV _) = 7" | "order (Float _) = 8"
| "order (Double _) = 9" | "order (Array _) = 10" | "order (Map _ _) = 11" | "order (Expr _ _ _) = 12"
| "order (Unary _ _) = 13" | "order IBinder = 14" | "order FileDescriptor = 15" | "order Holder = 16"
| "order (UserDefined _) = 17" | "order (Reference _ _ _ _) = 18"

text \<open>The diagnostics, by what they report.\<close>

datatype ConstExprError =
    NestedTooDeeply
  | CircularReference string
  | CannotResolve string
  | Overflows string
  | CannotNegate
  | DivisionError
  | NotSupported string
  | UnaryOperand string
  | OnlyPlusForStrings string
  | NonStringOperand
  | CharOperand string
  | BitwiseOperand string
  | ArithmeticOperand string
  | ShiftAmount u64 nat
  | ShiftNegative i64
  | ShiftOverflows i64 nat nat
  | ShiftOperand string
  | ByteRange i64
  | IntRange i64
  | NotAChar i64
  | UnsupportedConversion

type_synonym 'a ev = "(ConstExprError, 'a) outcome option"

abbreviation ret :: "'a \<Rightarrow> 'a ev" where "ret a \<equiv> Some (Ok a)"
abbreviation fail :: "ConstExprError \<Rightarrow> 'a ev" where "fail e \<equiv> Some (Err e)"

definition ebind :: "'a ev \<Rightarrow> ('a \<Rightarrow> 'b ev) \<Rightarrow> 'b ev" where
  "ebind m f = Option.bind m (\<lambda>r. case r of Ok a \<Rightarrow> f a | Err e \<Rightarrow> Some (Err e) | Panic \<Rightarrow> Some Panic)"

datatype Ordering = Less | Equal | Greater

record 'f aidl_env =
  name_to_const_expr :: "string \<Rightarrow> 'f ConstExpr option"
  f_add :: "'f \<Rightarrow> 'f \<Rightarrow> 'f"
  f_sub :: "'f \<Rightarrow> 'f \<Rightarrow> 'f"
  f_mul :: "'f \<Rightarrow> 'f \<Rightarrow> 'f"
  f_div :: "'f \<Rightarrow> 'f \<Rightarrow> 'f"
  f_rem :: "'f \<Rightarrow> 'f \<Rightarrow> 'f"
  f_neg :: "'f \<Rightarrow> 'f"
  f_of_int :: "int \<Rightarrow> 'f"
  f_to_i64 :: "'f \<Rightarrow> i64"
  f_as_f32 :: "'f \<Rightarrow> 'f"
  f_cmp :: "'f \<Rightarrow> 'f \<Rightarrow> Ordering option"
  f_show :: "'f \<Rightarrow> string"
  f32_show :: "'f \<Rightarrow> string"

section \<open>Printing\<close>

fun show_nat :: "nat \<Rightarrow> string" where
  "show_nat n = (if n < 10 then [char_of (48 + n)] else show_nat (n div 10) @ [char_of (48 + n mod 10)])"

definition show_int :: "int \<Rightarrow> string" where
  "show_int i = (if i < 0 then CHR ''-'' # show_nat (nat (- i)) else show_nat (nat i))"

fun show_hex :: "nat \<Rightarrow> string" where
  "show_hex n = (if n < 16 then [if n < 10 then char_of (48 + n) else char_of (87 + n)]
    else show_hex (n div 16) @ [if n mod 16 < 10 then char_of (48 + n mod 16) else char_of (87 + n mod 16)])"

definition utf8 :: "nat \<Rightarrow> string" where
  "utf8 c =
    (if c < 0x80 then [char_of c]
     else if c < 0x800 then [char_of (0xC0 + c div 64), char_of (0x80 + c mod 64)]
     else if c < 0x10000 then [char_of (0xE0 + c div 4096), char_of (0x80 + c div 64 mod 64), char_of (0x80 + c mod 64)]
     else [char_of (0xF0 + c div 262144), char_of (0x80 + c div 4096 mod 64), char_of (0x80 + c div 64 mod 64),
       char_of (0x80 + c mod 64)])"

definition is_control :: "nat \<Rightarrow> bool" where
  "is_control c \<longleftrightarrow> c < 32 \<or> 127 \<le> c \<and> c < 160"

definition char_to_string :: "nat \<Rightarrow> string" where
  "char_to_string ch =
    (if ch = 92 then [char_of (92::nat), char_of (92::nat)]
     else if ch = 39 then [char_of (92::nat), char_of (39::nat)]
     else if ch = 34 then [char_of (92::nat), char_of (34::nat)]
     else if ch = 10 then [char_of (92::nat), CHR ''n'']
     else if ch = 9 then [char_of (92::nat), CHR ''t'']
     else if ch = 13 then [char_of (92::nat), CHR ''r'']
     else if ch = 0 then [char_of (92::nat), CHR ''0'']
     else if is_control ch then [char_of (92::nat), CHR ''u'', CHR ''{''] @ show_hex ch @ ''}''
     else utf8 ch)"

fun to_value_string :: "'f aidl_env \<Rightarrow> 'f ValueType \<Rightarrow> string" and const_to_value_string where
  "to_value_string E Void = []"
| "to_value_string E (StringV v) = v"
| "to_value_string E (Byte v) = show_int (sint v)"
| "to_value_string E (Int32 v) = show_int (sint v)"
| "to_value_string E (Int64 v) = show_int (sint v)"
| "to_value_string E (Float v) = f32_show E v"
| "to_value_string E (Double v) = f_show E v"
| "to_value_string E (Bool v) = (if v then ''true'' else ''false'')"
| "to_value_string E (CharV v) = char_to_string v"
| "to_value_string E (Array v) = ''vec!['' @ concat (map (\<lambda>e. const_to_value_string E e @ '','') v) @ '']''"
| "to_value_string E (Name v) = v"
| "to_value_string E (Reference t n m v) = n @ ''.'' @ m"
| "to_value_string E (Expr l operator r) =
    const_to_value_string E l @ '' '' @ operator @ '' '' @ const_to_value_string E r"
| "to_value_string E (Unary operator e) = operator @ '' '' @ const_to_value_string E e"
| "to_value_string E _ = []"
| "const_to_value_string E (ConstExpr raw c v) = to_value_string E v"

section \<open>Promotion\<close>

fun is_bool :: "'f ValueType \<Rightarrow> bool" where
  "is_bool (Bool _) = True"
| "is_bool _ = False"

definition type_conversion :: "'f ValueType \<Rightarrow> 'f ValueType \<Rightarrow> 'f ValueType" where
  "type_conversion l r =
    (if order l = order r then l
     else if is_bool l then r
     else if is_bool r then l
     else if order l > order r then l else r)"

definition integral_promotion :: "'f ValueType \<Rightarrow> 'f ValueType" where
  "integral_promotion v = (if order v > order (Int32 0 :: 'f ValueType) then v else Int32 0)"

section \<open>Operators on evaluated operands\<close>

text \<open>The checked operations of \<open>i64\<close>: \<open>None\<close> when the exact result does not fit, or there is none.\<close>

definition i64_checked :: "int \<Rightarrow> i64 option" where
  "i64_checked v = (if - (2 ^ 63) \<le> v \<and> v < 2 ^ 63 then Some (word_of_int v) else None)"

text \<open>Rust's division truncates towards zero and the remainder has the sign of the dividend.\<close>

definition quot :: "int \<Rightarrow> int \<Rightarrow> int" where
  "quot a b = sgn a * sgn b * (\<bar>a\<bar> div \<bar>b\<bar>)"

definition remainder :: "int \<Rightarrow> int \<Rightarrow> int" where
  "remainder a b = a - b * quot a b"

definition checked_add :: "i64 \<Rightarrow> i64 \<Rightarrow> i64 option" where "checked_add a b = i64_checked (sint a + sint b)"
definition checked_sub :: "i64 \<Rightarrow> i64 \<Rightarrow> i64 option" where "checked_sub a b = i64_checked (sint a - sint b)"
definition checked_mul :: "i64 \<Rightarrow> i64 \<Rightarrow> i64 option" where "checked_mul a b = i64_checked (sint a * sint b)"

definition checked_div :: "i64 \<Rightarrow> i64 \<Rightarrow> i64 option" where
  "checked_div a b = (if b = 0 then None else i64_checked (quot (sint a) (sint b)))"

definition checked_rem :: "i64 \<Rightarrow> i64 \<Rightarrow> i64 option" where
  "checked_rem a b =
    (if b = 0 \<or> sint a = - (2 ^ 63) \<and> sint b = -1 then None else i64_checked (remainder (sint a) (sint b)))"

text \<open>\<open>as i32\<close> and \<open>as i8\<close> truncate, \<open>as i64\<close> extends the sign.\<close>

abbreviation as_i32 :: "i64 \<Rightarrow> i32" where "as_i32 v \<equiv> ucast v"
abbreviation as_i8 :: "i64 \<Rightarrow> i8" where "as_i8 v \<equiv> ucast v"

definition arithmetic_bit_op ::
    "('f ConstExpr \<Rightarrow> i64 ev) \<Rightarrow> 'f ConstExpr \<Rightarrow> (i64 \<Rightarrow> i64 \<Rightarrow> i64) \<Rightarrow> 'f ConstExpr \<Rightarrow> string \<Rightarrow> 'f ValueType \<Rightarrow> 'f ConstExpr ev" where
  "arithmetic_bit_op to_i64 lhs operator rhs desc promoted =
    (let value = \<lambda>mk. ebind (to_i64 lhs) (\<lambda>a. ebind (to_i64 rhs) (\<lambda>b. ret (const_new (mk (operator a b)))))
     in case promoted of
          Bool _ \<Rightarrow> value (\<lambda>v. Bool (v \<noteq> 0))
        | Byte _ \<Rightarrow> value (\<lambda>v. Byte (as_i8 v))
        | Int32 _ \<Rightarrow> value (\<lambda>v. Int32 (as_i32 v))
        | Int64 _ \<Rightarrow> value Int64
        | Reference _ _ _ _ \<Rightarrow> value Int64
        | _ \<Rightarrow> fail (BitwiseOperand desc))"

fun is_string :: "'f ValueType \<Rightarrow> bool" where
  "is_string (StringV _) = True"
| "is_string _ = False"

definition arithmetic_basic_op ::
    "('f ConstExpr \<Rightarrow> 'f ValueType \<Rightarrow> 'f ConstExpr ev) \<Rightarrow> ('f ConstExpr \<Rightarrow> i64 ev) \<Rightarrow> ('f ConstExpr \<Rightarrow> 'f ev) \<Rightarrow> 'f aidl_env \<Rightarrow>
     'f ConstExpr \<Rightarrow> (i64 \<Rightarrow> i64 \<Rightarrow> i64 ev) \<Rightarrow> ('f \<Rightarrow> 'f \<Rightarrow> 'f) \<Rightarrow> 'f ConstExpr \<Rightarrow> string \<Rightarrow> 'f ValueType \<Rightarrow> 'f ConstExpr ev" where
  "arithmetic_basic_op convert_to to_i64 to_f64 E lhs0 int_op float_op rhs0 desc promoted =
    ebind (convert_to lhs0 promoted) (\<lambda>lhs. ebind (convert_to rhs0 promoted) (\<lambda>rhs.
    (let int_value = \<lambda>k. ebind (to_i64 lhs) (\<lambda>a. ebind (to_i64 rhs) (\<lambda>b. ebind (int_op a b) (k a b)));
         float_value = \<lambda>k. ebind (to_f64 lhs) (\<lambda>a. ebind (to_f64 rhs) (\<lambda>b. ret (const_new (k (float_op a b)))))
     in case promoted of
          Void \<Rightarrow> ret (const_new Void)
        | StringV _ \<Rightarrow>
            if desc \<noteq> ''+'' then fail (OnlyPlusForStrings desc)
            else if \<not> is_string (val lhs0) \<or> \<not> is_string (val rhs0) then fail NonStringOperand
            else ret (const_new (StringV (const_to_value_string E lhs @ const_to_value_string E rhs)))
        | CharV _ \<Rightarrow> fail (CharOperand desc)
        | Byte _ \<Rightarrow> int_value (\<lambda>a b v. if sint v > 127 \<or> sint v < -128 then fail (Overflows desc)
            else ret (const_new (Byte (as_i8 v))))
        | Int32 _ \<Rightarrow> int_value (\<lambda>a b v.
            if sint v > 2 ^ 31 - 1 \<or> sint v < - (2 ^ 31) \<or> desc = ''%'' \<and> sint a = - (2 ^ 31) \<and> sint b = -1
            then fail (Overflows desc) else ret (const_new (Int32 (as_i32 v))))
        | Int64 _ \<Rightarrow> int_value (\<lambda>a b v. ret (const_new (Int64 v)))
        | Float _ \<Rightarrow> float_value (\<lambda>v. Float (f_as_f32 E v))
        | Double _ \<Rightarrow> float_value Double
        | Bool _ \<Rightarrow> int_value (\<lambda>a b v. ret (const_new (Bool (v \<noteq> 0))))
        | Reference _ _ _ _ \<Rightarrow> int_value (\<lambda>a b v. ret (const_new (Int64 v)))
        | _ \<Rightarrow> fail (ArithmeticOperand desc))))"

definition or_fail :: "ConstExprError \<Rightarrow> 'a option \<Rightarrow> 'a ev" where
  "or_fail e r = (case r of Some v \<Rightarrow> ret v | None \<Rightarrow> fail e)"

text \<open>\<open>leading_zeros\<close> of the low \<open>bits\<close> bits.\<close>

fun bit_length :: "nat \<Rightarrow> nat" where
  "bit_length n = (if n = 0 then 0 else Suc (bit_length (n div 2)))"

definition leading_zeros :: "nat \<Rightarrow> i64 \<Rightarrow> nat" where
  "leading_zeros bits v = bits - bit_length (unat v mod 2 ^ bits)"

definition shift_op :: "('f ConstExpr \<Rightarrow> i64 ev) \<Rightarrow> 'f ConstExpr \<Rightarrow> string \<Rightarrow> 'f ConstExpr \<Rightarrow> 'f ValueType \<Rightarrow> 'f ConstExpr ev" where
  "shift_op to_i64 lhs operator rhs promoted =
    ebind (to_i64 lhs) (\<lambda>lhs_value. ebind (to_i64 rhs) (\<lambda>raw_amount.
      let is_shl = (if sint raw_amount < 0 then operator \<noteq> ''<<'' else operator = ''<<'');
          amount = nat \<bar>sint raw_amount\<bar>;
          bits = (case promoted of Int64 _ \<Rightarrow> 64 | Reference _ _ _ _ \<Rightarrow> 64 | _ \<Rightarrow> 32);
          value = (if is_shl then push_bit amount lhs_value else signed_drop_bit amount lhs_value)
      in if amount \<ge> bits then fail (ShiftAmount (word_of_nat amount) bits)
         else if sint lhs_value < 0 then fail (ShiftNegative lhs_value)
         else if is_shl \<and> amount > leading_zeros bits lhs_value then fail (ShiftOverflows lhs_value amount bits)
         else case promoted of
             Int32 _ \<Rightarrow> ret (const_new (Int32 (as_i32 value)))
           | Int64 _ \<Rightarrow> ret (const_new (Int64 value))
           | Byte _ \<Rightarrow> ret (const_new (Byte (as_i8 value)))
           | Reference _ _ _ _ \<Rightarrow> ret (const_new (Int64 value))
           | _ \<Rightarrow> fail (ShiftOperand operator)))"

definition comparison :: "string \<Rightarrow> Ordering option \<Rightarrow> bool" where
  "comparison operator c =
    (if operator = ''=='' then c = Some Equal
     else if operator = ''!='' then c \<noteq> Some Equal
     else if operator = ''<='' then c = Some Less \<or> c = Some Equal
     else if operator = ''>='' then c = Some Greater \<or> c = Some Equal
     else if operator = ''<'' then c = Some Less
     else c = Some Greater)"

text \<open>\<open>calc_expr\<close> from the promotion of its two evaluated operands on. The grammar has no other
  operator: \<open>unreachable!()\<close> would panic.\<close>

definition apply_operator ::
    "'f aidl_env \<Rightarrow> ('f ConstExpr \<Rightarrow> bool ev) \<Rightarrow> ('f ConstExpr \<Rightarrow> i64 ev) \<Rightarrow> ('f ConstExpr \<Rightarrow> 'f ev) \<Rightarrow>
     ('f ConstExpr \<Rightarrow> 'f ValueType \<Rightarrow> 'f ConstExpr ev) \<Rightarrow> ('f ConstExpr \<Rightarrow> 'f ConstExpr \<Rightarrow> Ordering option ev) \<Rightarrow>
     'f ConstExpr \<Rightarrow> string \<Rightarrow> 'f ConstExpr \<Rightarrow> 'f ConstExpr ev" where
  "apply_operator E to_bool to_i64 to_f64 convert_to partial_cmp lhs operator rhs =
    (let promoted = type_conversion (integral_promotion (val lhs)) (integral_promotion (val rhs));
         basic = (\<lambda>int_op float_op e. arithmetic_basic_op convert_to to_i64 to_f64 E lhs
           (\<lambda>a b. or_fail e (int_op a b)) float_op rhs operator promoted)
     in if operator = ''||'' then
          ebind (to_bool lhs) (\<lambda>a. if a then ret (const_new (Bool True)) else ebind (to_bool rhs) (\<lambda>b. ret (const_new (Bool b))))
        else if operator = ''&&'' then
          ebind (to_bool lhs) (\<lambda>a. if a then ebind (to_bool rhs) (\<lambda>b. ret (const_new (Bool b))) else ret (const_new (Bool False)))
        else if operator = ''|'' then arithmetic_bit_op to_i64 lhs (OR) rhs operator promoted
        else if operator = ''^'' then arithmetic_bit_op to_i64 lhs (XOR) rhs operator promoted
        else if operator = ''&'' then arithmetic_bit_op to_i64 lhs (AND) rhs operator promoted
        else if operator \<in> {''=='', ''!='', ''<='', ''>='', ''<'', ''>''} then
          ebind (convert_to lhs promoted) (\<lambda>l. ebind (convert_to rhs promoted) (\<lambda>r.
            ebind (partial_cmp l r) (\<lambda>c. ret (const_new (Bool (comparison operator c))))))
        else if operator \<in> {''<<'', ''>>''} then shift_op to_i64 lhs operator rhs promoted
        else if operator = ''+'' then basic checked_add (f_add E) (Overflows operator)
        else if operator = ''-'' then basic checked_sub (f_sub E) (Overflows operator)
        else if operator = ''*'' then basic checked_mul (f_mul E) (Overflows operator)
        else if operator = ''/'' then basic checked_div (f_div E) DivisionError
        else if operator = ''%'' then basic checked_rem (f_rem E) DivisionError
        else Some Panic)"

section \<open>Evaluation\<close>

text \<open>Loops over the elements of an array: each pushes a result, the first failure ends the loop.\<close>

fun map_ev :: "('a \<Rightarrow> 'b ev) \<Rightarrow> 'a list \<Rightarrow> 'b list ev" where
  "map_ev f [] = ret []"
| "map_ev f (x # xs) = ebind (f x) (\<lambda>y. ebind (map_ev f xs) (\<lambda>ys. ret (y # ys)))"

fun fold_ev :: "('a \<Rightarrow> 's \<Rightarrow> ('b \<times> 's) ev) \<Rightarrow> 'a list \<Rightarrow> 's \<Rightarrow> ('b list \<times> 's) ev" where
  "fold_ev f [] s = ret ([], s)"
| "fold_ev f (x # xs) s = ebind (f x s) (\<lambda>(y, s). ebind (fold_ev f xs s) (\<lambda>(ys, s). ret (y # ys, s)))"

text \<open>\<open>Vec::partial_cmp\<close>: the first pair that is not equal decides, then the lengths.\<close>

fun cmp_all :: "('a \<Rightarrow> 'a \<Rightarrow> Ordering option ev) \<Rightarrow> 'a list \<Rightarrow> 'a list \<Rightarrow> Ordering option ev" where
  "cmp_all f [] [] = ret (Some Equal)"
| "cmp_all f [] (y # ys) = ret (Some Less)"
| "cmp_all f (x # xs) [] = ret (Some Greater)"
| "cmp_all f (x # xs) (y # ys) = ebind (f x y) (\<lambda>c. if c = Some Equal then cmp_all f xs ys else ret c)"

definition cmp_int :: "int \<Rightarrow> int \<Rightarrow> Ordering" where
  "cmp_int a b = (if a < b then Less else if a = b then Equal else Greater)"

fun cmp_string :: "string \<Rightarrow> string \<Rightarrow> Ordering" where
  "cmp_string [] [] = Equal"
| "cmp_string [] (_ # _) = Less"
| "cmp_string (_ # _) [] = Greater"
| "cmp_string (x # xs) (y # ys) = (if x = y then cmp_string xs ys else cmp_int (of_char x) (of_char y))"

text \<open>\<open>.ok().and_then(..)\<close>.\<close>

definition cmp_ok :: "'a ev \<Rightarrow> ('a \<Rightarrow> Ordering option) \<Rightarrow> Ordering option ev" where
  "cmp_ok m f = Option.bind m (\<lambda>r. case r of Ok a \<Rightarrow> ret (f a) | Err _ \<Rightarrow> ret None | Panic \<Rightarrow> Some Panic)"

text \<open>\<open>if let\<close> on a name and on an array.\<close>

fun as_name :: "'f ValueType \<Rightarrow> string option" where
  "as_name (Name n) = Some n"
| "as_name _ = None"

fun as_array :: "'f ValueType \<Rightarrow> 'f ConstExpr list option" where
  "as_array (Array es) = Some es"
| "as_array _ = None"

text \<open>The \<open>Name\<close> arm of the three conversions.\<close>

definition via_name :: "'f aidl_env \<Rightarrow> ('f ConstExpr \<Rightarrow> 'f ConstExpr ev) \<Rightarrow> ('f ValueType \<Rightarrow> 'a ev) \<Rightarrow> string \<Rightarrow> 'a ev" where
  "via_name E calc conv name =
    (case name_to_const_expr E name of
       Some e \<Rightarrow> ebind (calc e) (\<lambda>c. case as_name (val c) of Some n \<Rightarrow> fail (CannotResolve n) | None \<Rightarrow> conv (val c))
     | None \<Rightarrow> fail (CannotResolve name))"

text \<open>\<open>ConstExpr::calculate\<close>, given \<open>ValueType::calculate\<close>.\<close>

definition calculate_once :: "('f ValueType \<Rightarrow> 'f ConstExpr ev) \<Rightarrow> 'f ConstExpr \<Rightarrow> 'f ConstExpr ev" where
  "calculate_once calc e =
    (if is_calculated e then ret e
     else ebind (calc (val e)) (\<lambda>c. ret (ConstExpr (raw_expr c) True (val c))))"

definition char_from_i64 :: "i64 \<Rightarrow> nat option" where
  "char_from_i64 raw =
    (if sint raw < 0 \<or> sint raw > 0x10FFFF \<or> 0xD800 \<le> sint raw \<and> sint raw \<le> 0xDFFF then None else Some (nat (sint raw)))"

text \<open>The functions below call each other; they make these calls through \<open>R\<close>, which holds the functions
  themselves with one unit of fuel less. \<open>calculate_with_visited\<close> also returns the set of names it
  leaves behind in \<open>visited\<close>.\<close>

record 'f evaluator =
  rec_calculate_with_visited :: "string set \<Rightarrow> nat \<Rightarrow> 'f ValueType \<Rightarrow> ('f ConstExpr \<times> string set) ev"
  rec_unary_not :: "'f ValueType \<Rightarrow> 'f ConstExpr ev"
  rec_logical_not :: "'f ValueType \<Rightarrow> 'f ConstExpr ev"
  rec_unary_minus :: "'f ValueType \<Rightarrow> 'f ConstExpr ev"
  rec_to_bool :: "'f ValueType \<Rightarrow> bool ev"
  rec_to_f64 :: "'f ValueType \<Rightarrow> 'f ev"
  rec_to_i64 :: "'f ValueType \<Rightarrow> i64 ev"
  rec_convert_to :: "'f ConstExpr \<Rightarrow> 'f ValueType \<Rightarrow> 'f ConstExpr ev"
  rec_partial_cmp :: "'f ValueType \<Rightarrow> 'f ValueType \<Rightarrow> Ordering option ev"

definition calculate :: "'f evaluator \<Rightarrow> 'f ValueType \<Rightarrow> 'f ConstExpr ev" where
  "calculate R v = ebind (rec_calculate_with_visited R {} 0 v) (\<lambda>(e, _). ret e)"

definition calculate_with_visited :: "'f aidl_env \<Rightarrow> 'f evaluator \<Rightarrow> string set \<Rightarrow> nat \<Rightarrow> 'f ValueType \<Rightarrow> ('f ConstExpr \<times> string set) ev" where
  "calculate_with_visited E R visited depth v =
    (if depth > MAX_EXPR_DEPTH then fail NestedTooDeeply
     else case v of
       Unary operator e \<Rightarrow>
         ebind (rec_calculate_with_visited R visited (depth + 1) (val e)) (\<lambda>(e, visited).
           ebind (if operator = ''-'' then rec_unary_minus R (val e)
                  else if operator = ''~'' then rec_unary_not R (val e)
                  else if operator = ''!'' then rec_logical_not R (val e)
                  else if is_string (val e) then fail (UnaryOperand operator)
                  else ret e) (\<lambda>e. ret (e, visited)))
     | Expr lhs operator rhs \<Rightarrow>
         ebind (rec_calculate_with_visited R visited (depth + 1) (val lhs)) (\<lambda>(lhs, _).
         ebind (rec_calculate_with_visited R visited (depth + 1) (val rhs)) (\<lambda>(rhs, _).
         ebind (apply_operator E (\<lambda>e. rec_to_bool R (val e)) (\<lambda>e. rec_to_i64 R (val e)) (\<lambda>e. rec_to_f64 R (val e))
                  (rec_convert_to R) (\<lambda>a b. rec_partial_cmp R (val a) (val b)) lhs operator rhs) (\<lambda>e. ret (e, visited))))
     | Array es \<Rightarrow>
         ebind (fold_ev (\<lambda>e visited. rec_calculate_with_visited R visited (depth + 1) (val e)) es visited) (\<lambda>(es, visited).
           ret (const_new (Array es), visited))
     | Name name \<Rightarrow>
         if name \<in> visited then fail (CircularReference name)
         else (case name_to_const_expr E name of
             Some e \<Rightarrow> rec_calculate_with_visited R (insert name visited) (depth + 1) (val e)
           | None \<Rightarrow> ret (const_new v, insert name visited))
     | _ \<Rightarrow> ret (const_new v, visited))"

definition unary_not :: "'f evaluator \<Rightarrow> 'f ValueType \<Rightarrow> 'f ConstExpr ev" where
  "unary_not R v =
    (case v of
       StringV _ \<Rightarrow> fail (UnaryOperand ''~'')
     | Void \<Rightarrow> ret (const_new v)
     | CharV _ \<Rightarrow> ret (const_new v)
     | Byte b \<Rightarrow> ret (const_new (Byte (NOT b)))
     | Int32 i \<Rightarrow> ret (const_new (Int32 (NOT i)))
     | Int64 i \<Rightarrow> ret (const_new (Int64 (NOT i)))
     | Bool b \<Rightarrow> ret (const_new (Bool (\<not> b)))
     | Expr _ _ _ \<Rightarrow> ebind (calculate R v) (\<lambda>e. rec_unary_not R (val e))
     | Unary _ _ \<Rightarrow> ebind (calculate R v) (\<lambda>e. rec_unary_not R (val e))
     | Array es \<Rightarrow> ebind (map_ev (\<lambda>e. rec_unary_not R (val e)) es) (\<lambda>es. ret (const_new (Array es)))
     | _ \<Rightarrow> fail (UnaryOperand ''~''))"

definition logical_not :: "'f evaluator \<Rightarrow> 'f ValueType \<Rightarrow> 'f ConstExpr ev" where
  "logical_not R v =
    (case v of
       Expr _ _ _ \<Rightarrow> ebind (calculate R v) (\<lambda>e. rec_logical_not R (val e))
     | Unary _ _ \<Rightarrow> ebind (calculate R v) (\<lambda>e. rec_logical_not R (val e))
     | Array es \<Rightarrow> ebind (map_ev (\<lambda>e. rec_logical_not R (val e)) es) (\<lambda>es. ret (const_new (Array es)))
     | _ \<Rightarrow> ebind (rec_to_bool R v) (\<lambda>b. ret (const_new (Bool (\<not> b)))))"

definition unary_minus :: "'f aidl_env \<Rightarrow> 'f evaluator \<Rightarrow> 'f ValueType \<Rightarrow> 'f ConstExpr ev" where
  "unary_minus E R v =
    (case v of
       StringV _ \<Rightarrow> fail (UnaryOperand ''-'')
     | Void \<Rightarrow> ret (const_new v)
     | Bool _ \<Rightarrow> ret (const_new v)
     | CharV _ \<Rightarrow> ret (const_new v)
     | Byte b \<Rightarrow> if sint b = -128 then fail CannotNegate else ret (const_new (Byte (- b)))
     | Int32 i \<Rightarrow> if sint i = - (2 ^ 31) then fail CannotNegate else ret (const_new (Int32 (- i)))
     | Int64 i \<Rightarrow> if sint i = - (2 ^ 63) then fail CannotNegate else ret (const_new (Int64 (- i)))
     | Float f \<Rightarrow> ret (const_new (Float (f_neg E (f_as_f32 E f))))
     | Double f \<Rightarrow> ret (const_new (Double (f_neg E f)))
     | Expr _ _ _ \<Rightarrow> ebind (calculate R v) (\<lambda>e. rec_unary_minus R (val e))
     | Unary _ _ \<Rightarrow> ebind (calculate R v) (\<lambda>e. rec_unary_minus R (val e))
     | Array es \<Rightarrow> ebind (map_ev (\<lambda>e. rec_unary_minus R (val e)) es) (\<lambda>es. ret (const_new (Array es)))
     | _ \<Rightarrow> fail (UnaryOperand ''-''))"

definition to_bool :: "'f aidl_env \<Rightarrow> 'f evaluator \<Rightarrow> 'f ValueType \<Rightarrow> bool ev" where
  "to_bool E R v =
    (case v of
       Void \<Rightarrow> ret False
     | Bool b \<Rightarrow> ret b
     | CharV _ \<Rightarrow> ret True
     | Byte b \<Rightarrow> ret (b \<noteq> 0)
     | Int32 i \<Rightarrow> ret (i \<noteq> 0)
     | Int64 i \<Rightarrow> ret (i \<noteq> 0)
     | Float f \<Rightarrow> ret (f_cmp E f (f_of_int E 0) \<noteq> Some Equal)
     | Double f \<Rightarrow> ret (f_cmp E f (f_of_int E 0) \<noteq> Some Equal)
     | Name name \<Rightarrow> via_name E (calculate_once (calculate R)) (rec_to_bool R) name
     | Expr _ _ _ \<Rightarrow> ebind (calculate R v) (\<lambda>e. rec_to_bool R (val e))
     | Unary _ _ \<Rightarrow> ebind (calculate R v) (\<lambda>e. rec_to_bool R (val e))
     | _ \<Rightarrow> fail (NotSupported ''to_bool''))"

definition to_f64 :: "'f aidl_env \<Rightarrow> 'f evaluator \<Rightarrow> 'f ValueType \<Rightarrow> 'f ev" where
  "to_f64 E R v =
    (case v of
       Void \<Rightarrow> ret (f_of_int E 0)
     | Bool b \<Rightarrow> ret (f_of_int E (if b then 1 else 0))
     | CharV c \<Rightarrow> ret (f_of_int E (int c))
     | Byte b \<Rightarrow> ret (f_of_int E (sint b))
     | Int32 i \<Rightarrow> ret (f_of_int E (sint i))
     | Int64 i \<Rightarrow> ret (f_of_int E (sint i))
     | Float f \<Rightarrow> ret f
     | Double f \<Rightarrow> ret f
     | Name name \<Rightarrow> via_name E (calculate_once (calculate R)) (rec_to_f64 R) name
     | Expr _ _ _ \<Rightarrow> ebind (calculate R v) (\<lambda>e. rec_to_f64 R (val e))
     | Unary _ _ \<Rightarrow> ebind (calculate R v) (\<lambda>e. rec_to_f64 R (val e))
     | _ \<Rightarrow> fail (NotSupported ''to_f64''))"

definition to_i64 :: "'f aidl_env \<Rightarrow> 'f evaluator \<Rightarrow> 'f ValueType \<Rightarrow> i64 ev" where
  "to_i64 E R v =
    (case v of
       Void \<Rightarrow> ret 0
     | Bool b \<Rightarrow> ret (if b then 1 else 0)
     | CharV c \<Rightarrow> ret (word_of_nat c)
     | Byte b \<Rightarrow> ret (scast b)
     | Int32 i \<Rightarrow> ret (scast i)
     | Int64 i \<Rightarrow> ret i
     | Float f \<Rightarrow> ret (f_to_i64 E f)
     | Double f \<Rightarrow> ret (f_to_i64 E f)
     | Name name \<Rightarrow> via_name E (calculate_once (calculate R)) (rec_to_i64 R) name
     | Reference _ _ _ i \<Rightarrow> ret i
     | Expr _ _ _ \<Rightarrow> ebind (calculate R v) (\<lambda>e. rec_to_i64 R (val e))
     | Unary _ _ \<Rightarrow> ebind (calculate R v) (\<lambda>e. rec_to_i64 R (val e))
     | _ \<Rightarrow> fail (NotSupported ''to_i64''))"

definition convert_to :: "'f aidl_env \<Rightarrow> 'f evaluator \<Rightarrow> 'f ConstExpr \<Rightarrow> 'f ValueType \<Rightarrow> 'f ConstExpr ev" where
  "convert_to E R e t =
    (if order (val e) = order t then ret e
     else case as_array (val e) of
       Some es \<Rightarrow> ebind (map_ev (\<lambda>e. rec_convert_to R e t) es) (\<lambda>es. ret (const_new (Array es)))
     | None \<Rightarrow>
       (case t of
          Void \<Rightarrow> ret (const_new Void)
        | StringV _ \<Rightarrow> ret (const_new (StringV (to_value_string E (val e))))
        | Byte _ \<Rightarrow> ebind (rec_to_i64 R (val e)) (\<lambda>i.
            if sint i > 127 \<or> sint i < -128 then fail (ByteRange i) else ret (const_new (Byte (as_i8 i))))
        | Int32 _ \<Rightarrow> ebind (rec_to_i64 R (val e)) (\<lambda>i.
            if sint i > 2 ^ 31 - 1 \<or> sint i < - (2 ^ 31) then fail (IntRange i) else ret (const_new (Int32 (as_i32 i))))
        | Int64 _ \<Rightarrow> ebind (rec_to_i64 R (val e)) (\<lambda>i. ret (const_new (Int64 i)))
        | Float _ \<Rightarrow> ebind (rec_to_f64 R (val e)) (\<lambda>f. ret (const_new (Float (f_as_f32 E f))))
        | Double _ \<Rightarrow> ebind (rec_to_f64 R (val e)) (\<lambda>f. ret (const_new (Double f)))
        | Bool _ \<Rightarrow> ebind (rec_to_bool R (val e)) (\<lambda>b. ret (const_new (Bool b)))
        | CharV _ \<Rightarrow> ebind (rec_to_i64 R (val e)) (\<lambda>raw. ebind (or_fail (NotAChar raw) (char_from_i64 raw)) (\<lambda>c. ret (const_new (CharV c))))
        | UserDefined _ \<Rightarrow> ret e
        | Reference _ _ _ _ \<Rightarrow> ret e
        | _ \<Rightarrow> fail UnsupportedConversion))"

definition partial_cmp :: "'f aidl_env \<Rightarrow> 'f evaluator \<Rightarrow> 'f ValueType \<Rightarrow> 'f ValueType \<Rightarrow> Ordering option ev" where
  "partial_cmp E R v w =
    (case v of
       Void \<Rightarrow> ret (Some (case w of Void \<Rightarrow> Equal | _ \<Rightarrow> Less))
     | StringV s \<Rightarrow> ret (Some (cmp_string s (to_value_string E w)))
     | Name s \<Rightarrow> ret (Some (cmp_string s (to_value_string E w)))
     | Byte b \<Rightarrow> cmp_ok (rec_to_i64 R w) (\<lambda>r. Some (cmp_int (sint b) (sint (as_i8 r))))
     | Int32 i \<Rightarrow> cmp_ok (rec_to_i64 R w) (\<lambda>r. Some (cmp_int (sint i) (sint (as_i32 r))))
     | Int64 i \<Rightarrow> cmp_ok (rec_to_i64 R w) (\<lambda>r. Some (cmp_int (sint i) (sint r)))
     | CharV c \<Rightarrow> cmp_ok (rec_to_i64 R w) (\<lambda>r. Some (cmp_int (int c) (sint r)))
     | Bool b \<Rightarrow> cmp_ok (rec_to_bool R w) (\<lambda>r. Some (cmp_int (of_bool b) (of_bool r)))
     | Float f \<Rightarrow> cmp_ok (rec_to_f64 R w) (f_cmp E f)
     | Double f \<Rightarrow> cmp_ok (rec_to_f64 R w) (f_cmp E f)
     | Array xs \<Rightarrow> (case w of Array ys \<Rightarrow> cmp_all (\<lambda>x y. rec_partial_cmp R (val x) (val y)) xs ys | _ \<Rightarrow> ret None)
     | Unary _ _ \<Rightarrow> Option.bind (calculate R v) (\<lambda>l. Option.bind (calculate R w) (\<lambda>r.
         case (l, r) of
           (Panic, _) \<Rightarrow> Some Panic | (_, Panic) \<Rightarrow> Some Panic
         | (Ok l, Ok r) \<Rightarrow> rec_partial_cmp R (val l) (val r) | _ \<Rightarrow> ret None))
     | Expr _ _ _ \<Rightarrow> Option.bind (calculate R v) (\<lambda>l. Option.bind (calculate R w) (\<lambda>r.
         case (l, r) of
           (Panic, _) \<Rightarrow> Some Panic | (_, Panic) \<Rightarrow> Some Panic
         | (Ok l, Ok r) \<Rightarrow> rec_partial_cmp R (val l) (val r) | _ \<Rightarrow> ret None))
     | _ \<Rightarrow> ret None)"

text \<open>The functions themselves, with fuel.\<close>

fun evals :: "'f aidl_env \<Rightarrow> nat \<Rightarrow> 'f evaluator" where
  "evals E 0 = \<lparr>rec_calculate_with_visited = \<lambda>_ _ _. None, rec_unary_not = \<lambda>_. None, rec_logical_not = \<lambda>_. None,
    rec_unary_minus = \<lambda>_. None, rec_to_bool = \<lambda>_. None, rec_to_f64 = \<lambda>_. None, rec_to_i64 = \<lambda>_. None,
    rec_convert_to = \<lambda>_ _. None, rec_partial_cmp = \<lambda>_ _. None\<rparr>"
| "evals E (Suc n) = (let R = evals E n in
    \<lparr>rec_calculate_with_visited = calculate_with_visited E R, rec_unary_not = unary_not R,
     rec_logical_not = logical_not R, rec_unary_minus = unary_minus E R, rec_to_bool = to_bool E R,
     rec_to_f64 = to_f64 E R, rec_to_i64 = to_i64 E R, rec_convert_to = convert_to E R,
     rec_partial_cmp = partial_cmp E R\<rparr>)"

text \<open>\<open>ConstExpr::calculate\<close>.\<close>

definition const_calculate :: "'f aidl_env \<Rightarrow> nat \<Rightarrow> 'f ConstExpr \<Rightarrow> 'f ConstExpr ev" where
  "const_calculate E n = calculate_once (calculate (evals E n))"
end
