(* ===== verification/Aidl_Eval.thy ===== *)
theory Aidl_Eval
  imports Aidl_Const
begin

text \<open>
  Evaluation of AIDL constant expressions (\<open>rsbinder-aidl/src/const_expr.rs\<close>): it terminates on every
  expression and its results are values. Fuel 262 is enough for every call, because the depth limit of 256
  bounds the nesting and each level makes a bounded number of nested calls.
\<close>

section \<open>Sequencing\<close>

lemma ebind_simps [simp]: "ebind (ret a) f = f a" "ebind (fail e) f = fail e" "ebind (Some Panic) f = Some Panic" "ebind None f = None"
  by (simp_all add: ebind_def)

lemma ebind_Ok: "ebind m f = ret b \<longleftrightarrow> (\<exists>a. m = ret a \<and> f a = ret b)"
  by (cases m) (auto simp: ebind_def split: outcome.splits)

definition returns :: "'a ev \<Rightarrow> bool" where
  "returns m \<longleftrightarrow> m \<noteq> None"

lemma returns_Some [simp]: "returns (Some r)" "\<not> returns None"
  by (simp_all add: returns_def)

lemma ebind_returns: "returns m \<Longrightarrow> (\<And>a. m = ret a \<Longrightarrow> returns (f a)) \<Longrightarrow> returns (ebind m f)"
  by (cases m) (auto simp: ebind_def split: outcome.splits)

lemma map_ev_Ok: "map_ev f xs = ret ys \<Longrightarrow> y \<in> set ys \<Longrightarrow> \<exists>x \<in> set xs. f x = ret y"
  by (induction xs arbitrary: ys) (auto simp: ebind_Ok)

lemma map_ev_returns: "(\<And>x. x \<in> set xs \<Longrightarrow> returns (f x)) \<Longrightarrow> returns (map_ev f xs)"
  by (induction xs) (auto intro!: ebind_returns)

lemma fold_ev_Ok: "fold_ev f xs s = ret (ys, s') \<Longrightarrow> y \<in> set ys \<Longrightarrow> \<exists>x s s'. x \<in> set xs \<and> f x s = ret (y, s')"
  by (induction xs arbitrary: s ys s') (force simp: ebind_Ok)+

lemma fold_ev_returns: "(\<And>x s. x \<in> set xs \<Longrightarrow> returns (f x s)) \<Longrightarrow> returns (fold_ev f xs s)"
  by (induction xs arbitrary: s) (auto intro!: ebind_returns)

lemma cmp_all_returns:
  "(\<And>x y. x \<in> set xs \<Longrightarrow> y \<in> set ys \<Longrightarrow> returns (f x y)) \<Longrightarrow> returns (cmp_all f xs ys)"
  by (induction f xs ys rule: cmp_all.induct) (auto intro!: ebind_returns)

lemma cmp_ok_returns: "returns m \<Longrightarrow> returns (cmp_ok m f)"
  by (cases m) (auto simp: cmp_ok_def split: outcome.splits)

lemma or_fail_returns: "returns (or_fail e r)"
  by (simp add: or_fail_def split: option.split)

lemmas returns_intros = ebind_returns map_ev_returns fold_ev_returns cmp_all_returns cmp_ok_returns or_fail_returns

lemma evals_simps [simp]:
  "rec_calculate_with_visited (evals E (Suc n)) = calculate_with_visited E (evals E n)"
  "rec_unary_not (evals E (Suc n)) = unary_not (evals E n)"
  "rec_logical_not (evals E (Suc n)) = logical_not (evals E n)"
  "rec_unary_minus (evals E (Suc n)) = unary_minus E (evals E n)"
  "rec_to_bool (evals E (Suc n)) = to_bool E (evals E n)"
  "rec_to_f64 (evals E (Suc n)) = to_f64 E (evals E n)"
  "rec_to_i64 (evals E (Suc n)) = to_i64 E (evals E n)"
  "rec_convert_to (evals E (Suc n)) = convert_to E (evals E n)"
  "rec_partial_cmp (evals E (Suc n)) = partial_cmp E (evals E n)"
  by (simp_all add: Let_def)

declare evals.simps(2) [simp del]

section \<open>Results are values\<close>

text \<open>No operator is left, outside of the arguments of a map type; the names that are left do not
  resolve; arrays are nested at most \<open>k\<close> deep.\<close>

fun evaluated :: "'f aidl_env \<Rightarrow> nat \<Rightarrow> 'f ValueType \<Rightarrow> bool" where
  "evaluated E k (Expr _ _ _) = False"
| "evaluated E k (Unary _ _) = False"
| "evaluated E k (Name s) = (name_to_const_expr E s = None)"
| "evaluated E 0 (Array es) = False"
| "evaluated E (Suc k) (Array es) = (\<forall>e \<in> set es. evaluated E k (val e))"
| "evaluated E k _ = True"

lemma evaluated_atom:
  "(case v of Expr _ _ _ \<Rightarrow> False | Unary _ _ \<Rightarrow> False | Name _ \<Rightarrow> False | Array _ \<Rightarrow> False | _ \<Rightarrow> True) \<Longrightarrow> evaluated E k v"
  by (cases v) auto

lemma evaluated_mono: "evaluated E k v \<Longrightarrow> k \<le> k' \<Longrightarrow> evaluated E k' v"
proof (induction E k v arbitrary: k' rule: evaluated.induct)
  case (5 E k es)
  then obtain k'' where "k' = Suc k''" by (cases k') auto
  then show ?case using 5 by auto
qed auto

lemma val_new [simp]: "val (const_new v) = v"
  by (simp add: const_new_def)

lemma array_depth: "evaluated E k (Array es) \<Longrightarrow> \<exists>k'. k = Suc k'"
  by (cases k) auto

text \<open>An operation that works through arrays element by element keeps their depth.\<close>

lemma array_evaluated:
  assumes "map_ev f es = ret es'" "evaluated E k (Array es)"
    and "\<And>e r k. f e = ret r \<Longrightarrow> evaluated E k (val e) \<Longrightarrow> evaluated E k (val r)"
  shows "evaluated E k (Array es')"
proof -
  obtain k' where k: "k = Suc k'" using array_depth [OF assms(2)] by blast
  have "evaluated E k' (val e')" if "e' \<in> set es'" for e'
    using map_ev_Ok [OF assms(1) that] assms(2,3) k by auto
  then show ?thesis using k by simp
qed

lemma unary_not_evaluated:
  "rec_unary_not (evals E n) v = ret r \<Longrightarrow> evaluated E k v \<Longrightarrow> evaluated E k (val r)"
proof (induction n arbitrary: k v r)
  case (Suc n)
  from Suc.prems show ?case
    by (cases v) (auto simp: unary_not_def ebind_Ok intro: array_evaluated [OF _ _ Suc.IH])
qed simp

lemma logical_not_evaluated:
  "rec_logical_not (evals E n) v = ret r \<Longrightarrow> evaluated E k v \<Longrightarrow> evaluated E k (val r)"
proof (induction n arbitrary: k v r)
  case (Suc n)
  from Suc.prems show ?case
    by (cases v) (auto simp: logical_not_def ebind_Ok intro: array_evaluated [OF _ _ Suc.IH])
qed simp

lemma unary_minus_evaluated:
  "rec_unary_minus (evals E n) v = ret r \<Longrightarrow> evaluated E k v \<Longrightarrow> evaluated E k (val r)"
proof (induction n arbitrary: k v r)
  case (Suc n)
  from Suc.prems show ?case
    by (cases v) (auto simp: unary_minus_def ebind_Ok split: if_splits intro: array_evaluated [OF _ _ Suc.IH])
qed simp

lemma as_array_None: "as_array v = None \<longleftrightarrow> (\<forall>es. v \<noteq> Array es)"
  by (cases v) auto

lemma convert_to_evaluated:
  "rec_convert_to (evals E n) e t = ret r \<Longrightarrow> evaluated E k (val e) \<Longrightarrow> evaluated E k (val r)"
proof (induction n arbitrary: k e t r)
  case (Suc n)
  show ?case
  proof (cases "order (val e) = order t")
    case True
    then show ?thesis using Suc.prems by (simp add: convert_to_def)
  next
    case False
    show ?thesis
    proof (cases "as_array (val e)")
      case None
      then show ?thesis using False Suc.prems
        by (cases t) (auto simp: convert_to_def ebind_Ok split: if_splits)
    next
      case (Some es)
      then have es: "val e = Array es" by (cases "val e") auto
      obtain es' where m: "map_ev (\<lambda>e. rec_convert_to (evals E n) e t) es = ret es'" and r: "val r = Array es'"
        using Suc.prems(1) Some False by (auto simp: convert_to_def ebind_Ok)
      have "evaluated E k (Array es')"
        by (rule array_evaluated [OF m _ Suc.IH]) (use Suc.prems(2) es in simp_all)
      then show ?thesis using r by simp
    qed
  qed
qed simp

lemma bit_op_atom: "arithmetic_bit_op ti l f r d p = ret e \<Longrightarrow> evaluated E k (val e)"
  by (cases p) (auto simp: arithmetic_bit_op_def Let_def ebind_Ok)

lemma shift_op_atom: "shift_op ti l operator r p = ret e \<Longrightarrow> evaluated E k (val e)"
  by (cases p) (auto simp: shift_op_def Let_def ebind_Ok split: if_split_asm)

lemma basic_op_atom: "arithmetic_basic_op conv ti tf E' l i f r d p = ret e \<Longrightarrow> evaluated E k (val e)"
  by (cases p) (auto simp: arithmetic_basic_op_def Let_def ebind_Ok split: if_split_asm)

text \<open>Either branch, whatever the condition.\<close>

lemma if_branches: "(if b then x else y) = z \<Longrightarrow> (x = z \<Longrightarrow> P) \<Longrightarrow> (y = z \<Longrightarrow> P) \<Longrightarrow> P"
  by (cases b) auto

lemma apply_operator_atom:
  "apply_operator E' tb ti tf conv cmp l operator r = ret e \<Longrightarrow> evaluated E k (val e)"
  unfolding apply_operator_def Let_def
  by (elim if_branches) (auto simp: ebind_Ok split: if_split_asm intro: bit_op_atom shift_op_atom basic_op_atom)

lemma calculate_with_visited_evaluated:
  "rec_calculate_with_visited (evals E n) visited depth v = ret (r, visited') \<Longrightarrow> evaluated E (257 - depth) (val r)"
proof (induction n arbitrary: visited depth v r visited')
  case (Suc n)
  then have d: "depth \<le> 256" and D: "257 - depth = Suc (257 - (depth + 1))"
    by (auto simp: calculate_with_visited_def MAX_EXPR_DEPTH_def split: if_splits)
  have up: "evaluated E (257 - depth) w" if "evaluated E (257 - (depth + 1)) w" for w :: "'a ValueType"
    using evaluated_mono [OF that] by simp
  show ?case
  proof (cases v)
    case (Name s)
    show ?thesis
    proof (cases "name_to_const_expr E s")
      case (Some e)
      then have "rec_calculate_with_visited (evals E n) (insert s visited) (depth + 1) (val e) = ret (r, visited')"
        using Name Suc.prems d by (simp add: calculate_with_visited_def MAX_EXPR_DEPTH_def split: if_splits)
      then show ?thesis by (rule up [OF Suc.IH])
    qed (use Name Suc.prems d in \<open>auto simp: calculate_with_visited_def MAX_EXPR_DEPTH_def split: if_splits\<close>)
  next
    case (Array es)
    then obtain es' visited2 where es': "fold_ev (\<lambda>e visited. rec_calculate_with_visited (evals E n) visited (depth + 1) (val e)) es visited =
        ret (es', visited2)" "val r = Array es'"
      using Suc.prems d by (auto simp: calculate_with_visited_def MAX_EXPR_DEPTH_def ebind_Ok)
    have "evaluated E (257 - (depth + 1)) (val e')" if "e' \<in> set es'" for e'
      using fold_ev_Ok [OF es'(1) that] Suc.IH by blast
    then show ?thesis using es'(2) D by simp
  next
    case (Expr l operator r')
    then show ?thesis using Suc.prems d
      by (auto simp: calculate_with_visited_def MAX_EXPR_DEPTH_def ebind_Ok elim: apply_operator_atom)
  next
    case (Unary operator e)
    then obtain e1 visited1 where e1: "rec_calculate_with_visited (evals E n) visited (depth + 1) (val e) = ret (e1, visited1)"
      and r: "rec_unary_minus (evals E n) (val e1) = ret r \<or> rec_unary_not (evals E n) (val e1) = ret r \<or>
        rec_logical_not (evals E n) (val e1) = ret r \<or> r = e1"
      using Suc.prems d by (auto simp: calculate_with_visited_def MAX_EXPR_DEPTH_def ebind_Ok split: if_splits)
    have "evaluated E (257 - (depth + 1)) (val e1)" by (rule Suc.IH [OF e1])
    then have "evaluated E (257 - (depth + 1)) (val r)"
      using r unary_minus_evaluated unary_not_evaluated logical_not_evaluated by blast
    then show ?thesis by (rule up)
  qed (use Suc.prems d in \<open>auto simp: calculate_with_visited_def MAX_EXPR_DEPTH_def\<close>)
qed simp

section \<open>Evaluation terminates\<close>

lemma conversions_return:
  assumes "evaluated E k v"
  shows "returns (rec_to_bool (evals E (Suc n)) v)" "returns (rec_to_f64 (evals E (Suc n)) v)"
    "returns (rec_to_i64 (evals E (Suc n)) v)"
  using assms by (cases v; simp add: to_bool_def to_f64_def to_i64_def via_name_def)+

lemma fuel_Suc: "k < (n :: nat) \<Longrightarrow> \<exists>m. n = Suc m \<and> k \<le> m"
  by (cases n) auto

lemma array_returns:
  assumes "evaluated E k (Array es)" "\<And>e k'. k = Suc k' \<Longrightarrow> evaluated E k' (val e) \<Longrightarrow> returns (f e)"
  shows "returns (map_ev f es)"
  using array_depth [OF assms(1)] assms by (auto intro!: map_ev_returns)

lemma unary_not_returns: "evaluated E k v \<Longrightarrow> k < n \<Longrightarrow> returns (rec_unary_not (evals E n) v)"
proof (induction n arbitrary: k v)
  case (Suc n)
  then show ?case
    by (cases v) (auto simp: unary_not_def intro!: ebind_returns array_returns)
qed simp

lemma unary_minus_returns: "evaluated E k v \<Longrightarrow> k < n \<Longrightarrow> returns (rec_unary_minus (evals E n) v)"
proof (induction n arbitrary: k v)
  case (Suc n)
  then show ?case
    by (cases v) (auto simp: unary_minus_def intro!: ebind_returns array_returns)
qed simp

lemma logical_not_returns: "evaluated E k v \<Longrightarrow> Suc k < n \<Longrightarrow> returns (rec_logical_not (evals E n) v)"
proof (induction n arbitrary: k v)
  case (Suc n)
  then obtain m where n: "n = Suc m" by (cases n) auto
  have "returns (rec_to_bool (evals E n) v)" using conversions_return(1) [OF Suc.prems(1)] n by simp
  then show ?case using Suc
    by (cases v) (auto simp: logical_not_def intro!: ebind_returns array_returns)
qed simp

lemma convert_to_returns: "evaluated E k (val e) \<Longrightarrow> Suc k < n \<Longrightarrow> returns (rec_convert_to (evals E n) e t)"
proof (induction n arbitrary: k e)
  case (Suc n)
  then obtain m where n: "n = Suc m" by (cases n) auto
  show ?case
  proof (cases "as_array (val e)")
    case None
    then show ?thesis
      using conversions_return [OF Suc.prems(1), of m] n
      by (cases t) (auto simp: convert_to_def or_fail_def intro!: ebind_returns split: option.split)
  next
    case (Some es)
    then have "val e = Array es" by (cases "val e") auto
    then show ?thesis using Suc Some by (auto simp: convert_to_def intro!: ebind_returns array_returns)
  qed
qed simp

lemma partial_cmp_returns:
  "evaluated E k v \<Longrightarrow> evaluated E k w \<Longrightarrow> Suc k < n \<Longrightarrow> returns (rec_partial_cmp (evals E n) v w)"
proof (induction n arbitrary: k v w)
  case (Suc n)
  then obtain m where n: "n = Suc m" by (cases n) auto
  note conv = conversions_return [OF Suc.prems(2), of m, folded n]
  show ?case
  proof (cases v)
    case (Array xs)
    then obtain k' where k: "k = Suc k'" using array_depth Suc.prems(1) by blast
    show ?thesis
    proof (cases w)
      case (Array ys)
      have "returns (rec_partial_cmp (evals E n) (val x) (val y))" if "x \<in> set xs" "y \<in> set ys" for x y
        using Suc.IH [of k' "val x" "val y"] Suc.prems k \<open>v = Array xs\<close> Array that by simp
      then show ?thesis using \<open>v = Array xs\<close> Array by (auto simp: partial_cmp_def intro!: cmp_all_returns)
    qed (use Array in \<open>auto simp: partial_cmp_def\<close>)
  qed (use Suc.prems conv in \<open>auto simp: partial_cmp_def intro!: cmp_ok_returns\<close>)
qed simp

lemma if_returns: "returns x \<Longrightarrow> returns y \<Longrightarrow> returns (if b then x else y)"
  by simp

lemma bit_op_returns:
  "returns (ti l) \<Longrightarrow> returns (ti r) \<Longrightarrow> returns (arithmetic_bit_op ti l f r d p)"
  by (cases p) (auto simp: arithmetic_bit_op_def Let_def intro!: ebind_returns)

lemma shift_op_returns:
  assumes "returns (ti l)" "returns (ti r)"
  shows "returns (shift_op ti l operator r p)"
proof -
  show ?thesis
    unfolding shift_op_def Let_def using assms
    by (intro ebind_returns if_returns) (cases p; simp)+
qed

lemma basic_op_returns:
  assumes "returns (conv l p)" "returns (conv r p)" "\<And>e. conv l p = ret e \<or> conv r p = ret e \<Longrightarrow> returns (ti e) \<and> returns (tf e)"
    "\<And>a b. returns (i a b)"
  shows "returns (arithmetic_basic_op conv ti tf E l i f r d p)"
  unfolding arithmetic_basic_op_def Let_def using assms
  by (cases p) (auto intro!: ebind_returns)

lemma apply_operator_returns:
  assumes "evaluated E k (val l)" "evaluated E k (val r)" "Suc k < n"
  shows "returns (apply_operator E (\<lambda>e. rec_to_bool (evals E n) (val e)) (\<lambda>e. rec_to_i64 (evals E n) (val e))
    (\<lambda>e. rec_to_f64 (evals E n) (val e)) (rec_convert_to (evals E n)) (\<lambda>a b. rec_partial_cmp (evals E n) (val a) (val b))
    l operator r)"
proof -
  obtain m where n: "n = Suc m" using assms(3) by (cases n) auto
  have conv: "returns (rec_to_bool (evals E n) (val e)) \<and> returns (rec_to_i64 (evals E n) (val e)) \<and> returns (rec_to_f64 (evals E n) (val e))"
    if "evaluated E k (val e)" for e
    using conversions_return [OF that, of m] n by simp
  have to: "returns (rec_convert_to (evals E n) l t)" "returns (rec_convert_to (evals E n) r t)" for t
    using convert_to_returns assms by blast+
  have after: "evaluated E k (val e)" if "rec_convert_to (evals E n) l t = ret e \<or> rec_convert_to (evals E n) r t = ret e" for e t
    using that convert_to_evaluated assms(1,2) by blast
  have cmp: "returns (ebind (rec_convert_to (evals E n) l t) (\<lambda>a. ebind (rec_convert_to (evals E n) r t) (\<lambda>b.
      ebind (rec_partial_cmp (evals E n) (val a) (val b)) (\<lambda>c. ret (g c)))))" for t and g :: "_ \<Rightarrow> 'a ConstExpr"
    by (intro ebind_returns to returns_Some partial_cmp_returns [OF _ _ assms(3)]) (blast intro: after)+
  have basic: "returns (arithmetic_basic_op (rec_convert_to (evals E n)) (\<lambda>e. rec_to_i64 (evals E n) (val e))
      (\<lambda>e. rec_to_f64 (evals E n) (val e)) E l (\<lambda>a b. or_fail e (i a b)) f r d p)" for e i f d p
    using to after conv by (intro basic_op_returns) (auto simp: or_fail_def split: option.split)
  have bool: "returns (rec_to_bool (evals E n) (val l))" "returns (rec_to_bool (evals E n) (val r))"
    and int: "returns (rec_to_i64 (evals E n) (val l))" "returns (rec_to_i64 (evals E n) (val r))"
    using conv assms(1,2) by auto
  show ?thesis
    unfolding apply_operator_def Let_def
    by (intro if_returns basic cmp bit_op_returns shift_op_returns ebind_returns bool int returns_Some)
qed

lemma calculate_with_visited_returns:
  "depth \<le> 257 \<Longrightarrow> 260 - depth \<le> n \<Longrightarrow> returns (rec_calculate_with_visited (evals E n) visited depth v)"
proof (induction n arbitrary: visited depth v)
  case (Suc n)
  show ?case
  proof (cases "depth \<le> 256")
    case True
    have IH: "returns (rec_calculate_with_visited (evals E n) visited (Suc depth) w)" for visited w
      using Suc.IH [of "Suc depth"] Suc.prems True by simp
    have ev: "evaluated E (256 - depth) (val e)" if "rec_calculate_with_visited (evals E n) visited (Suc depth) w = ret (e, visited')" for e w visited visited'
      using calculate_with_visited_evaluated [OF that] by simp
    have fuel: "Suc (256 - depth) < n" using Suc.prems True by simp
    show ?thesis
    proof (cases v)
      case (Unary operator e)
      have "returns (rec_unary_minus (evals E n) (val x)) \<and> returns (rec_unary_not (evals E n) (val x)) \<and> returns (rec_logical_not (evals E n) (val x))"
        if "rec_calculate_with_visited (evals E n) visited (Suc depth) w = ret (x, visited')" for x w visited'
        using ev [OF that] fuel unary_minus_returns unary_not_returns logical_not_returns by (metis Suc_lessD)
      then show ?thesis using True Unary IH
        by (auto simp: calculate_with_visited_def MAX_EXPR_DEPTH_def intro!: ebind_returns)
    next
      case (Expr l operator r)
      have "returns (apply_operator E (\<lambda>e. rec_to_bool (evals E n) (val e)) (\<lambda>e. rec_to_i64 (evals E n) (val e))
          (\<lambda>e. rec_to_f64 (evals E n) (val e)) (rec_convert_to (evals E n)) (\<lambda>a b. rec_partial_cmp (evals E n) (val a) (val b)) x operator y)"
        if "rec_calculate_with_visited (evals E n) visited (Suc depth) (val l) = ret (x, vx)"
          "rec_calculate_with_visited (evals E n) visited (Suc depth) (val r) = ret (y, vy)" for x y vx vy
        using apply_operator_returns [OF ev [OF that(1)] ev [OF that(2)] fuel] .
      then show ?thesis using True Expr IH
        by (auto simp: calculate_with_visited_def MAX_EXPR_DEPTH_def intro!: ebind_returns)
    next
      case (Array es)
      then show ?thesis using True IH
        by (auto simp: calculate_with_visited_def MAX_EXPR_DEPTH_def intro!: ebind_returns fold_ev_returns)
    next
      case (Name s)
      then show ?thesis using True IH by (auto simp: calculate_with_visited_def MAX_EXPR_DEPTH_def split: option.split)
    qed (use True in \<open>auto simp: calculate_with_visited_def MAX_EXPR_DEPTH_def\<close>)
  qed (use Suc.prems in \<open>simp add: calculate_with_visited_def MAX_EXPR_DEPTH_def\<close>)
qed simp

lemma calculate_returns: "260 \<le> n \<Longrightarrow> returns (calculate (evals E n) v)"
  unfolding calculate_def by (auto intro!: ebind_returns calculate_with_visited_returns)

lemma calculate_evaluated: "calculate (evals E n) v = ret e \<Longrightarrow> evaluated E 257 (val e)"
  unfolding calculate_def by (auto simp: ebind_Ok dest!: calculate_with_visited_evaluated)

lemma after_calculation_returns:
  assumes "260 \<le> n" "as_name v = None"
  shows "returns (to_bool E (evals E n) v)" "returns (to_f64 E (evals E n) v)" "returns (to_i64 E (evals E n) v)"
proof -
  obtain m where n: "n = Suc m" using assms(1) by (cases n) auto
  have again: "returns (ebind (calculate (evals E n) v) (\<lambda>e. rec_to_bool (evals E n) (val e)))"
    "returns (ebind (calculate (evals E n) v) (\<lambda>e. rec_to_f64 (evals E n) (val e)))"
    "returns (ebind (calculate (evals E n) v) (\<lambda>e. rec_to_i64 (evals E n) (val e)))"
    unfolding n using calculate_returns [of "Suc m" E v] assms(1) n
    by (auto intro!: ebind_returns conversions_return [simplified] dest!: calculate_evaluated)
  show "returns (to_bool E (evals E n) v)" "returns (to_f64 E (evals E n) v)" "returns (to_i64 E (evals E n) v)"
    using again assms(2) by (cases v; simp add: to_bool_def to_f64_def to_i64_def)+
qed

lemma via_name_returns:
  assumes "260 \<le> n" "\<And>v. as_name v = None \<Longrightarrow> returns (conv v)"
  shows "returns (via_name E (calculate_once (calculate (evals E n))) conv s)"
  unfolding via_name_def calculate_once_def using assms calculate_returns [OF assms(1)]
  by (auto intro!: ebind_returns split: option.split)

lemma conversions_return_anyway:
  assumes "261 \<le> n"
  shows "returns (to_bool E (evals E n) v)" "returns (to_f64 E (evals E n) v)" "returns (to_i64 E (evals E n) v)"
proof -
  obtain m where n: "n = Suc m" "260 \<le> m" using assms by (cases n) auto
  have "returns (to_bool E (evals E n) (Name s))" "returns (to_f64 E (evals E n) (Name s))" "returns (to_i64 E (evals E n) (Name s))" for s
    using n after_calculation_returns [OF n(2)]
    by (auto simp: to_bool_def to_f64_def to_i64_def simp del: evals.simps intro!: via_name_returns)
  moreover have "as_name v = None \<or> (\<exists>s. v = Name s)" by (cases v) auto
  ultimately show "returns (to_bool E (evals E n) v)" "returns (to_f64 E (evals E n) v)" "returns (to_i64 E (evals E n) v)"
    using after_calculation_returns [of n v E] assms by auto
qed


end
