(* ===== verification/Aidl_Exact.thy ===== *)
theory Aidl_Exact
  imports Aidl_Eval
begin

text \<open>
  The arithmetic of AIDL constant expressions (\<open>rsbinder-aidl/src/const_expr.rs\<close>) against a reference
  semantics over the mathematical integers, and two ways in which evaluation departs from what is meant.
\<close>

section \<open>Integer arithmetic is exact\<close>

text \<open>The meaning of an integer expression over the mathematical integers: its type and value, or
  nothing when a step has no result in its type.\<close>

datatype int_type = BoolT | ByteT | IntT | LongT

fun lowest :: "int_type \<Rightarrow> int" where
  "lowest BoolT = 0" | "lowest ByteT = - 128" | "lowest IntT = - 2147483648" | "lowest LongT = - 9223372036854775808"

fun highest :: "int_type \<Rightarrow> int" where
  "highest BoolT = 1" | "highest ByteT = 127" | "highest IntT = 2147483647" | "highest LongT = 9223372036854775807"

definition fits :: "int_type \<Rightarrow> int \<Rightarrow> bool" where
  "fits t v \<longleftrightarrow> lowest t \<le> v \<and> v \<le> highest t"

fun embed :: "int_type \<Rightarrow> int \<Rightarrow> 'f ValueType" where
  "embed BoolT v = Bool (v \<noteq> 0)"
| "embed ByteT v = Byte (word_of_int v)"
| "embed IntT v = Int32 (word_of_int v)"
| "embed LongT v = Int64 (word_of_int v)"

definition join_type :: "int_type \<Rightarrow> int_type \<Rightarrow> int_type" where
  "join_type t u = (if t = LongT \<or> u = LongT then LongT else IntT)"

definition in_type :: "int_type \<Rightarrow> int \<Rightarrow> (int_type \<times> int) option" where
  "in_type t v = (if fits t v then Some (t, v) else None)"

definition exact_binary :: "string \<Rightarrow> int_type \<times> int \<Rightarrow> int_type \<times> int \<Rightarrow> (int_type \<times> int) option" where
  "exact_binary operator x y =
    (let t = join_type (fst x) (fst y); a = snd x; b = snd y
     in if operator = ''+'' then in_type t (a + b)
        else if operator = ''-'' then in_type t (a - b)
        else if operator = ''*'' then in_type t (a * b)
        else if operator = ''/'' then (if b = 0 then None else in_type t (quot a b))
        else if operator = ''%'' then (if b = 0 \<or> a = lowest t \<and> b = -1 then None else Some (t, remainder a b))
        else if operator = ''|'' then Some (t, a OR b)
        else if operator = ''^'' then Some (t, a XOR b)
        else if operator = ''&'' then Some (t, a AND b)
        else if operator = ''=='' then Some (BoolT, of_bool (a = b))
        else if operator = ''!='' then Some (BoolT, of_bool (a \<noteq> b))
        else if operator = ''<='' then Some (BoolT, of_bool (a \<le> b))
        else if operator = ''>='' then Some (BoolT, of_bool (a \<ge> b))
        else if operator = ''<'' then Some (BoolT, of_bool (a < b))
        else if operator = ''>'' then Some (BoolT, of_bool (a > b))
        else if operator = ''&&'' then Some (BoolT, of_bool (a \<noteq> 0 \<and> b \<noteq> 0))
        else Some (BoolT, of_bool (a \<noteq> 0 \<or> b \<noteq> 0)))"

definition exact_unary :: "string \<Rightarrow> int_type \<times> int \<Rightarrow> (int_type \<times> int) option" where
  "exact_unary operator x =
    (let t = fst x; a = snd x
     in if operator = ''-'' then (if t = BoolT then Some x else in_type t (- a))
        else if operator = ''~'' then Some (t, if t = BoolT then 1 - a else - a - 1)
        else if operator = ''!'' then Some (BoolT, of_bool (a = 0))
        else Some x)"

fun exact :: "'f ValueType \<Rightarrow> (int_type \<times> int) option" where
  "exact (Bool b) = Some (BoolT, of_bool b)"
| "exact (Byte b) = Some (ByteT, sint b)"
| "exact (Int32 i) = Some (IntT, sint i)"
| "exact (Int64 i) = Some (LongT, sint i)"
| "exact (Unary operator (ConstExpr _ _ e)) = Option.bind (exact e) (exact_unary operator)"
| "exact (Expr (ConstExpr _ _ l) operator (ConstExpr _ _ r)) =
    Option.bind (exact l) (\<lambda>x. Option.bind (exact r) (exact_binary operator x))"
| "exact _ = None"

definition int_operators :: "string set" where
  "int_operators = {''+'', ''-'', ''*'', ''/'', ''%'', ''|'', ''^'', ''&'', ''=='', ''!='', ''<='', ''>='', ''<'', ''>'', ''&&'', ''||''}"

definition unary_operators :: "string set" where
  "unary_operators = {''-'', ''~'', ''!'', ''+''}"

text \<open>The expressions over integer and boolean literals, and how deep they are nested.\<close>

fun int_expr :: "'f ValueType \<Rightarrow> bool" where
  "int_expr (Bool _) = True"
| "int_expr (Byte _) = True"
| "int_expr (Int32 _) = True"
| "int_expr (Int64 _) = True"
| "int_expr (Unary operator (ConstExpr _ _ e)) = (operator \<in> unary_operators \<and> int_expr e)"
| "int_expr (Expr (ConstExpr _ _ l) operator (ConstExpr _ _ r)) =
    (operator \<in> int_operators \<and>
     int_expr l \<and> int_expr r)"
| "int_expr _ = False"

fun height :: "'f ValueType \<Rightarrow> nat" where
  "height (Unary _ (ConstExpr _ _ e)) = Suc (height e)"
| "height (Expr (ConstExpr _ _ l) _ (ConstExpr _ _ r)) = Suc (max (height l) (height r))"
| "height _ = 0"

lemma sint_of: 
  "- 128 \<le> v \<Longrightarrow> v \<le> 127 \<Longrightarrow> sint (word_of_int v :: i8) = v"
  "- 2147483648 \<le> v \<Longrightarrow> v \<le> 2147483647 \<Longrightarrow> sint (word_of_int v :: i32) = v"
  "- 9223372036854775808 \<le> v \<Longrightarrow> v \<le> 9223372036854775807 \<Longrightarrow> sint (word_of_int v :: i64) = v"
  by (simp_all add: sint_sbintrunc' signed_take_bit_int_eq_self)

lemma fits_simps: "fits BoolT v \<longleftrightarrow> v = 0 \<or> v = 1" 
  "fits ByteT v \<longleftrightarrow> - 128 \<le> v \<and> v \<le> 127" "fits IntT v \<longleftrightarrow> - 2147483648 \<le> v \<and> v \<le> 2147483647"
  "fits LongT v \<longleftrightarrow> - 9223372036854775808 \<le> v \<and> v \<le> 9223372036854775807"
  by (auto simp: fits_def)

lemma fits_long: "fits t v \<Longrightarrow> fits LongT v"
  by (cases t) (auto simp: fits_simps)

lemma embed_to_i64:
  assumes "fits t v"
  shows "to_i64 E R (embed t v) = ret (word_of_int v)"
proof -
  have "(scast (word_of_int v :: i8) :: i64) = word_of_int v" if "- 128 \<le> v" "v \<le> 127"
    using sint_of(1) [OF that] by (simp add: scast_eq)
  moreover have "(scast (word_of_int v :: i32) :: i64) = word_of_int v" if "- 2147483648 \<le> v" "v \<le> 2147483647"
    using sint_of(2) [OF that] by (simp add: scast_eq)
  ultimately show ?thesis
    using assms by (cases t) (auto simp: to_i64_def fits_simps)
qed

lemma embed_to_bool:
  assumes "fits t v"
  shows "to_bool E R (embed t v) = ret (v \<noteq> 0)"
proof -
  have "(word_of_int v :: i8) = 0 \<longleftrightarrow> v = 0" if "- 128 \<le> v" "v \<le> 127"
    using sint_of(1) [OF that] by (metis signed_0 word_of_int_0)
  moreover have "(word_of_int v :: i32) = 0 \<longleftrightarrow> v = 0" if "- 2147483648 \<le> v" "v \<le> 2147483647"
    using sint_of(2) [OF that] by (metis signed_0 word_of_int_0)
  moreover have "(word_of_int v :: i64) = 0 \<longleftrightarrow> v = 0" if "- 9223372036854775808 \<le> v" "v \<le> 9223372036854775807"
    using sint_of(3) [OF that] by (metis signed_0 word_of_int_0)
  ultimately show ?thesis
    using assms by (cases t) (auto simp: to_bool_def fits_simps)
qed

lemma promoted_embed:
  "type_conversion (integral_promotion (embed t v)) (integral_promotion (embed u w)) =
    embed (join_type t u) (if t = LongT then v else if u = LongT then w else 0)"
  by (cases t; cases u; simp add: type_conversion_def integral_promotion_def join_type_def)

lemma ucast_of_int: "(ucast (word_of_int v :: i64) :: i32) = word_of_int v" "(ucast (word_of_int v :: i64) :: i8) = word_of_int v"
  by (transfer, simp add: take_bit_take_bit)+

definition wide :: "int_type \<Rightarrow> bool" where
  "wide T \<longleftrightarrow> T = IntT \<or> T = LongT"

lemma join_wide [simp]: "wide (join_type t u)"
  by (simp add: wide_def join_type_def)

lemma fits_join: "fits t v \<Longrightarrow> fits (join_type t u) v \<and> fits (join_type u t) v"
  by (cases t; cases u) (auto simp: fits_simps join_type_def)

lemma sint_long: "fits LongT v \<Longrightarrow> sint (word_of_int v :: i64) = v"
  using sint_of(3) by (simp add: fits_simps)

lemma checked_fits: "i64_checked v = (if fits LongT v then Some (word_of_int v) else None)"
  by (simp add: i64_checked_def fits_simps)

lemma convert_embed:
  assumes "val e = embed t v" "fits t v" "wide T" "fits T v" "t = LongT \<longrightarrow> T = LongT"
  shows "\<exists>r. convert_to E (evals E (Suc m)) e (embed T w) = ret r \<and> val r = embed T v"
proof -
  have "sint (word_of_int v :: i64) = v" using sint_long fits_long assms(4) by blast
  then show ?thesis
    using assms embed_to_i64 [OF assms(2), of E "evals E m"]
    by (cases T; cases t) (auto simp: convert_to_def wide_def fits_simps ucast_of_int)
qed

lemma basic_exact:
  assumes "wide T" "fits T a" "fits T b" "conv l (embed T w) = ret l'" "val l' = embed T a" "conv r (embed T w) = ret r'" "val r' = embed T b"
    and ti: "\<And>e. ti e = to_i64 E R (val e)"
    and op: "iop (word_of_int a) (word_of_int b) = or_fail err (i64_checked c)"
  shows "arithmetic_basic_op conv ti tf E l iop fop r d (embed T w) =
    (if fits T c \<and> \<not> (T = IntT \<and> d = ''%'' \<and> a = lowest T \<and> b = -1) then ret (const_new (embed T c))
     else if fits LongT c then fail (Overflows d) else fail err)"
proof -
  have a: "sint (word_of_int a :: i64) = a" "sint (word_of_int b :: i64) = b"
    using sint_long fits_long assms(2,3) by blast+
  have i: "ti l' = ret (word_of_int a)" "ti r' = ret (word_of_int b)"
    using ti assms(5,7) embed_to_i64 [OF assms(2), of E R] embed_to_i64 [OF assms(3), of E R] by auto
  show ?thesis
  proof (cases "fits LongT c")
    case True
    then show ?thesis
      using assms(1,4,6) i op a sint_long [OF True]
      by (cases T) (auto simp: arithmetic_basic_op_def wide_def checked_fits or_fail_def fits_simps ucast_of_int)
  next
    case False
    then show ?thesis
      using assms(1,4,6) i op fits_long [of T c]
      by (cases T) (auto simp: arithmetic_basic_op_def wide_def checked_fits or_fail_def)
  qed
qed

lemma remainder_eq: "remainder a b = sgn a * (\<bar>a\<bar> mod \<bar>b\<bar>)"
proof -
  have "b * quot a b = sgn a * (\<bar>b\<bar> * (\<bar>a\<bar> div \<bar>b\<bar>))"
    by (simp add: quot_def abs_sgn ac_simps)
  moreover have "a = sgn a * \<bar>a\<bar>" by (simp add: sgn_mult_abs)
  ultimately have "remainder a b = sgn a * (\<bar>a\<bar> - \<bar>b\<bar> * (\<bar>a\<bar> div \<bar>b\<bar>))"
    by (simp add: remainder_def right_diff_distrib)
  then show ?thesis by (simp add: minus_mult_div_eq_mod)
qed

lemma remainder_fits:
  assumes "wide T" "fits T a" "fits T b" "b \<noteq> 0"
  shows "fits T (remainder a b)"
proof -
  have "0 \<le> \<bar>a\<bar> mod \<bar>b\<bar>" "\<bar>a\<bar> mod \<bar>b\<bar> < \<bar>b\<bar>" using assms(4) by simp_all
  then have "\<bar>remainder a b\<bar> < \<bar>b\<bar>"
    unfolding remainder_eq by (cases "a = 0") (auto simp: abs_mult abs_sgn_eq)
  then show ?thesis using assms by (auto simp: wide_def fits_simps)
qed

lemma signed_take_bit_ops:
  "signed_take_bit k (a OR b :: int) = signed_take_bit k a OR signed_take_bit k b"
  "signed_take_bit k (a XOR b :: int) = signed_take_bit k a XOR signed_take_bit k b"
  "signed_take_bit k (a AND b :: int) = signed_take_bit k a AND signed_take_bit k b"
  by (rule bit_eqI; auto simp: bit_simps)+

lemma bits_fit:
  assumes "wide T" "fits T a" "fits T b"
  shows "fits T (a OR b)" "fits T (a XOR b)" "fits T (a AND b)"
proof -
  define k where "k = (if T = IntT then 31 else 63 :: nat)"
  have k: "fits T v \<longleftrightarrow> signed_take_bit k v = v" for v
    using assms(1) by (auto simp: wide_def fits_simps k_def signed_take_bit_int_eq_self_iff)
  show "fits T (a OR b)" "fits T (a XOR b)" "fits T (a AND b)"
    using assms(2,3) unfolding k by (simp_all add: signed_take_bit_ops)
qed

lemma bit_exact:
  assumes "wide T" "fits t a" "fits u b" "val l = embed t a" "val r = embed u b"
    and "\<And>e. ti e = to_i64 E R (val e)"
    and "f (word_of_int a) (word_of_int b) = word_of_int c"
  shows "arithmetic_bit_op ti l f r d (embed T w) = ret (const_new (embed T c))"
  using assms embed_to_i64 [OF assms(2), of E R] embed_to_i64 [OF assms(3), of E R]
  by (cases T) (auto simp: arithmetic_bit_op_def wide_def ucast_of_int)

lemma cmp_exact:
  assumes "wide T" "fits T a" "fits T b"
  shows "partial_cmp E (evals E (Suc m)) (embed T a) (embed T b) = ret (Some (cmp_int a b))"
  using assms embed_to_i64 [OF assms(3), of E "evals E m"]
  by (cases T) (auto simp: partial_cmp_def wide_def cmp_ok_def ucast_of_int sint_of fits_simps)

text \<open>What evaluation should return for an exact result.\<close>

definition delivers :: "'f ConstExpr ev \<Rightarrow> (int_type \<times> int) option \<Rightarrow> bool" where
  "delivers m x = (case x of Some (t, v) \<Rightarrow> fits t v \<and> (\<exists>e. m = ret e \<and> val e = embed t v) | None \<Rightarrow> \<exists>err. m = fail err)"

lemma delivers_new [simp]: "delivers (ret (const_new (embed t v))) (Some (t, v)) = fits t v"
  by (auto simp: delivers_def)

lemma delivers_bool [simp]: "delivers (ret (const_new (Bool b))) (Some (BoolT, v)) = (v = of_bool b)"
  by (auto simp: delivers_def fits_simps)

lemma delivers_fail [simp]: "delivers (fail e) None"
  by (simp add: delivers_def)

lemma comparison_simps [simp]:
  "comparison ''=='' (Some (cmp_int a b)) = (a = b)" "comparison ''!='' (Some (cmp_int a b)) = (a \<noteq> b)"
  "comparison ''<='' (Some (cmp_int a b)) = (a \<le> b)" "comparison ''>='' (Some (cmp_int a b)) = (a \<ge> b)"
  "comparison ''<'' (Some (cmp_int a b)) = (a < b)" "comparison ''>'' (Some (cmp_int a b)) = (a > b)"
  by (auto simp: comparison_def cmp_int_def)

lemma apply_operator_exact:
  assumes l: "val l = embed t a" "fits t a" and r: "val r = embed u b" "fits u b"
    and op: "operator \<in> int_operators"
    and n: "n = Suc (Suc m)"
  shows "delivers (apply_operator E (\<lambda>e. rec_to_bool (evals E n) (val e)) (\<lambda>e. rec_to_i64 (evals E n) (val e))
    (\<lambda>e. rec_to_f64 (evals E n) (val e)) (rec_convert_to (evals E n)) (\<lambda>a b. rec_partial_cmp (evals E n) (val a) (val b))
    l operator r) (exact_binary operator (t, a) (u, b))"
proof -
  define T where "T = join_type t u"
  define w where "w = (if t = LongT then a else if u = LongT then b else 0)"
  have T: "wide T" "fits T a" "fits T b" using fits_join l(2) r(2) by (auto simp: T_def)
  have p: "type_conversion (integral_promotion (val l)) (integral_promotion (val r)) = embed T w"
    unfolding l r T_def w_def by (rule promoted_embed)
  obtain l' where l': "convert_to E (evals E (Suc m)) l (embed T w) = ret l'" "val l' = embed T a"
    using convert_embed [OF l T(1,2), of E m w] by (auto simp: T_def join_type_def)
  obtain r' where r': "convert_to E (evals E (Suc m)) r (embed T w) = ret r'" "val r' = embed T b"
    using convert_embed [OF r T(1,3), of E m w] by (auto simp: T_def join_type_def)
  have ab: "sint (word_of_int a :: i64) = a" "sint (word_of_int b :: i64) = b"
    using sint_long fits_long T by blast+
  have b0: "(word_of_int b :: i64) = 0 \<longleftrightarrow> b = 0" using ab(2) by (metis signed_0 word_of_int_0)
  let ?ti = "\<lambda>e. to_i64 E (evals E (Suc m)) (val e)" and ?conv = "convert_to E (evals E (Suc m))"
  have arith: "delivers (arithmetic_basic_op ?conv ?ti tf E l (\<lambda>a b. or_fail err (f a b)) g r d (embed T w)) (in_type T c)"
    if "f (word_of_int a) (word_of_int b) = i64_checked c" "d \<noteq> ''%''" for f g d c err tf
    unfolding in_type_def using that
    by (subst basic_exact [where conv = ?conv and ti = ?ti and R = "evals E (Suc m)" and c = c and err = err, OF T l' r']) auto
  define c where "c = (if b = 0 \<or> a = lowest LongT \<and> b = -1 then 9223372036854775808 else remainder a b)"
  have cr: "checked_rem (word_of_int a) (word_of_int b) = i64_checked c"
    by (simp add: checked_rem_def ab b0 c_def) (simp add: i64_checked_def)
  have cT: "fits T c" if "b \<noteq> 0" "\<not> (a = lowest T \<and> b = -1)"
    using that remainder_fits [OF T that(1)] T(1,2) by (auto simp: c_def wide_def fits_simps)
  have rem: "delivers (arithmetic_basic_op ?conv ?ti tf E l (\<lambda>a b. or_fail DivisionError (checked_rem a b)) g r ''%'' (embed T w))
      (if b = 0 \<or> a = lowest T \<and> b = -1 then None else Some (T, remainder a b))" for tf g
    using cT T(1,2)
    by (subst basic_exact [where conv = ?conv and ti = ?ti and R = "evals E (Suc m)" and c = c and err = DivisionError, OF T l' r'])
      (auto simp: cr c_def wide_def fits_simps)
  have bit: "delivers (arithmetic_bit_op ?ti l f r d (embed T w)) (Some (T, c))"
    if "f (word_of_int a) (word_of_int b) = word_of_int c" "fits T c" for f d c
    using that by (subst bit_exact [where ti = ?ti and R = "evals E (Suc m)" and c = c, OF T(1) l(2) r(2) l(1) r(1)]) auto
  have div: "delivers (arithmetic_basic_op ?conv ?ti tf E l (\<lambda>a b. or_fail DivisionError (checked_div a b)) g r ''/'' (embed T w))
      (if b = 0 then None else in_type T (quot a b))" for tf g
  proof (cases "b = 0")
    case True
    then show ?thesis
      using arith [of checked_div 9223372036854775808] T(1) by (auto simp: checked_div_def i64_checked_def in_type_def wide_def fits_simps)
  qed (use arith [of checked_div "quot a b"] in \<open>simp add: checked_div_def ab b0\<close>)
  have bool: "to_bool E (evals E (Suc m)) (val l) = ret (a \<noteq> 0)" "to_bool E (evals E (Suc m)) (val r) = ret (b \<noteq> 0)"
    unfolding l r using embed_to_bool l(2) r(2) by blast+
  have cmp: "partial_cmp E (evals E (Suc m)) (val l') (val r') = ret (Some (cmp_int a b))"
    unfolding l' r' by (rule cmp_exact [OF T])
  note parts = arith [of checked_add "a + b"] arith [of checked_sub "a - b"] arith [of checked_mul "a * b"] div rem
    bit [of "(OR)" "a OR b"] bit [of "(XOR)" "a XOR b"] bit [of "(AND)" "a AND b"]
  show ?thesis
    using op [unfolded int_operators_def] parts bits_fit [OF T]
    by (elim insertE emptyE; hypsubst;
      simp add: apply_operator_def exact_binary_def p n T_def [symmetric] checked_add_def checked_sub_def checked_mul_def ab bool
        l'(1) r'(1) cmp of_int_or_eq of_int_xor_eq of_int_and_eq)
qed

lemma not_of_int: "NOT (word_of_int v :: 'a::len word) = word_of_int (- v - 1)"
  by (simp add: of_int_not_eq [symmetric] not_int_def)

lemma unary_exact:
  assumes "fits t v"
  shows "delivers (unary_minus E (evals E m) (embed t v)) (exact_unary ''-'' (t, v))"
    "delivers (unary_not (evals E m) (embed t v)) (exact_unary ''~'' (t, v))"
    "delivers (logical_not (evals E (Suc m)) (embed t v)) (exact_unary ''!'' (t, v))"
  subgoal using assms by (cases t) (auto simp: unary_minus_def exact_unary_def in_type_def delivers_def fits_simps sint_of)
  subgoal using assms by (cases t) (auto simp: unary_not_def exact_unary_def in_type_def delivers_def fits_simps not_of_int)
  subgoal using assms embed_to_bool [OF assms, of E "evals E m"]
    by (cases t) (auto simp: logical_not_def exact_unary_def delivers_def fits_simps)
  done

lemma literal_fits: "fits BoolT (of_bool b)" "fits ByteT (sint (i :: i8))" "fits IntT (sint (j :: i32))" "fits LongT (sint (k :: i64))"
  using sint_range_size [of i] sint_range_size [of j] sint_range_size [of k]
  by (auto simp: fits_simps word_size)

lemma delivers_first:
  "delivers (ebind m (\<lambda>(e, _). ret e)) (Some (t, v)) \<longleftrightarrow> fits t v \<and> (\<exists>e s. m = ret (e, s) \<and> val e = embed t v)"
  "delivers (ebind m (\<lambda>(e, _). ret e)) None \<longleftrightarrow> (\<exists>err. m = fail err)"
  by (cases m; auto simp: delivers_def ebind_def split: outcome.splits)+

lemma delivers_pair: "delivers (ebind (ebind m (\<lambda>e. ret (e, s))) (\<lambda>(e, _). ret e)) x = delivers m x"
  by (cases m) (auto simp: delivers_def ebind_def split: outcome.splits option.splits)

abbreviation first :: "('a \<times> 's) ev \<Rightarrow> 'a ev" where
  "first m \<equiv> ebind m (\<lambda>(e, _). ret e)"

lemma unary_step:
  assumes op: "operator \<in> unary_operators" and d: "depth \<le> MAX_EXPR_DEPTH"
    and e: "delivers (first (rec_calculate_with_visited (evals E (Suc (Suc m))) visited (depth + 1) (val e))) x"
  shows "delivers (first (rec_calculate_with_visited (evals E (Suc (Suc (Suc m)))) visited depth (Unary operator e)))
    (Option.bind x (exact_unary operator))"
proof (cases x)
  case None
  then show ?thesis using e d by (auto simp: delivers_first calculate_with_visited_def)
next
  case (Some y)
  obtain t v where y: "y = (t, v)" by (cases y)
  then obtain e1 vis1 where e1: "rec_calculate_with_visited (evals E (Suc (Suc m))) visited (depth + 1) (val e) = ret (e1, vis1)"
      "val e1 = embed t v" "fits t v"
    using e Some by (auto simp: delivers_first)
  have s: "\<not> is_string (val e1)" unfolding e1(2) by (cases t) auto
  have plus: "delivers (ret e1) (exact_unary ''+'' (t, v))"
    using e1 by (simp add: exact_unary_def delivers_def)
  have "delivers (if operator = ''-'' then rec_unary_minus (evals E (Suc (Suc m))) (val e1)
      else if operator = ''~'' then rec_unary_not (evals E (Suc (Suc m))) (val e1)
      else if operator = ''!'' then rec_logical_not (evals E (Suc (Suc m))) (val e1)
      else if is_string (val e1) then fail (UnaryOperand operator) else ret e1) (exact_unary operator (t, v))"
    using op [unfolded unary_operators_def] unary_exact(1,2) [OF e1(3), of E "Suc m"] unary_exact(3) [OF e1(3), of E m] plus s
    by (elim insertE emptyE; hypsubst; simp add: e1(2))
  then show ?thesis using e1(1) d Some y by (simp add: calculate_with_visited_def delivers_pair)
qed

lemma binary_step:
  assumes op: "operator \<in> int_operators" and d: "depth \<le> MAX_EXPR_DEPTH"
    and l: "delivers (first (rec_calculate_with_visited (evals E (Suc (Suc m))) visited (depth + 1) (val l))) x"
    and r: "delivers (first (rec_calculate_with_visited (evals E (Suc (Suc m))) visited (depth + 1) (val r))) y"
  shows "delivers (first (rec_calculate_with_visited (evals E (Suc (Suc (Suc m)))) visited depth (Expr l operator r)))
    (Option.bind x (\<lambda>x. Option.bind y (exact_binary operator x)))"
proof (cases x)
  case None
  then show ?thesis using l d by (auto simp: delivers_first calculate_with_visited_def)
next
  case (Some x')
  obtain t a where x: "x = Some (t, a)" using Some by (cases x') auto
  then obtain l1 vl where l1: "rec_calculate_with_visited (evals E (Suc (Suc m))) visited (depth + 1) (val l) = ret (l1, vl)"
      "val l1 = embed t a" "fits t a"
    using l by (auto simp: delivers_first)
  show ?thesis
  proof (cases y)
    case None
    then show ?thesis using r l1(1) d x by (auto simp: delivers_first calculate_with_visited_def)
  next
    case (Some y')
    obtain u b where y: "y = Some (u, b)" using Some by (cases y') auto
    then obtain r1 vr where r1: "rec_calculate_with_visited (evals E (Suc (Suc m))) visited (depth + 1) (val r) = ret (r1, vr)"
        "val r1 = embed u b" "fits u b"
      using r by (auto simp: delivers_first)
    from apply_operator_exact [OF l1(2,3) r1(2,3) op refl, of E m]
    show ?thesis using l1(1) r1(1) d x y by (simp add: calculate_with_visited_def delivers_pair)
  qed
qed

lemma literal_step:
  assumes "depth \<le> MAX_EXPR_DEPTH"
  shows "delivers (first (rec_calculate_with_visited (evals E (Suc n)) visited depth (Bool b))) (exact (Bool b))"
    "delivers (first (rec_calculate_with_visited (evals E (Suc n)) visited depth (Byte i))) (exact (Byte i))"
    "delivers (first (rec_calculate_with_visited (evals E (Suc n)) visited depth (Int32 j))) (exact (Int32 j))"
    "delivers (first (rec_calculate_with_visited (evals E (Suc n)) visited depth (Int64 k))) (exact (Int64 k))"
  using assms literal_fits by (simp_all add: delivers_def calculate_with_visited_def)

lemma calculate_exact:
  assumes "int_expr v" "depth + height v \<le> MAX_EXPR_DEPTH" "height v + 3 \<le> n"
  shows "delivers (first (rec_calculate_with_visited (evals E n) visited depth v)) (exact v)"
proof -
  have three: "\<exists>m. n = Suc (Suc (Suc m))" if "3 \<le> n" for n :: nat
    using that by (intro exI [of _ "n - 3"]) simp
  show ?thesis
    using assms
  proof (induction v arbitrary: n visited depth rule: exact.induct)
    case (5 operator raw c e)
    obtain m where n: "n = Suc (Suc (Suc m))" using 5(4) three [of n] by auto
    have "delivers (first (rec_calculate_with_visited (evals E (Suc (Suc m))) visited (depth + 1) e)) (exact e)"
      using 5(2-4) n by (intro 5(1)) auto
    then show ?case using unary_step [of operator depth E m visited "ConstExpr raw c e"] 5(2,3) n by simp
  next
    case (6 raw c l operator raw' c' r)
    obtain m where n: "n = Suc (Suc (Suc m))" using 6(5) three [of n] by auto
    have l: "delivers (first (rec_calculate_with_visited (evals E (Suc (Suc m))) visited (depth + 1) l)) (exact l)"
      using 6(3-5) n by (intro 6(1)) auto
    show ?case
    proof (cases "exact l")
      case None
      then show ?thesis
        using l 6(4) n by (auto simp: delivers_first calculate_with_visited_def)
    next
      case (Some x)
      have "delivers (first (rec_calculate_with_visited (evals E (Suc (Suc m))) visited (depth + 1) r)) (exact r)"
        using 6(3-5) n Some by (intro 6(2)) auto
      then show ?thesis
        using binary_step [of operator depth E m visited "ConstExpr raw c l" "exact l" "ConstExpr raw' c' r"] l 6(3,4) n by simp
    qed
  qed (use three in \<open>fastforce intro: literal_step\<close>)+
qed

lemma constants_exact:
  assumes "int_expr v" "height v \<le> MAX_EXPR_DEPTH" "\<not> c"
  shows "delivers (const_calculate E (260 + n) (ConstExpr raw c v)) (exact v)"
proof -
  have "delivers (calculate (evals E (260 + n)) v) (exact v)"
    unfolding calculate_def using calculate_exact [of v 0 "260 + n" E "{}"] assms by (simp add: MAX_EXPR_DEPTH_def)
  then show ?thesis
    using assms(3) by (cases "calculate (evals E (260 + n)) v")
      (auto simp: const_calculate_def calculate_once_def delivers_def ebind_def split: option.splits outcome.splits)
qed


text \<open>An environment without constants; whole numbers stand in for floating point numbers.\<close>

definition demo_aidl :: "int aidl_env" where
  "demo_aidl = \<lparr>name_to_const_expr = (\<lambda>_. None), f_add = (+), f_sub = (-), f_mul = (*), f_div = quot, f_rem = remainder,
    f_neg = uminus, f_of_int = id, f_to_i64 = word_of_int, f_as_f32 = id, f_cmp = (\<lambda>a b. Some (cmp_int a b)),
    f_show = show_int, f32_show = show_int\<rparr>"

text \<open>\<open>-(2147483647 * 2)\<close>.\<close>

definition demo_expr :: "int ValueType" where
  "demo_expr = Unary ''-'' (new_expr (const_new (Int32 2147483647)) ''*'' (const_new (Int64 2)))"


text \<open>C28: evaluation yields values. The result of evaluating an expression has no operator left in it, at
  any depth of its arrays; a name in it is one that does not resolve to a constant; and its arrays are
  nested at most as deep as the depth limit allows.\<close>

theorem evaluation_yields_value:
  assumes "\<not> is_calculated e" "const_calculate E n e = ret r"
  shows "evaluated E (Suc MAX_EXPR_DEPTH) (val r) \<and> is_calculated r"
  using assms calculate_evaluated [of E n "val e"]
  by (auto simp: const_calculate_def calculate_once_def ebind_Ok MAX_EXPR_DEPTH_def)

theorem evaluation_yields_value_witness:
  "\<exists>r. const_calculate demo_aidl 260 (const_new demo_expr) = ret r \<and> evaluated demo_aidl (Suc MAX_EXPR_DEPTH) (val r)"
proof -
  have "int_expr demo_expr" "height demo_expr \<le> MAX_EXPR_DEPTH"
    by (simp_all add: demo_expr_def new_expr_def const_new_def int_operators_def unary_operators_def MAX_EXPR_DEPTH_def)
  moreover have "exact demo_expr = Some (LongT, - 4294967294)"
    by (simp add: demo_expr_def new_expr_def const_new_def exact_binary_def exact_unary_def join_type_def in_type_def fits_simps)
  ultimately obtain r where r: "const_calculate demo_aidl 260 (const_new demo_expr) = ret r"
    using constants_exact [of demo_expr False demo_aidl 0 "[]"] by (auto simp: const_new_def delivers_def)
  have "\<not> is_calculated (const_new demo_expr)" by (simp add: const_new_def)
  from evaluation_yields_value [OF this r] r show ?thesis by blast
qed

section \<open>Where evaluation goes wrong\<close>

text \<open>a constant used twice in an array is taken for a cycle. The set of visited names is shared by
  the elements of an array literal, unlike the operands of a binary operator, so an array that names the
  same constant twice is rejected as a circular reference, whatever the value of the constant.\<close>

theorem repeated_constant_rejected:
  assumes "name_to_const_expr E name = Some (const_new (Int32 i))"
  shows "const_calculate E (260 + n) (const_new (Array [const_new (Name name), const_new (Name name)])) = fail (CircularReference name)"
proof -
  define m where "m = 257 + n"
  have n: "260 + n = Suc (Suc (Suc m))" by (simp add: m_def)
  show ?thesis
    unfolding n using assms
    by (simp add: const_calculate_def calculate_once_def calculate_def calculate_with_visited_def MAX_EXPR_DEPTH_def
      const_new_def)
qed

text \<open>comparing an enum member with anything is always false. A member evaluates to a reference, which
  the comparison does not order against any value, itself included: with a reference on the left the
  operators \<open>==\<close>, \<open><=\<close>, \<open>>=\<close>, \<open><\<close> and \<open>>\<close> all give false and \<open>!=\<close> gives true.\<close>

theorem enum_comparison_false:
  assumes "operator \<in> {''=='', ''!='', ''<='', ''>='', ''<'', ''>''}"
  shows "const_calculate E (260 + n) (new_expr (const_new (Reference t e m v)) operator (const_new (Reference t e m v))) =
    ret (ConstExpr [] True (Bool (operator = ''!='')))"
proof -
  define k where "k = 257 + n"
  have n: "260 + n = Suc (Suc (Suc k))" by (simp add: k_def)
  show ?thesis
    unfolding n using assms
    by (elim insertE emptyE; simp add: const_calculate_def calculate_once_def calculate_def calculate_with_visited_def
      MAX_EXPR_DEPTH_def const_new_def new_expr_def apply_operator_def type_conversion_def integral_promotion_def
      convert_to_def partial_cmp_def comparison_def)
qed

theorem enum_comparison_false_witness:
  "const_calculate demo_aidl 260 (new_expr (const_new (Reference ''p.E'' ''E'' ''A'' 1)) ''=='' (const_new (Reference ''p.E'' ''E'' ''A'' 1))) =
    ret (ConstExpr [] True (Bool False))"
  using enum_comparison_false [of "''==''" demo_aidl 0 "''p.E''" "''E''" "''A''" 1] by simp

theorem repeated_constant_rejected_witness:
  "const_calculate (demo_aidl\<lparr>name_to_const_expr := (\<lambda>_. None)(''A'' := Some (const_new (Int32 7)))\<rparr>) 260
    (const_new (Array [const_new (Name ''A''), const_new (Name ''A'')])) = fail (CircularReference ''A'')"
  using repeated_constant_rejected [of "demo_aidl\<lparr>name_to_const_expr := (\<lambda>_. None)(''A'' := Some (const_new (Int32 7)))\<rparr>" "''A''" 7 0] by simp

end
