(* ===== verification/Spec2Isabelle.thy ===== *)
theory Spec2Isabelle
  imports Parcel_Codec Status_Wire Parcel_Objects Thread_Loops Proxy_Cache Rpc_Refs Rpc_Oneway Rpc_Lifecycle Rpc_Pool Rpc_Replies Aidl_Exact
begin

text \<open>
  A model of \<open>rsbinder\<close>, a Rust implementation of Android's object-oriented inter-process
  communication, and the properties it is verified for. All source paths are under \<open>src/\<close>.

  \<^bold>\<open>Parts of the program and where they are modelled.\<close>

  \<^item> \<open>Prelude\<close>: machine integers, the outcome of a Rust call (a value, an error or a panic), slices
    and little-endian encodings. \<open>Transition\<close>: reachability of a transition system and the locale
    for inductive invariants.
  \<^item> \<open>Status_Code\<close> (\<open>rsbinder/src/error.rs\<close>), \<open>Stability\<close> (\<open>binder.rs\<close>).
  \<^item> \<open>Native_Table\<close> (\<open>process_state.rs\<close>): the table of objects a process has published, its counts
    and its two-phase removal, as operations and as an interleaved transition system.
  \<^item> \<open>Flat_Object\<close> (\<open>binder_object.rs\<close>): the 24-byte object records in parcels, and how they acquire
    and release references.
  \<^item> \<open>Parcel\<close>, \<open>Parcel_Lemmas\<close>, \<open>Parcel_Objects\<close> (\<open>parcel.rs\<close>): the parcel, its cursor, object table
    and ownership.
  \<^item> \<open>Parcelable\<close>, \<open>Parcel_Codec\<close> (\<open>parcelable.rs\<close>, and \<open>check_interface\<close> of \<open>thread_state.rs\<close>): the
    encodings of values, strings, arrays and the interface token; \<open>Status_Wire\<close> (\<open>status.rs\<close>).
  \<^item> \<open>Rpc_Address\<close>, \<open>Rpc_Stream\<close>, \<open>Rpc_Wire\<close>, \<open>Rpc_Wire13\<close>, \<open>Rpc_Handshake\<close> (\<open>rpc/address.rs\<close>,
    \<open>rpc/mod.rs\<close>, \<open>rpc/transport/mod.rs\<close>, \<open>rpc/wire.rs\<close>, \<open>rpc/wire_android13.rs\<close>): addresses, errors,
    framing, the two wire codecs and the connection handshake of the RPC stack.
\<close>

end
